(* ===== verification/Prelude.thy ===== *)
theory Prelude
  imports Main "HOL-Library.Word" "HOL-Library.Monad_Syntax"
begin

text \<open>
  Shared vocabulary of the development: the machine types of the C sources, pointers, C
  strings, the little-endian image of a 32-bit word and the guarded store accesses with
  which a read or write through a null or dangling pointer is a fault (\<open>None\<close>).
\<close>

unbundle bit_operations_syntax

named_theorems store_simps \<open>equations of the guarded store accesses\<close>
named_theorems bytes_simps \<open>lengths and indexing of byte images\<close>

subsection \<open>Machine types\<close>

type_synonym u8 = "8 word"
type_synonym u16 = "16 word"
type_synonym u32 = "32 word"
type_synonym u64 = "64 word"

text \<open>An address; the null pointer is address zero.\<close>

type_synonym ptr = nat

abbreviation NULL :: ptr where
  "NULL \<equiv> 0"

subsection \<open>C strings\<close>

text \<open>What a C string function sees of a buffer: the bytes before the first NUL.\<close>

definition c_str :: "string \<Rightarrow> string" where
  "c_str s = takeWhile (\<lambda>c. c \<noteq> CHR 0x00) s"

text \<open>
  The C library's number readers, as the sources use them: leading white space and a sign are
  accepted, reading stops at the first character that is not a digit, and a value that does not
  fit saturates (\<^verbatim>\<open>long\<close> has 64 bits). \<open>atoi\<close> is \<^verbatim>\<open>strtol\<close> in base ten cut to an \<^verbatim>\<open>int\<close>;
  \<open>strtoul0\<close> is \<^verbatim>\<open>strtoul\<close> with base 0, so the prefix selects hexadecimal, octal or decimal.
\<close>

definition is_space :: "char \<Rightarrow> bool" where
  "is_space c \<longleftrightarrow> c = CHR 0x20 \<or> (9 \<le> (of_char c :: nat) \<and> (of_char c :: nat) \<le> 13)"

definition digit_val :: "char \<Rightarrow> int" where
  "digit_val c =
     (let n = of_char c :: int in
      if 48 \<le> n \<and> n \<le> 57 then n - 48
      else if 97 \<le> n \<and> n \<le> 102 then n - 87
      else if 65 \<le> n \<and> n \<le> 70 then n - 55
      else - 1)"

definition is_digit :: "int \<Rightarrow> char \<Rightarrow> bool" where
  "is_digit base c \<longleftrightarrow> 0 \<le> digit_val c \<and> digit_val c < base"

definition read_digits :: "int \<Rightarrow> string \<Rightarrow> int" where
  "read_digits base s = foldl (\<lambda>acc c. acc * base + digit_val c) 0 (takeWhile (is_digit base) s)"

definition read_sign :: "string \<Rightarrow> bool \<times> string" where
  "read_sign s =
     (case dropWhile is_space s of
        [] \<Rightarrow> (False, [])
      | c # cs \<Rightarrow> if c = CHR ''-'' then (True, cs) else if c = CHR ''+'' then (False, cs) else (False, c # cs))"

definition strtol10 :: "string \<Rightarrow> int" where
  "strtol10 s =
     (let (neg, t) = read_sign s; v = read_digits 10 t
      in if neg then max (- (2 ^ 63)) (- v) else min (2 ^ 63 - 1) v)"

definition cast_int :: "int \<Rightarrow> int" where
  "cast_int i = (i + 2 ^ 31) mod 2 ^ 32 - 2 ^ 31"

definition atoi :: "string \<Rightarrow> int" where
  "atoi s = cast_int (strtol10 s)"

fun read_prefixed :: "string \<Rightarrow> int" where
  "read_prefixed (CHR ''0'' # x # c # cs) =
     (if (x = CHR ''x'' \<or> x = CHR ''X'') \<and> is_digit 16 c then read_digits 16 (c # cs)
      else read_digits 8 (CHR ''0'' # x # c # cs))"
| "read_prefixed (CHR ''0'' # cs) = read_digits 8 (CHR ''0'' # cs)"
| "read_prefixed cs = read_digits 10 cs"

definition strtoul0 :: "string \<Rightarrow> int" where
  "strtoul0 s =
     (let (neg, t) = read_sign s; v = read_prefixed t
      in if v \<ge> 2 ^ 64 then 2 ^ 64 - 1 else if neg then (- v) mod 2 ^ 64 else v)"

lemmas c_number_defs = atoi_def strtol10_def read_sign_def read_digits_def is_digit_def digit_val_def
  is_space_def cast_int_def

lemma c_str_no_nul: "CHR 0x00 \<notin> set (c_str s)"
  unfolding c_str_def by (auto dest: set_takeWhileD)

lemma c_str_id [simp]: "CHR 0x00 \<notin> set s \<Longrightarrow> c_str s = s"
  unfolding c_str_def by (auto simp: takeWhile_eq_all_conv)

subsection \<open>Little-endian words\<close>

definition le32 :: "u32 \<Rightarrow> u8 list" where
  "le32 w = [ucast w, ucast (drop_bit 8 w), ucast (drop_bit 16 w), ucast (drop_bit 24 w)]"

definition of_le32 :: "u8 list \<Rightarrow> u32" where
  "of_le32 bs = word_of_int
     (uint (bs ! 0) + 256 * uint (bs ! 1) + 65536 * uint (bs ! 2) + 16777216 * uint (bs ! 3))"

lemma length_le32 [simp, bytes_simps]: "length (le32 w) = 4"
  by (simp add: le32_def)

lemma digits_aux:
  fixes i a b c r0 r1 r2 :: int
  assumes "i = 256 * a + r0" "a = 256 * b + r1" "b = 256 * c + r2"
  shows "r0 + 256 * r1 + 65536 * r2 + 16777216 * c = i"
  using assms by simp

lemma base256_digits:
  fixes i :: int
  assumes "0 \<le> i" and "i < 4294967296"
  shows "i mod 256 + 256 * (i div 256 mod 256) + 65536 * (i div 65536 mod 256)
      + 16777216 * (i div 16777216 mod 256) = i"
proof -
  define a b c where "a = i div 256" and "b = a div 256" and "c = b div 256"
  have div: "i div 65536 = b" "i div 16777216 = c"
    by (simp_all add: a_def b_def c_def zdiv_zmult2_eq [symmetric])
  have c: "c mod 256 = c"
    unfolding div(2) [symmetric] using assms by (intro mod_pos_pos_trivial) linarith+
  have "i = 256 * a + i mod 256" "a = 256 * b + a mod 256" "b = 256 * c + b mod 256"
    unfolding a_def b_def c_def by simp_all
  then show ?thesis
    unfolding div c a_def [symmetric] by (rule digits_aux)
qed

lemma of_le32_le32 [simp]: "of_le32 (le32 w) = w"
proof -
  let ?i = "uint w"
  have bnd: "0 \<le> ?i" "?i < 4294967296"
    using uint_lt2p [of w] by simp_all
  have tb: "take_bit 32 ?i = ?i"
    using bnd by (simp add: take_bit_int_eq_self)
  have b0: "uint (ucast w :: u8) = ?i mod 256"
    by (simp add: unsigned_ucast_eq take_bit_eq_mod)
  have b: "uint (ucast (drop_bit n w) :: u8) = (?i div 2 ^ n) mod 256" for n
    by (simp only: unsigned_ucast_eq unsigned_drop_bit_eq)
      (simp add: drop_bit_eq_div tb take_bit_eq_mod [of 8])
  have bs: "uint (ucast (drop_bit 8 w) :: u8) = ?i div 256 mod 256"
    "uint (ucast (drop_bit 16 w) :: u8) = ?i div 65536 mod 256"
    "uint (ucast (drop_bit 24 w) :: u8) = ?i div 16777216 mod 256"
    using b [of 8] b [of 16] b [of 24] by simp_all
  have nths: "le32 w ! 0 = ucast w" "le32 w ! 1 = ucast (drop_bit 8 w)"
    "le32 w ! 2 = ucast (drop_bit 16 w)" "le32 w ! 3 = ucast (drop_bit 24 w)"
    by (simp_all add: le32_def)
  show ?thesis
    unfolding of_le32_def nths b0 bs base256_digits [OF bnd] by simp
qed

subsection \<open>Guarded store accesses\<close>

text \<open>
  A store maps the addresses of live objects to their contents. Reading or writing through
  the null pointer or through an address that is not live is a fault.
\<close>

definition rd :: "(ptr \<rightharpoonup> 'n) \<Rightarrow> ptr \<Rightarrow> 'n option" where
  "rd m p = (if p = NULL then None else m p)"

definition upd :: "(ptr \<rightharpoonup> 'n) \<Rightarrow> ptr \<Rightarrow> ('n \<Rightarrow> 'n) \<Rightarrow> (ptr \<rightharpoonup> 'n) option" where
  "upd m p f = (case rd m p of None \<Rightarrow> None | Some n \<Rightarrow> Some (m(p \<mapsto> f n)))"

text \<open>\<open>free\<close>: the null pointer is accepted, a pointer that is not live is a fault.\<close>

definition free_at :: "(ptr \<rightharpoonup> 'n) \<Rightarrow> ptr \<Rightarrow> (ptr \<rightharpoonup> 'n) option" where
  "free_at m p = (if p = NULL then Some m else case m p of None \<Rightarrow> None | Some _ \<Rightarrow> Some (m(p := None)))"

lemma rd_Some [store_simps]: "rd m p = Some n \<longleftrightarrow> p \<noteq> NULL \<and> m p = Some n"
  by (simp add: rd_def)

lemma rd_NULL [simp]: "rd m NULL = None"
  by (simp add: rd_def)

lemma rd_live [simp]: "p \<noteq> NULL \<Longrightarrow> rd m p = m p"
  by (simp add: rd_def)

lemma upd_live [simp]: "p \<noteq> NULL \<Longrightarrow> m p = Some n \<Longrightarrow> upd m p f = Some (m(p \<mapsto> f n))"
  by (simp add: upd_def)

lemma upd_fault: "upd m p f = None \<longleftrightarrow> p = NULL \<or> m p = None"
  by (auto simp: upd_def rd_def split: option.splits)

lemma free_at_live [simp]: "p \<noteq> NULL \<Longrightarrow> m p = Some n \<Longrightarrow> free_at m p = Some (m(p := None))"
  by (simp add: free_at_def)

end
