(* ===== verification/Dll_Segment.thy ===== *)
theory Dll_Segment
  imports Prelude
begin

text \<open>
  Doubly linked segments over a store, shared by the linked list of the GPS utilities and
  the chip list of the device-tree tool. The locale \<open>dll_node\<close> is the interface of a
  node type: its two link fields and their setters. The pointer surgery the sources do
  (push at the head, cut the tail, unlink, insert before) is proved once over it.
\<close>

subsection \<open>Segments\<close>

fun first_addr :: "ptr list \<Rightarrow> ptr \<Rightarrow> ptr" where
  "first_addr [] q = q"
| "first_addr (a # as) q = a"

definition last_addr :: "ptr \<Rightarrow> ptr list \<Rightarrow> ptr" where
  "last_addr p as = (if as = [] then p else last as)"

fun dlseg :: "('n \<Rightarrow> ptr) \<Rightarrow> ('n \<Rightarrow> ptr) \<Rightarrow> (ptr \<rightharpoonup> 'n) \<Rightarrow> ptr \<Rightarrow> ptr list \<Rightarrow> ptr \<Rightarrow> bool" where
  "dlseg nx pv m p [] q = True"
| "dlseg nx pv m p (a # as) q =
     (a \<noteq> NULL \<and>
      (case m a of None \<Rightarrow> False | Some n \<Rightarrow> pv n = p \<and> nx n = first_addr as q) \<and>
      dlseg nx pv m a as q)"

lemma last_addr_simps [simp]:
  "last_addr p [] = p" "last_addr p (as @ [a]) = a"
  by (simp_all add: last_addr_def)

lemma last_addr_Cons [simp]: "last_addr p (a # as) = last_addr a as"
  by (simp add: last_addr_def)

lemma last_addr_append [simp]: "last_addr p (as @ bs) = last_addr (last_addr p as) bs"
  by (simp add: last_addr_def)

lemma first_addr_append [simp]: "first_addr (as @ bs) q = first_addr as (first_addr bs q)"
  by (cases as) auto

lemma last_addr_in: "as \<noteq> [] \<Longrightarrow> last_addr p as \<in> set as"
  by (simp add: last_addr_def)

lemma first_addr_in: "as \<noteq> [] \<Longrightarrow> first_addr as q \<in> set as"
  by (cases as) auto

lemma dlseg_append [simp]:
  "dlseg nx pv m p (as @ bs) q \<longleftrightarrow>
     dlseg nx pv m p as (first_addr bs q) \<and> dlseg nx pv m (last_addr p as) bs q"
  by (induction as arbitrary: p) (auto split: option.splits)

lemma dlseg_live: "dlseg nx pv m p as q \<Longrightarrow> a \<in> set as \<Longrightarrow> a \<noteq> NULL \<and> (\<exists>n. m a = Some n)"
  by (induction as arbitrary: p) (auto split: option.splits)

lemma dlseg_not_NULL: "dlseg nx pv m p as q \<Longrightarrow> NULL \<notin> set as"
  using dlseg_live by fastforce

lemma dlseg_first_NULL [simp]: "dlseg nx pv m p as NULL \<Longrightarrow> first_addr as NULL = NULL \<longleftrightarrow> as = []"
  by (cases as) auto

lemma dlseg_last_NULL [simp]: "dlseg nx pv m NULL as q \<Longrightarrow> last_addr NULL as = NULL \<longleftrightarrow> as = []"
  using dlseg_not_NULL last_addr_in by (metis last_addr_simps(1))

lemma dlseg_cong:
  "(\<And>a. a \<in> set as \<Longrightarrow> m' a = m a) \<Longrightarrow> dlseg nx pv m' p as q = dlseg nx pv m p as q"
  by (induction as arbitrary: p) auto

lemma dlseg_frame [simp]: "x \<notin> set as \<Longrightarrow> dlseg nx pv (m(x := v)) p as q = dlseg nx pv m p as q"
  by (rule dlseg_cong) auto

lemma dlseg_unique:
  "dlseg nx pv m p as NULL \<Longrightarrow> dlseg nx pv m p bs NULL \<Longrightarrow> first_addr as NULL = first_addr bs NULL \<Longrightarrow> as = bs"
proof (induction as arbitrary: p bs)
  case Nil
  then show ?case by (cases bs) auto
next
  case (Cons a as)
  then obtain bs' where bs: "bs = a # bs'" by (cases bs) auto
  with Cons.prems have "as = bs'" by (intro Cons.IH [of a bs']) (auto split: option.splits)
  with bs show ?case by simp
qed

subsection \<open>The node interface\<close>

locale dll_node =
  fixes nx pv :: "'n \<Rightarrow> ptr"
    and set_nx set_pv :: "ptr \<Rightarrow> 'n \<Rightarrow> 'n"
  assumes nx_set_nx: "nx (set_nx v n) = v"
    and pv_set_nx: "pv (set_nx v n) = pv n"
    and nx_set_pv: "nx (set_pv v n) = nx n"
    and pv_set_pv: "pv (set_pv v n) = v"
begin

text \<open>Redirecting the outer links of a segment's end nodes.\<close>

lemma dlseg_set_first:
  assumes "dlseg nx pv m p (a # as) q" and "distinct (a # as)" and "m a = Some n"
  shows "dlseg nx pv (m(a \<mapsto> set_pv p' n)) p' (a # as) q"
  using assms by (simp add: nx_set_pv pv_set_pv)

lemma dlseg_set_last:
  assumes "dlseg nx pv m p (as @ [a]) q" and "distinct (as @ [a])" and "m a = Some n"
  shows "dlseg nx pv (m(a \<mapsto> set_nx q' n)) p (as @ [a]) q'"
  using assms by (simp add: nx_set_nx pv_set_nx)

text \<open>A new node in front of a segment whose first node now points back to it.\<close>

lemma dlseg_push:
  assumes "dlseg nx pv m NULL (b # bs) q" and "distinct (a # b # bs)" and "a \<noteq> NULL"
    and "m b = Some nb" and "nx n = b" and "pv n = p"
  shows "dlseg nx pv (m(a \<mapsto> n, b \<mapsto> set_pv a nb)) p (a # b # bs) q"
  using assms by (simp add: nx_set_pv pv_set_pv)

text \<open>A new node between two segments.\<close>

lemma dlseg_insert:
  assumes "dlseg nx pv m p (as @ [x] @ y # bs) q" and "distinct (a # as @ [x] @ y # bs)"
    and "a \<noteq> NULL" and "m x = Some n1" and "m y = Some n2" and "nx n = y" and "pv n = x"
  shows "dlseg nx pv (m(a \<mapsto> n, x \<mapsto> set_nx a n1, y \<mapsto> set_pv a n2)) p (as @ [x] @ a # y # bs) q"
  using assms by (auto simp: nx_set_pv pv_set_pv nx_set_nx pv_set_nx)

text \<open>A new node behind a segment.\<close>

lemma dlseg_snoc:
  assumes "dlseg nx pv m p (as @ [x]) NULL" and "distinct (a # as @ [x])"
    and "a \<noteq> NULL" and "m x = Some n1" and "nx n = NULL" and "pv n = x"
  shows "dlseg nx pv (m(a \<mapsto> n, x \<mapsto> set_nx a n1)) p (as @ [x] @ [a]) NULL"
  using assms by (auto simp: nx_set_nx pv_set_nx)

text \<open>Unlinking a node: its neighbours are joined, whichever of them exist.\<close>

definition unlink :: "(ptr \<rightharpoonup> 'n) \<Rightarrow> ptr list \<Rightarrow> ptr list \<Rightarrow> ptr \<rightharpoonup> 'n" where
  "unlink m as bs =
     (let m1 = (if as = [] then m else m(last as \<mapsto> set_nx (first_addr bs NULL) (the (m (last as)))))
      in if bs = [] then m1 else m1(hd bs \<mapsto> set_pv (last_addr NULL as) (the (m1 (hd bs)))))"

lemma dlseg_unlink:
  assumes seg: "dlseg nx pv m NULL (as @ a # bs) NULL" and dist: "distinct (as @ a # bs)"
  shows "dlseg nx pv (unlink m as bs) NULL (as @ bs) NULL"
proof -
  have 1: "dlseg nx pv m NULL as a" and 2: "dlseg nx pv m a bs NULL"
    using seg by auto
  define m1 where "m1 = (if as = [] then m else m(last as \<mapsto> set_nx (first_addr bs NULL) (the (m (last as)))))"
  have left: "dlseg nx pv m1 NULL as (first_addr bs NULL)"
  proof (cases as rule: rev_cases)
    case Nil
    then show ?thesis by simp
  next
    case (snoc as' x)
    with 1 obtain n where "m x = Some n" by (auto split: option.splits)
    with snoc 1 dist show ?thesis
      using dlseg_set_last [of m NULL as' x a n "first_addr bs NULL"] by (simp add: m1_def)
  qed
  have right: "dlseg nx pv m1 a bs NULL"
    using 2 dist by (cases as rule: rev_cases) (auto simp: m1_def)
  show ?thesis
  proof (cases bs)
    case Nil
    then have "unlink m as bs = m1" by (simp add: unlink_def m1_def)
    with left Nil show ?thesis by simp
  next
    case (Cons b bs')
    with right obtain n where n: "m1 b = Some n" by (auto split: option.splits)
    have "dlseg nx pv (m1(b \<mapsto> set_pv (last_addr NULL as) n)) (last_addr NULL as) bs NULL"
      using dlseg_set_first [of m1 a b bs' NULL n] right n dist Cons by simp
    moreover have "dlseg nx pv (m1(b \<mapsto> set_pv (last_addr NULL as) n)) NULL as (first_addr bs NULL)"
      using left dist Cons by simp
    moreover have "unlink m as bs = m1(b \<mapsto> set_pv (last_addr NULL as) n)"
      unfolding unlink_def m1_def [symmetric] using n Cons by simp
    ultimately show ?thesis by simp
  qed
qed

end

end
