(* ===== verification/Linked_List.thy ===== *)
theory Linked_List
  imports Dll_Segment
begin

text \<open>
  The linked list of the GPS utilities (\<^verbatim>\<open>gps/utils/linked_list.c\<close>): elements and list
  heads live in a store, every operation is translated with its pointer writes, its guards
  and its error codes. A result \<open>None\<close> is a memory fault (a read, write or free through a
  null or dangling pointer) or a loop that does not end, so each functional lemma below is
  also a memory-safety and a termination statement. Allocation is an argument: the address
  \<^verbatim>\<open>malloc\<close>/\<^verbatim>\<open>calloc\<close> returned, null when it failed. Calls of a \<^verbatim>\<open>dealloc\<close> callback are
  logged with their argument; the callbacks do not touch the list's own memory.
\<close>

subsection \<open>Data\<close>

datatype linked_list_err_type =
    eLINKED_LIST_SUCCESS
  | eLINKED_LIST_FAILURE_GENERAL
  | eLINKED_LIST_INVALID_PARAMETER
  | eLINKED_LIST_INVALID_HANDLE
  | eLINKED_LIST_UNAVAILABLE_RESOURCE
  | eLINKED_LIST_INSUFFICIENT_BUFFER

fun ll_err_code :: "linked_list_err_type \<Rightarrow> int" where
  "ll_err_code eLINKED_LIST_SUCCESS = 0"
| "ll_err_code eLINKED_LIST_FAILURE_GENERAL = -1"
| "ll_err_code eLINKED_LIST_INVALID_PARAMETER = -2"
| "ll_err_code eLINKED_LIST_INVALID_HANDLE = -3"
| "ll_err_code eLINKED_LIST_UNAVAILABLE_RESOURCE = -4"
| "ll_err_code eLINKED_LIST_INSUFFICIENT_BUFFER = -5"

record list_element =
  el_next :: ptr
  el_prev :: ptr
  el_data :: ptr
  el_dealloc :: ptr

record list_state =
  p_head :: ptr
  p_tail :: ptr

record ll_mem =
  elems :: "ptr \<rightharpoonup> list_element"
  lists :: "ptr \<rightharpoonup> list_state"
  dealloc_log :: "(ptr \<times> ptr) list"

subsection \<open>Field writes\<close>

definition set_head :: "ptr \<Rightarrow> ptr \<Rightarrow> ll_mem \<Rightarrow> ll_mem option" where
  "set_head l v h = do {
     ls \<leftarrow> upd (lists h) l (\<lambda>s. s\<lparr>p_head := v\<rparr>);
     Some (h\<lparr>lists := ls\<rparr>) }"

definition set_tail :: "ptr \<Rightarrow> ptr \<Rightarrow> ll_mem \<Rightarrow> ll_mem option" where
  "set_tail l v h = do {
     ls \<leftarrow> upd (lists h) l (\<lambda>s. s\<lparr>p_tail := v\<rparr>);
     Some (h\<lparr>lists := ls\<rparr>) }"

definition set_next :: "ptr \<Rightarrow> ptr \<Rightarrow> ll_mem \<Rightarrow> ll_mem option" where
  "set_next e v h = do {
     es \<leftarrow> upd (elems h) e (\<lambda>n. n\<lparr>el_next := v\<rparr>);
     Some (h\<lparr>elems := es\<rparr>) }"

definition set_prev :: "ptr \<Rightarrow> ptr \<Rightarrow> ll_mem \<Rightarrow> ll_mem option" where
  "set_prev e v h = do {
     es \<leftarrow> upd (elems h) e (\<lambda>n. n\<lparr>el_prev := v\<rparr>);
     Some (h\<lparr>elems := es\<rparr>) }"

definition free_elem :: "ptr \<Rightarrow> ll_mem \<Rightarrow> ll_mem option" where
  "free_elem e h = do { es \<leftarrow> free_at (elems h) e; Some (h\<lparr>elems := es\<rparr>) }"

definition call_dealloc :: "ptr \<Rightarrow> ptr \<Rightarrow> ll_mem \<Rightarrow> ll_mem" where
  "call_dealloc f d h = (if f \<noteq> NULL then h\<lparr>dealloc_log := dealloc_log h @ [(f, d)]\<rparr> else h)"

subsection \<open>Operations\<close>

text \<open>
  \<open>list_data\<close> of the first two operations is a pointer to the handle: \<open>None\<close> is the null
  pointer, \<open>Some v\<close> the handle's current value; the new value is returned.
\<close>

definition linked_list_init ::
  "ptr option \<Rightarrow> ptr \<Rightarrow> ll_mem \<Rightarrow> linked_list_err_type \<times> ptr option \<times> ll_mem" where
  "linked_list_init list_data tmp_list h =
     (case list_data of
        None \<Rightarrow> (eLINKED_LIST_INVALID_PARAMETER, None, h)
      | Some v \<Rightarrow>
          if tmp_list = NULL then (eLINKED_LIST_FAILURE_GENERAL, Some v, h)
          else (eLINKED_LIST_SUCCESS, Some tmp_list,
                h\<lparr>lists := (lists h)(tmp_list \<mapsto> \<lparr>p_head = NULL, p_tail = NULL\<rparr>)\<rparr>))"

definition linked_list_add ::
  "ptr \<Rightarrow> ptr \<Rightarrow> ptr \<Rightarrow> ptr \<Rightarrow> ll_mem \<Rightarrow> (linked_list_err_type \<times> ll_mem) option" where
  "linked_list_add list_data data_obj dealloc elem h =
     (if list_data = NULL then Some (eLINKED_LIST_INVALID_HANDLE, h)
      else if data_obj = NULL then Some (eLINKED_LIST_INVALID_PARAMETER, h)
      else if elem = NULL then Some (eLINKED_LIST_FAILURE_GENERAL, h)
      else do {
        let h0 = h\<lparr>elems := (elems h)(elem \<mapsto>
                   \<lparr>el_next = NULL, el_prev = NULL, el_data = data_obj, el_dealloc = dealloc\<rparr>)\<rparr>;
        s \<leftarrow> rd (lists h0) list_data;
        let tmp = p_head s;
        h1 \<leftarrow> set_head list_data elem h0;
        h2 \<leftarrow> set_next elem tmp h1;
        h3 \<leftarrow> (if tmp \<noteq> NULL then set_prev tmp elem h2 else set_tail list_data elem h2);
        Some (eLINKED_LIST_SUCCESS, h3) })"

text \<open>The output parameter \<open>data_obj\<close> is \<open>None\<close> for the null pointer, else its content.\<close>

definition linked_list_remove ::
  "ptr \<Rightarrow> ptr option \<Rightarrow> ll_mem \<Rightarrow> (linked_list_err_type \<times> ptr option \<times> ll_mem) option" where
  "linked_list_remove list_data data_obj h =
     (if list_data = NULL then Some (eLINKED_LIST_INVALID_HANDLE, data_obj, h)
      else if data_obj = None then Some (eLINKED_LIST_INVALID_PARAMETER, None, h)
      else do {
        s \<leftarrow> rd (lists h) list_data;
        if p_tail s = NULL then Some (eLINKED_LIST_UNAVAILABLE_RESOURCE, data_obj, h)
        else do {
          let tmp = p_tail s;
          e \<leftarrow> rd (elems h) tmp;
          h1 \<leftarrow> set_tail list_data (el_prev e) h;
          h2 \<leftarrow> (if el_prev e \<noteq> NULL then set_next (el_prev e) NULL h1
                else set_head list_data (el_prev e) h1);
          e' \<leftarrow> rd (elems h2) tmp;
          h3 \<leftarrow> free_elem tmp h2;
          Some (eLINKED_LIST_SUCCESS, Some (el_data e'), h3) } })"

definition linked_list_empty :: "ptr \<Rightarrow> ll_mem \<Rightarrow> int option" where
  "linked_list_empty list_data h =
     (if list_data = NULL then Some (ll_err_code eLINKED_LIST_INVALID_HANDLE)
      else do {
        s \<leftarrow> rd (lists h) list_data;
        Some (if p_head s = NULL then 1 else 0) })"

partial_function (option) flush_loop :: "ptr \<Rightarrow> ll_mem \<Rightarrow> ll_mem option" where
  "flush_loop l h = do {
     s \<leftarrow> rd (lists h) l;
     if p_head s = NULL then Some h
     else do {
       e \<leftarrow> rd (elems h) (p_head s);
       let tmp = el_next e;
       h1 \<leftarrow> free_elem (p_head s) (call_dealloc (el_dealloc e) (el_data e) h);
       h2 \<leftarrow> set_head l tmp h1;
       flush_loop l h2 } }"

definition linked_list_flush :: "ptr \<Rightarrow> ll_mem \<Rightarrow> (linked_list_err_type \<times> ll_mem) option" where
  "linked_list_flush list_data h =
     (if list_data = NULL then Some (eLINKED_LIST_INVALID_HANDLE, h)
      else do {
        h1 \<leftarrow> flush_loop list_data h;
        h2 \<leftarrow> set_tail list_data NULL h1;
        Some (eLINKED_LIST_SUCCESS, h2) })"

definition linked_list_destroy ::
  "ptr option \<Rightarrow> ll_mem \<Rightarrow> (linked_list_err_type \<times> ptr option \<times> ll_mem) option" where
  "linked_list_destroy list_data h =
     (case list_data of
        None \<Rightarrow> Some (eLINKED_LIST_INVALID_HANDLE, None, h)
      | Some v \<Rightarrow> do {
          (_, h1) \<leftarrow> linked_list_flush v h;
          ls \<leftarrow> free_at (lists h1) v;
          Some (eLINKED_LIST_SUCCESS, Some NULL, h1\<lparr>lists := ls\<rparr>) })"

text \<open>The body of the search loop once a match is found and is to be removed.\<close>

definition search_unlink :: "ptr \<Rightarrow> ptr \<Rightarrow> bool \<Rightarrow> ll_mem \<Rightarrow> ll_mem option" where
  "search_unlink l tmp copied_out h = do {
     e \<leftarrow> rd (elems h) tmp;
     h1 \<leftarrow> (if el_prev e = NULL then set_head l (el_next e) h
           else set_next (el_prev e) (el_next e) h);
     h2 \<leftarrow> (if el_next e = NULL then set_tail l (el_prev e) h1
           else set_prev (el_next e) (el_prev e) h1);
     h3 \<leftarrow> set_next tmp NULL h2;
     h4 \<leftarrow> set_prev tmp NULL h3;
     let h5 = (if \<not> copied_out then call_dealloc (el_dealloc e) (el_data e) h4 else h4);
     free_elem tmp h5 }"

partial_function (option) search_loop ::
  "ptr \<Rightarrow> ptr option \<Rightarrow> (ptr \<Rightarrow> ptr \<Rightarrow> bool) \<Rightarrow> ptr \<Rightarrow> bool \<Rightarrow> ptr \<Rightarrow> ll_mem \<Rightarrow> (ptr option \<times> ll_mem) option" where
  "search_loop l data_p eqf data_0 rm_if_found tmp h =
     (if tmp = NULL then Some (data_p, h)
      else do {
        e \<leftarrow> rd (elems h) tmp;
        if eqf data_0 (el_data e) then do {
          let data_p' = (case data_p of None \<Rightarrow> None | Some _ \<Rightarrow> Some (el_data e));
          h' \<leftarrow> (if rm_if_found then search_unlink l tmp (data_p \<noteq> None) h else Some h);
          Some (data_p', h') }
        else search_loop l data_p eqf data_0 rm_if_found (el_next e) h })"

definition linked_list_search ::
  "ptr \<Rightarrow> ptr option \<Rightarrow> (ptr \<Rightarrow> ptr \<Rightarrow> bool) option \<Rightarrow> ptr \<Rightarrow> bool \<Rightarrow> ll_mem
     \<Rightarrow> (linked_list_err_type \<times> ptr option \<times> ll_mem) option" where
  "linked_list_search list_data data_p eq data_0 rm_if_found h =
     (case eq of
        None \<Rightarrow> Some (eLINKED_LIST_INVALID_HANDLE, data_p, h)
      | Some eqf \<Rightarrow>
          if list_data = NULL then Some (eLINKED_LIST_INVALID_HANDLE, data_p, h)
          else do {
            s \<leftarrow> rd (lists h) list_data;
            if p_tail s = NULL then Some (eLINKED_LIST_UNAVAILABLE_RESOURCE, data_p, h)
            else do {
              (d, h') \<leftarrow> search_loop list_data (map_option (\<lambda>_. NULL) data_p) eqf data_0
                          rm_if_found (p_head s) h;
              Some (eLINKED_LIST_SUCCESS, d, h') } })"


subsection \<open>The representation invariant\<close>

interpretation el: dll_node el_next el_prev "\<lambda>v. el_next_update (\<lambda>_. v)" "\<lambda>v. el_prev_update (\<lambda>_. v)"
  by unfold_locales simp_all

definition payload :: "ll_mem \<Rightarrow> ptr \<Rightarrow> ptr \<times> ptr" where
  "payload h a = (case elems h a of None \<Rightarrow> (NULL, NULL) | Some e \<Rightarrow> (el_data e, el_dealloc e))"

definition ll_rep :: "ll_mem \<Rightarrow> ptr \<Rightarrow> ptr list \<Rightarrow> (ptr \<times> ptr) list \<Rightarrow> bool" where
  "ll_rep h l as ds \<longleftrightarrow>
     l \<noteq> NULL \<and> lists h l = Some \<lparr>p_head = first_addr as NULL, p_tail = last_addr NULL as\<rparr> \<and>
     dlseg el_next el_prev (elems h) NULL as NULL \<and> distinct as \<and> map (payload h) as = ds"

lemma set_head_live [simp]:
  "l \<noteq> NULL \<Longrightarrow> lists h l = Some s \<Longrightarrow>
     set_head l v h = Some (h\<lparr>lists := (lists h)(l \<mapsto> s\<lparr>p_head := v\<rparr>)\<rparr>)"
  by (simp add: set_head_def)

lemma set_tail_live [simp]:
  "l \<noteq> NULL \<Longrightarrow> lists h l = Some s \<Longrightarrow>
     set_tail l v h = Some (h\<lparr>lists := (lists h)(l \<mapsto> s\<lparr>p_tail := v\<rparr>)\<rparr>)"
  by (simp add: set_tail_def)

lemma set_next_live [simp]:
  "e \<noteq> NULL \<Longrightarrow> elems h e = Some n \<Longrightarrow>
     set_next e v h = Some (h\<lparr>elems := (elems h)(e \<mapsto> n\<lparr>el_next := v\<rparr>)\<rparr>)"
  by (simp add: set_next_def)

lemma set_prev_live [simp]:
  "e \<noteq> NULL \<Longrightarrow> elems h e = Some n \<Longrightarrow>
     set_prev e v h = Some (h\<lparr>elems := (elems h)(e \<mapsto> n\<lparr>el_prev := v\<rparr>)\<rparr>)"
  by (simp add: set_prev_def)

lemma free_elem_live [simp]:
  "e \<noteq> NULL \<Longrightarrow> elems h e = Some n \<Longrightarrow> free_elem e h = Some (h\<lparr>elems := (elems h)(e := None)\<rparr>)"
  by (simp add: free_elem_def)

lemma call_dealloc_sel [simp]:
  "elems (call_dealloc f d h) = elems h" "lists (call_dealloc f d h) = lists h"
  by (simp_all add: call_dealloc_def)

lemma payload_upd_link [simp]:
  "elems h e = Some n \<Longrightarrow>
     payload (h\<lparr>elems := (elems h)(e \<mapsto> n\<lparr>el_next := v\<rparr>)\<rparr>) = payload h"
  "elems h e = Some n \<Longrightarrow>
     payload (h\<lparr>elems := (elems h)(e \<mapsto> n\<lparr>el_prev := v\<rparr>)\<rparr>) = payload h"
  by (auto simp: payload_def fun_eq_iff)

lemma map_payload_cong:
  "(\<And>a. a \<in> set as \<Longrightarrow> payload h' a = payload h a) \<Longrightarrow> map (payload h') as = map (payload h) as"
  by simp

lemma ll_rep_node:
  assumes "ll_rep h l as ds" and "a \<in> set as"
  obtains e where "a \<noteq> NULL" and "elems h a = Some e"
  using assms dlseg_live unfolding ll_rep_def by metis

lemma ll_rep_length: "ll_rep h l as ds \<Longrightarrow> length as = length ds"
  by (auto simp: ll_rep_def)

lemma ll_rep_Nil_iff: "ll_rep h l as ds \<Longrightarrow> as = [] \<longleftrightarrow> ds = []"
  by (auto simp: ll_rep_def)

subsection \<open>Functional correctness of the operations\<close>

lemma linked_list_add_rep:
  assumes rep: "ll_rep h l as ds" and "d \<noteq> NULL" and new: "elem \<noteq> NULL" "elems h elem = None"
  shows "\<exists>h'. linked_list_add l d f elem h = Some (eLINKED_LIST_SUCCESS, h') \<and>
           ll_rep h' l (elem # as) ((d, f) # ds) \<and> dealloc_log h' = dealloc_log h"
proof -
  from rep have l: "l \<noteq> NULL" "lists h l = Some \<lparr>p_head = first_addr as NULL, p_tail = last_addr NULL as\<rparr>"
    and seg: "dlseg el_next el_prev (elems h) NULL as NULL" and dist: "distinct as"
    and pay: "map (payload h) as = ds"
    by (auto simp: ll_rep_def)
  have fresh: "elem \<notin> set as"
    using seg new dlseg_live by fastforce
  show ?thesis
  proof (cases as)
    case Nil
    with assms l pay show ?thesis
      by (auto simp: linked_list_add_def ll_rep_def payload_def)
  next
    case (Cons b bs)
    with seg obtain nb where nb: "elems h b = Some nb" and b: "b \<noteq> NULL"
      by (auto split: option.splits)
    let ?n = "\<lparr>el_next = b, el_prev = NULL, el_data = d, el_dealloc = f\<rparr>"
    let ?m = "(elems h)(elem \<mapsto> ?n, b \<mapsto> nb\<lparr>el_prev := elem\<rparr>)"
    have seg': "dlseg el_next el_prev ?m NULL (elem # as) NULL"
      using el.dlseg_push [of "elems h" b bs NULL elem nb ?n NULL] seg dist fresh new nb Cons
      by simp
    have run: "linked_list_add l d f elem h = Some (eLINKED_LIST_SUCCESS,
        h\<lparr>elems := ?m, lists := (lists h)(l \<mapsto> \<lparr>p_head = elem, p_tail = last_addr NULL as\<rparr>)\<rparr>)"
      using assms(2) new l nb b fresh Cons by (simp add: linked_list_add_def)
    have pay': "map (payload (h\<lparr>elems := ?m, lists := ls\<rparr>)) (elem # as) = (d, f) # ds" for ls
      using pay fresh nb Cons by (auto simp: payload_def)
    show ?thesis
      using run seg' pay' dist fresh l Cons by (simp add: ll_rep_def)
  qed
qed

lemma linked_list_remove_rep:
  assumes rep: "ll_rep h l (as @ [a]) (ds @ [(d, f)])"
  shows "\<exists>h'. linked_list_remove l (Some v) h = Some (eLINKED_LIST_SUCCESS, Some d, h') \<and>
           ll_rep h' l as ds \<and> elems h' a = None \<and> dealloc_log h' = dealloc_log h"
proof -
  from rep have l: "l \<noteq> NULL" "lists h l = Some \<lparr>p_head = first_addr (as @ [a]) NULL, p_tail = a\<rparr>"
    and seg: "dlseg el_next el_prev (elems h) NULL (as @ [a]) NULL" and dist: "distinct (as @ [a])"
    and pay: "map (payload h) as = ds" "payload h a = (d, f)"
    by (auto simp: ll_rep_def)
  from seg obtain e where e: "elems h a = Some e" "a \<noteq> NULL" "el_prev e = last_addr NULL as"
    by (auto split: option.splits)
  with pay have d: "el_data e = d" by (simp add: payload_def)
  show ?thesis
  proof (cases as rule: rev_cases)
    case Nil
    with l e d pay show ?thesis
      by (simp add: linked_list_remove_def ll_rep_def)
  next
    case (snoc as' x)
    with seg obtain n where n: "elems h x = Some n" and x: "x \<noteq> NULL" "x \<noteq> a"
      using dist by (auto split: option.splits)
    let ?m = "(elems h)(x \<mapsto> n\<lparr>el_next := NULL\<rparr>)"
    have "dlseg el_next el_prev ?m NULL as NULL"
      using el.dlseg_set_last [of "elems h" NULL as' x a n NULL] seg dist n snoc by simp
    then have seg': "dlseg el_next el_prev (?m(a := None)) NULL as NULL"
      using dist by simp
    have run: "linked_list_remove l (Some v) h = Some (eLINKED_LIST_SUCCESS, Some d,
        h\<lparr>elems := ?m(a := None),
          lists := (lists h)(l \<mapsto> \<lparr>p_head = first_addr as a, p_tail = x\<rparr>)\<rparr>)"
      using l e d n x snoc by (simp add: linked_list_remove_def)
    have pay': "map (payload (h\<lparr>elems := ?m(a := None), lists := ls\<rparr>)) as = ds" for ls
      using pay dist n by (auto simp: payload_def)
    have "first_addr as a = first_addr as NULL" using snoc by (cases as') auto
    then show ?thesis
      using run seg' pay' dist l snoc by (simp add: ll_rep_def)
  qed
qed

lemma linked_list_remove_empty:
  "ll_rep h l as [] \<Longrightarrow>
     linked_list_remove l (Some v) h = Some (eLINKED_LIST_UNAVAILABLE_RESOURCE, Some v, h)"
  by (simp add: ll_rep_def linked_list_remove_def)

lemma linked_list_empty_rep:
  assumes "ll_rep h l as ds"
  shows "linked_list_empty l h = Some (if ds = [] then 1 else 0)"
proof -
  have "first_addr as NULL = NULL \<longleftrightarrow> ds = []"
    using assms ll_rep_Nil_iff [OF assms] dlseg_first_NULL unfolding ll_rep_def by metis
  with assms show ?thesis
    by (simp add: ll_rep_def linked_list_empty_def)
qed

text \<open>What a flush hands to the dealloc callbacks: every payload that has one, head first.\<close>

definition deallocs :: "(ptr \<times> ptr) list \<Rightarrow> (ptr \<times> ptr) list" where
  "deallocs ds = [(f, d). (d, f) \<leftarrow> ds, f \<noteq> NULL]"

lemma deallocs_simps [simp]:
  "deallocs [] = []" "deallocs ((d, f) # ds) = (if f \<noteq> NULL then [(f, d)] else []) @ deallocs ds"
  by (simp_all add: deallocs_def)

lemma flush_loop_rep:
  assumes "l \<noteq> NULL" and "lists h l = Some \<lparr>p_head = first_addr as NULL, p_tail = t\<rparr>"
    and "dlseg el_next el_prev (elems h) p as NULL" and "distinct as"
  shows "flush_loop l h = Some (h\<lparr>elems := (\<lambda>a. if a \<in> set as then None else elems h a),
             lists := (lists h)(l \<mapsto> \<lparr>p_head = NULL, p_tail = t\<rparr>),
             dealloc_log := dealloc_log h @ deallocs (map (payload h) as)\<rparr>)"
  using assms
proof (induction as arbitrary: h p)
  case Nil
  then show ?case
    by (subst flush_loop.simps) (simp add: fun_upd_idem)
next
  case (Cons a as)
  from Cons.prems obtain e where e: "elems h a = Some e" "el_next e = first_addr as NULL" "a \<noteq> NULL"
    by (auto split: option.splits)
  let ?h = "(call_dealloc (el_dealloc e) (el_data e) h)
     \<lparr>elems := (elems h)(a := None), lists := (lists h)(l \<mapsto> \<lparr>p_head = first_addr as NULL, p_tail = t\<rparr>)\<rparr>"
  have step: "flush_loop l h = flush_loop l ?h"
    using Cons.prems e by (subst flush_loop.simps) simp
  have seg: "dlseg el_next el_prev (elems ?h) a as NULL"
    using Cons.prems by (subst dlseg_cong [where m = "elems h"]) auto
  have IH: "flush_loop l ?h = Some (?h\<lparr>elems := (\<lambda>b. if b \<in> set as then None else elems ?h b),
             lists := (lists ?h)(l \<mapsto> \<lparr>p_head = NULL, p_tail = t\<rparr>),
             dealloc_log := dealloc_log ?h @ deallocs (map (payload ?h) as)\<rparr>)"
    using Cons.prems by (intro Cons.IH [of ?h a, OF _ _ seg]) simp_all
  have pay: "map (payload ?h) as = map (payload h) as"
    using Cons.prems by (intro map_payload_cong) (auto simp: payload_def)
  have "(\<lambda>b. if b \<in> set as then None else elems ?h b) = (\<lambda>b. if b \<in> set (a # as) then None else elems h b)"
    by (auto simp: fun_eq_iff)
  moreover have "payload h a = (el_data e, el_dealloc e)"
    using e by (simp add: payload_def)
  ultimately show ?case
    unfolding step IH pay
    by (intro arg_cong [where f = Some] ll_mem.equality) (auto simp: call_dealloc_def fun_eq_iff)
qed

lemma linked_list_flush_rep:
  assumes "ll_rep h l as ds"
  shows "\<exists>h'. linked_list_flush l h = Some (eLINKED_LIST_SUCCESS, h') \<and> ll_rep h' l [] [] \<and>
           dealloc_log h' = dealloc_log h @ deallocs ds \<and>
           elems h' = (\<lambda>a. if a \<in> set as then None else elems h a) \<and>
           (\<forall>l'. l' \<noteq> l \<longrightarrow> lists h' l' = lists h l')"
proof -
  have "flush_loop l h = Some (h\<lparr>elems := (\<lambda>a. if a \<in> set as then None else elems h a),
             lists := (lists h)(l \<mapsto> \<lparr>p_head = NULL, p_tail = last_addr NULL as\<rparr>),
             dealloc_log := dealloc_log h @ deallocs (map (payload h) as)\<rparr>)"
    using assms by (intro flush_loop_rep) (auto simp: ll_rep_def)
  with assms show ?thesis
    by (simp add: linked_list_flush_def ll_rep_def)
qed

lemma payload_link_upd:
  assumes "elems h e = Some n" and "el_data n' = el_data n" and "el_dealloc n' = el_dealloc n"
  shows "payload (h\<lparr>elems := (elems h)(e \<mapsto> n')\<rparr>) = payload h"
  using assms by (auto simp: payload_def fun_eq_iff)

lemma payload_unlink:
  assumes live: "\<And>b. b \<in> set (as @ bs) \<Longrightarrow> elems h b \<noteq> None"
  shows "payload (h\<lparr>elems := el.unlink (elems h) as bs\<rparr>) = payload h"
proof -
  let ?v = "first_addr bs NULL" and ?p = "last_addr NULL as"
  let ?m = "if as = [] then elems h
            else (elems h)(last as \<mapsto> (the (elems h (last as)))\<lparr>el_next := ?v\<rparr>)"
  have 1: "payload (h\<lparr>elems := ?m\<rparr>) = payload h"
  proof (cases "as = []")
    case False
    then obtain n where "elems h (last as) = Some n" using live [of "last as"] by auto
    with False show ?thesis by (simp add: payload_link_upd)
  qed simp
  show ?thesis
  proof (cases "bs = []")
    case True
    with 1 show ?thesis by (cases "as = []") (simp_all add: el.unlink_def)
  next
    case False
    then have "?m (hd bs) \<noteq> None" using live [of "hd bs"] by auto
    then obtain n where n: "elems (h\<lparr>elems := ?m\<rparr>) (hd bs) = Some n" by auto
    have "payload (h\<lparr>elems := ?m(hd bs \<mapsto> n\<lparr>el_prev := ?p\<rparr>)\<rparr>) = payload (h\<lparr>elems := ?m\<rparr>)"
      using payload_link_upd [OF n, of "n\<lparr>el_prev := ?p\<rparr>"] by simp
    moreover have "el.unlink (elems h) as bs = ?m(hd bs \<mapsto> n\<lparr>el_prev := ?p\<rparr>)"
      using n False unfolding el.unlink_def Let_def by simp
    ultimately show ?thesis using 1 by simp
  qed
qed

lemma search_unlink_elems:
  assumes l: "l \<noteq> NULL" "lists h l = Some \<lparr>p_head = first_addr (as @ a # bs) NULL, p_tail = last_addr a bs\<rparr>"
    and seg: "dlseg el_next el_prev (elems h) NULL (as @ a # bs) NULL" and dist: "distinct (as @ a # bs)"
    and e: "elems h a = Some e"
  shows "search_unlink l a c h =
     Some ((if c then h else call_dealloc (el_dealloc e) (el_data e) h)
       \<lparr>elems := (el.unlink (elems h) as bs)(a := None),
        lists := (lists h)(l \<mapsto> \<lparr>p_head = first_addr (as @ bs) NULL, p_tail = last_addr NULL (as @ bs)\<rparr>)\<rparr>)"
proof -
  from seg e have a: "a \<noteq> NULL" "el_prev e = last_addr NULL as" "el_next e = first_addr bs NULL"
    by (auto split: option.splits)
  have L: "as \<noteq> [] \<Longrightarrow> \<exists>n. elems h (last as) = Some n \<and> last as \<noteq> NULL \<and> last as \<noteq> a"
    using dlseg_live [OF seg, of "last as"] dist by auto
  have R: "bs \<noteq> [] \<Longrightarrow> \<exists>n. elems h (hd bs) = Some n \<and> hd bs \<noteq> NULL \<and> hd bs \<noteq> a \<and> hd bs \<notin> set as"
    using dlseg_live [OF seg, of "hd bs"] dist by (cases bs) auto
  have hd_tl: "first_addr bs NULL = (if bs = [] then NULL else hd bs)" for bs
    by (cases bs) auto
  have p: "first_addr as (first_addr bs NULL) = first_addr as a" if "as \<noteq> []"
    using that by (cases as) auto
  show ?thesis
  proof (cases "as = []"; cases "bs = []")
    assume "as = []" "bs = []"
    then show ?thesis
      using l e a by (simp add: search_unlink_def el.unlink_def call_dealloc_def)
  next
    assume "as = []" and bs: "bs \<noteq> []"
    with l e a R [OF bs] show ?thesis
      by (auto simp: search_unlink_def el.unlink_def call_dealloc_def hd_tl fun_upd_twist last_addr_def)
  next
    assume as: "as \<noteq> []" and "bs = []"
    with l e a L [OF as] p [OF as] show ?thesis
      by (auto simp: search_unlink_def el.unlink_def call_dealloc_def last_addr_def fun_upd_twist)
  next
    assume as: "as \<noteq> []" and bs: "bs \<noteq> []"
    have "last as \<noteq> hd bs" using R [OF bs] last_in_set [OF as] by auto
    with as bs l e a L [OF as] R [OF bs] p [OF as] show ?thesis
      by (auto simp: search_unlink_def el.unlink_def call_dealloc_def hd_tl last_addr_def fun_upd_twist
          fun_upd_idem)
  qed
qed

lemma search_unlink_rep:
  assumes rep: "ll_rep h l (as @ a # bs) (ds1 @ (d, f) # ds2)" and len: "length as = length ds1"
  shows "\<exists>h'. search_unlink l a c h = Some h' \<and> ll_rep h' l (as @ bs) (ds1 @ ds2) \<and> elems h' a = None \<and>
           dealloc_log h' = dealloc_log h @ (if c then [] else deallocs [(d, f)])"
proof -
  from rep have l: "l \<noteq> NULL"
      "lists h l = Some \<lparr>p_head = first_addr (as @ a # bs) NULL, p_tail = last_addr a bs\<rparr>"
    and seg: "dlseg el_next el_prev (elems h) NULL (as @ a # bs) NULL" and dist: "distinct (as @ a # bs)"
    by (simp_all add: ll_rep_def)
  from rep len have pay: "map (payload h) as = ds1" "payload h a = (d, f)" "map (payload h) bs = ds2"
    by (auto simp: ll_rep_def)
  from seg obtain e where e: "elems h a = Some e" by (auto split: option.splits)
  with pay have df: "el_data e = d" "el_dealloc e = f" by (auto simp: payload_def)
  let ?h = "(if c then h else call_dealloc f d h)
       \<lparr>elems := (el.unlink (elems h) as bs)(a := None),
        lists := (lists h)(l \<mapsto> \<lparr>p_head = first_addr (as @ bs) NULL, p_tail = last_addr NULL (as @ bs)\<rparr>)\<rparr>"
  have run: "search_unlink l a c h = Some ?h"
    using search_unlink_elems [OF l seg dist e] df by simp
  have seg': "dlseg el_next el_prev (elems ?h) NULL (as @ bs) NULL"
    using el.dlseg_unlink [OF seg dist] dist by simp
  have eq: "payload ?h b = payload (h\<lparr>elems := el.unlink (elems h) as bs\<rparr>) b" if "b \<noteq> a" for b
    using that by (simp add: payload_def)
  have unl: "payload (h\<lparr>elems := el.unlink (elems h) as bs\<rparr>) = payload h"
    using dlseg_live [OF seg] by (intro payload_unlink) fastforce
  have pay': "payload ?h b = payload h b" if "b \<in> set (as @ bs)" for b
  proof -
    have "b \<noteq> a" using that dist by auto
    from eq [OF this] show ?thesis unfolding unl .
  qed
  have "map (payload ?h) (as @ bs) = ds1 @ ds2"
    unfolding pay(1,3) [symmetric] map_append [symmetric] by (rule map_payload_cong) (rule pay')
  moreover have "dealloc_log ?h = dealloc_log h @ (if c then [] else deallocs [(d, f)])"
    by (simp add: call_dealloc_def)
  ultimately show ?thesis
    using run seg' dist l by (auto simp: ll_rep_def simp del: map_append)
qed

lemma search_loop_skip:
  assumes "dlseg el_next el_prev (elems h) p (as @ bs) NULL"
    and "\<And>a. a \<in> set as \<Longrightarrow> \<not> eqf key (fst (payload h a))"
  shows "search_loop l dp eqf key rm (first_addr (as @ bs) NULL) h =
         search_loop l dp eqf key rm (first_addr bs NULL) h"
  using assms
proof (induction as arbitrary: p)
  case (Cons a as)
  then obtain e where e: "elems h a = Some e" "a \<noteq> NULL" "el_next e = first_addr (as @ bs) NULL"
    by (auto split: option.splits)
  moreover have "\<not> eqf key (el_data e)"
    using Cons.prems(2) [of a] e by (simp add: payload_def)
  ultimately have "search_loop l dp eqf key rm (first_addr ((a # as) @ bs) NULL) h =
      search_loop l dp eqf key rm (first_addr (as @ bs) NULL) h"
    by (subst search_loop.simps) simp
  also have "\<dots> = search_loop l dp eqf key rm (first_addr bs NULL) h"
    using Cons.prems by (intro Cons.IH [of a]) auto
  finally show ?case .
qed simp

lemma linked_list_search_miss:
  assumes rep: "ll_rep h l as ds" and "ds \<noteq> []" and no: "List.extract (\<lambda>(d, f). eqf key d) ds = None"
  shows "linked_list_search l dp (Some eqf) key rm h =
           Some (eLINKED_LIST_SUCCESS, map_option (\<lambda>_. NULL) dp, h)"
proof -
  have ne: "as \<noteq> []" using assms ll_rep_Nil_iff by blast
  have nomatch: "\<not> eqf key (fst (payload h a))" if "a \<in> set as" for a
  proof -
    have "payload h a \<in> set ds" using rep that by (auto simp: ll_rep_def)
    with no show ?thesis by (cases "payload h a") (auto simp: extract_None_iff)
  qed
  have "search_loop l (map_option (\<lambda>_. NULL) dp) eqf key rm (first_addr (as @ []) NULL) h =
        search_loop l (map_option (\<lambda>_. NULL) dp) eqf key rm (first_addr [] NULL) h"
    using rep nomatch by (intro search_loop_skip [where p = NULL]) (auto simp: ll_rep_def)
  then have "search_loop l (map_option (\<lambda>_. NULL) dp) eqf key rm (first_addr as NULL) h =
        Some (map_option (\<lambda>_. NULL) dp, h)"
    by (simp add: search_loop.simps [of l _ eqf key rm NULL h])
  moreover have "last_addr NULL as \<noteq> NULL"
    using rep ne dlseg_last_NULL unfolding ll_rep_def by metis
  ultimately show ?thesis
    using rep by (simp add: linked_list_search_def ll_rep_def)
qed

lemma linked_list_search_hit:
  assumes rep: "ll_rep h l as ds" and hit: "List.extract (\<lambda>(d, f). eqf key d) ds = Some (ds1, (d, f), ds2)"
  shows "linked_list_search l dp (Some eqf) key False h =
           Some (eLINKED_LIST_SUCCESS, map_option (\<lambda>_. d) dp, h)"
    and "\<exists>h' as'. linked_list_search l dp (Some eqf) key True h =
             Some (eLINKED_LIST_SUCCESS, map_option (\<lambda>_. d) dp, h') \<and>
           ll_rep h' l as' (ds1 @ ds2) \<and>
           dealloc_log h' = dealloc_log h @ (if dp = None then deallocs [(d, f)] else [])"
proof -
  from hit have ds: "ds = ds1 @ (d, f) # ds2" and match: "eqf key d"
    and no: "\<And>x g. (x, g) \<in> set ds1 \<Longrightarrow> \<not> eqf key x"
    by (auto simp: extract_Some_iff)
  define as1 a as2 where "as1 = take (length ds1) as" and "a = as ! length ds1"
    and "as2 = drop (Suc (length ds1)) as"
  have len: "length as = length ds" using rep by (rule ll_rep_length)
  then have as: "as = as1 @ a # as2" and len1: "length as1 = length ds1"
    using ds by (simp_all add: as1_def a_def as2_def id_take_nth_drop [symmetric])
  from rep as have rep': "ll_rep h l (as1 @ a # as2) (ds1 @ (d, f) # ds2)" using ds by simp
  then have seg: "dlseg el_next el_prev (elems h) NULL (as1 @ a # as2) NULL"
    and pay: "map (payload h) as1 = ds1" "payload h a = (d, f)"
    using len1 by (auto simp: ll_rep_def)
  obtain e where e: "elems h a = Some e" "a \<noteq> NULL"
    using rep' by (rule ll_rep_node [of _ _ _ _ a]) simp
  have d: "el_data e = d" using pay e by (simp add: payload_def)
  have nomatch: "\<not> eqf key (fst (payload h b))" if "b \<in> set as1" for b
    using that no [of "fst (payload h b)" "snd (payload h b)"] pay(1) by force
  have at: "search_loop l q eqf key rm (first_addr as NULL) h = search_loop l q eqf key rm a h" for q rm
    using search_loop_skip [of h NULL as1 "a # as2" eqf key l q rm] seg nomatch as by simp
  have "last_addr NULL as \<noteq> NULL"
    using seg as dlseg_last_NULL by (metis Nil_is_append_conv list.distinct(1))
  then have start: "linked_list_search l dp (Some eqf) key rm h =
      map_option (\<lambda>(q, h'). (eLINKED_LIST_SUCCESS, q, h'))
        (search_loop l (map_option (\<lambda>_. NULL) dp) eqf key rm a h)" for rm
    using rep at [of "map_option (\<lambda>_. NULL) dp" rm]
    by (auto simp: linked_list_search_def ll_rep_def map_option_case Option.bind_eq_Some_conv
        split: option.splits)
  have body: "search_loop l (map_option (\<lambda>_. NULL) dp) eqf key rm a h =
      map_option (\<lambda>h'. (map_option (\<lambda>_. d) dp, h'))
        (if rm then search_unlink l a (dp \<noteq> None) h else Some h)" for rm
    using e d match
    by (subst search_loop.simps, cases dp) (auto simp: map_conv_bind_option comp_def)
  show "linked_list_search l dp (Some eqf) key False h =
      Some (eLINKED_LIST_SUCCESS, map_option (\<lambda>_. d) dp, h)"
    unfolding start body by simp
  obtain h' where "search_unlink l a (dp \<noteq> None) h = Some h'" "ll_rep h' l (as1 @ as2) (ds1 @ ds2)"
    "dealloc_log h' = dealloc_log h @ (if dp \<noteq> None then [] else deallocs [(d, f)])"
    using search_unlink_rep [OF rep' len1, of "dp \<noteq> None"] by blast
  then show "\<exists>h' as'. linked_list_search l dp (Some eqf) key True h =
             Some (eLINKED_LIST_SUCCESS, map_option (\<lambda>_. d) dp, h') \<and>
           ll_rep h' l as' (ds1 @ ds2) \<and>
           dealloc_log h' = dealloc_log h @ (if dp = None then deallocs [(d, f)] else [])"
    unfolding start body by (auto simp del: deallocs_simps)
qed

lemma linked_list_destroy_rep:
  assumes "ll_rep h l as ds"
  shows "\<exists>h'. linked_list_destroy (Some l) h = Some (eLINKED_LIST_SUCCESS, Some NULL, h') \<and>
           lists h' l = None \<and> (\<forall>a\<in>set as. elems h' a = None) \<and>
           dealloc_log h' = dealloc_log h @ deallocs ds"
proof -
  obtain h1 where h1: "linked_list_flush l h = Some (eLINKED_LIST_SUCCESS, h1)" "ll_rep h1 l [] []"
    "dealloc_log h1 = dealloc_log h @ deallocs ds"
    "elems h1 = (\<lambda>a. if a \<in> set as then None else elems h a)"
    using linked_list_flush_rep [OF assms] by blast
  then show ?thesis
    by (auto simp: linked_list_destroy_def ll_rep_def)
qed

subsection \<open>The interface the message queue relies on\<close>

text \<open>
  A FIFO store: the content is a list with the newest item first; \<open>add\<close> puts an item at the
  head, \<open>remove\<close> takes the oldest. \<open>avail m e\<close> says that \<open>e\<close> is an address the allocator may
  return.
\<close>

locale fifo_store =
  fixes content :: "'m \<Rightarrow> ptr \<Rightarrow> (ptr \<times> ptr) list \<Rightarrow> bool"
    and avail :: "'m \<Rightarrow> ptr \<Rightarrow> bool"
    and add :: "ptr \<Rightarrow> ptr \<Rightarrow> ptr \<Rightarrow> ptr \<Rightarrow> 'm \<Rightarrow> (linked_list_err_type \<times> 'm) option"
    and remove :: "ptr \<Rightarrow> ptr option \<Rightarrow> 'm \<Rightarrow> (linked_list_err_type \<times> ptr option \<times> 'm) option"
    and is_empty :: "ptr \<Rightarrow> 'm \<Rightarrow> int option"
    and flush :: "ptr \<Rightarrow> 'm \<Rightarrow> (linked_list_err_type \<times> 'm) option"
  assumes add_ok: "content m l ds \<Longrightarrow> d \<noteq> NULL \<Longrightarrow> avail m e \<Longrightarrow>
      \<exists>m'. add l d f e m = Some (eLINKED_LIST_SUCCESS, m') \<and> content m' l ((d, f) # ds)"
    and add_oom: "content m l ds \<Longrightarrow> d \<noteq> NULL \<Longrightarrow>
      add l d f NULL m = Some (eLINKED_LIST_FAILURE_GENERAL, m)"
    and remove_ok: "content m l (ds @ [(d, f)]) \<Longrightarrow>
      \<exists>m'. remove l (Some v) m = Some (eLINKED_LIST_SUCCESS, Some d, m') \<and> content m' l ds"
    and remove_none: "content m l [] \<Longrightarrow>
      remove l (Some v) m = Some (eLINKED_LIST_UNAVAILABLE_RESOURCE, Some v, m)"
    and is_empty_ok: "content m l ds \<Longrightarrow> is_empty l m = Some (if ds = [] then 1 else 0)"
    and flush_ok: "content m l ds \<Longrightarrow>
      \<exists>m'. flush l m = Some (eLINKED_LIST_SUCCESS, m') \<and> content m' l []"
begin

text \<open>Removing as often as there are items returns them oldest first and empties the store.\<close>

fun drain :: "nat \<Rightarrow> ptr \<Rightarrow> 'm \<Rightarrow> (ptr list \<times> 'm) option" where
  "drain 0 l m = Some ([], m)"
| "drain (Suc n) l m = do {
     (rv, out, m1) \<leftarrow> remove l (Some NULL) m;
     if rv = eLINKED_LIST_SUCCESS then do {
       (ds, m2) \<leftarrow> drain n l m1;
       Some (the out # ds, m2) }
     else None }"

lemma drain_all:
  "content m l ds \<Longrightarrow> \<exists>m'. drain (length ds) l m = Some (rev (map fst ds), m') \<and> content m' l []"
proof (induction ds arbitrary: m rule: rev_induct)
  case Nil
  then show ?case by auto
next
  case (snoc x ds)
  obtain d f where x: "x = (d, f)" by force
  with snoc.prems obtain m1 where m1: "remove l (Some NULL) m = Some (eLINKED_LIST_SUCCESS, Some d, m1)"
    "content m1 l ds"
    using remove_ok by blast
  from snoc.IH [OF m1(2)] obtain m2 where "drain (length ds) l m1 = Some (rev (map fst ds), m2)"
    "content m2 l []" by blast
  with m1 x show ?case by simp
qed

end

definition ll_content :: "ll_mem \<Rightarrow> ptr \<Rightarrow> (ptr \<times> ptr) list \<Rightarrow> bool" where
  "ll_content h l ds \<longleftrightarrow> (\<exists>as. ll_rep h l as ds)"

lemma ll_content_unique: "ll_content h l ds \<Longrightarrow> ll_content h l ds' \<Longrightarrow> ds = ds'"
  unfolding ll_content_def ll_rep_def using dlseg_unique by fastforce

definition ll_avail :: "ll_mem \<Rightarrow> ptr \<Rightarrow> bool" where
  "ll_avail h e \<longleftrightarrow> e \<noteq> NULL \<and> elems h e = None"

interpretation lq: fifo_store ll_content ll_avail linked_list_add linked_list_remove
  linked_list_empty linked_list_flush
proof
  fix h l ds d f e
  assume "ll_content h l ds" "d \<noteq> NULL" "ll_avail h e"
  then show "\<exists>h'. linked_list_add l d f e h = Some (eLINKED_LIST_SUCCESS, h') \<and> ll_content h' l ((d, f) # ds)"
    unfolding ll_content_def ll_avail_def using linked_list_add_rep by blast
next
  fix h l ds d f
  assume "ll_content h l ds" "d \<noteq> NULL"
  then show "linked_list_add l d f NULL h = Some (eLINKED_LIST_FAILURE_GENERAL, h)"
    by (auto simp: ll_content_def ll_rep_def linked_list_add_def)
next
  fix h l ds d f v
  assume "ll_content h l (ds @ [(d, f)])"
  then obtain as where rep: "ll_rep h l as (ds @ [(d, f)])" by (auto simp: ll_content_def)
  then have "as \<noteq> []" using ll_rep_Nil_iff by blast
  with rep have "ll_rep h l (butlast as @ [last as]) (ds @ [(d, f)])" by simp
  from linked_list_remove_rep [OF this]
  show "\<exists>h'. linked_list_remove l (Some v) h = Some (eLINKED_LIST_SUCCESS, Some d, h') \<and> ll_content h' l ds"
    unfolding ll_content_def by blast
next
  fix h l v
  assume "ll_content h l []"
  then show "linked_list_remove l (Some v) h = Some (eLINKED_LIST_UNAVAILABLE_RESOURCE, Some v, h)"
    unfolding ll_content_def using linked_list_remove_empty by blast
next
  fix h l ds
  assume "ll_content h l ds"
  then show "linked_list_empty l h = Some (if ds = [] then 1 else 0)"
    unfolding ll_content_def using linked_list_empty_rep by blast
next
  fix h l ds
  assume "ll_content h l ds"
  then show "\<exists>h'. linked_list_flush l h = Some (eLINKED_LIST_SUCCESS, h') \<and> ll_content h' l []"
    unfolding ll_content_def using linked_list_flush_rep by blast
qed

subsection \<open>Runs of operations refine a list specification\<close>

text \<open>
  Operations of a client on one list, with the address the allocator gives an \<open>add\<close>; the
  specification is the obvious one on a list of payloads, newest first.
\<close>

datatype ll_op = OpAdd ptr ptr ptr | OpRemove | OpEmpty | OpFlush

datatype ll_out = OutErr linked_list_err_type "ptr option" | OutInt int

fun ll_step :: "ptr \<Rightarrow> ll_op \<Rightarrow> ll_mem \<Rightarrow> (ll_out \<times> ll_mem) option" where
  "ll_step l (OpAdd d f e) h = do { (rv, h') \<leftarrow> linked_list_add l d f e h; Some (OutErr rv None, h') }"
| "ll_step l OpRemove h = do { (rv, d, h') \<leftarrow> linked_list_remove l (Some NULL) h; Some (OutErr rv d, h') }"
| "ll_step l OpEmpty h = do { i \<leftarrow> linked_list_empty l h; Some (OutInt i, h) }"
| "ll_step l OpFlush h = do { (rv, h') \<leftarrow> linked_list_flush l h; Some (OutErr rv None, h') }"

fun ll_run :: "ptr \<Rightarrow> ll_op list \<Rightarrow> ll_mem \<Rightarrow> (ll_out list \<times> ll_mem) option" where
  "ll_run l [] h = Some ([], h)"
| "ll_run l (x # xs) h = do {
     (y, h1) \<leftarrow> ll_step l x h;
     (ys, h2) \<leftarrow> ll_run l xs h1;
     Some (y # ys, h2) }"

fun spec_step :: "ll_op \<Rightarrow> (ptr \<times> ptr) list \<Rightarrow> ll_out \<times> (ptr \<times> ptr) list" where
  "spec_step (OpAdd d f e) ds = (OutErr eLINKED_LIST_SUCCESS None, (d, f) # ds)"
| "spec_step OpRemove ds =
     (if ds = [] then (OutErr eLINKED_LIST_UNAVAILABLE_RESOURCE (Some NULL), [])
      else (OutErr eLINKED_LIST_SUCCESS (Some (fst (last ds))), butlast ds))"
| "spec_step OpEmpty ds = (OutInt (if ds = [] then 1 else 0), ds)"
| "spec_step OpFlush ds = (OutErr eLINKED_LIST_SUCCESS None, [])"

fun spec_run :: "ll_op list \<Rightarrow> (ptr \<times> ptr) list \<Rightarrow> ll_out list \<times> (ptr \<times> ptr) list" where
  "spec_run [] ds = ([], ds)"
| "spec_run (x # xs) ds =
     (let (y, ds1) = spec_step x ds; (ys, ds2) = spec_run xs ds1 in (y # ys, ds2))"

text \<open>Every \<open>add\<close> of the run passes data and got an address that is not in use then.\<close>

fun ll_legal :: "ptr \<Rightarrow> ll_op list \<Rightarrow> ll_mem \<Rightarrow> bool" where
  "ll_legal l [] h = True"
| "ll_legal l (x # xs) h =
     ((case x of OpAdd d f e \<Rightarrow> d \<noteq> NULL \<and> ll_avail h e | _ \<Rightarrow> True) \<and>
      (case ll_step l x h of None \<Rightarrow> True | Some (_, h1) \<Rightarrow> ll_legal l xs h1))"

lemma ll_step_refines:
  assumes c: "ll_content h l ds"
    and legal: "case x of OpAdd d f e \<Rightarrow> d \<noteq> NULL \<and> ll_avail h e | _ \<Rightarrow> True"
  shows "\<exists>h'. ll_step l x h = Some (fst (spec_step x ds), h') \<and> ll_content h' l (snd (spec_step x ds))"
proof (cases x)
  case (OpAdd d f e)
  then show ?thesis using lq.add_ok [OF c, of d e f] legal by auto
next
  case OpRemove
  show ?thesis
  proof (cases ds rule: rev_cases)
    case Nil
    then show ?thesis using lq.remove_none [of h l NULL] c OpRemove by simp
  next
    case (snoc ds' y)
    then show ?thesis using lq.remove_ok [of h l ds' "fst y" "snd y" NULL] c OpRemove by auto
  qed
next
  case OpEmpty
  then show ?thesis using lq.is_empty_ok [OF c] c by simp
next
  case OpFlush
  then show ?thesis using lq.flush_ok [OF c] by auto
qed

subsection \<open>Properties\<close>

text \<open>
  C6. Any run of add, remove, empty and flush calls on a well-formed list returns (no memory
  fault, no endless loop) and answers exactly like a first-in first-out queue specified on
  plain lists; the list it leaves is again well formed and holds the specified content.
\<close>

theorem linked_list_run_refines:
  assumes "ll_content h l ds" and "ll_legal l xs h"
  shows "\<exists>h'. ll_run l xs h = Some (fst (spec_run xs ds), h') \<and> ll_content h' l (snd (spec_run xs ds))"
  using assms
proof (induction xs arbitrary: h ds)
  case Nil
  then show ?case by simp
next
  case (Cons x xs)
  obtain h1 where h1: "ll_step l x h = Some (fst (spec_step x ds), h1)"
    "ll_content h1 l (snd (spec_step x ds))"
    using ll_step_refines [OF Cons.prems(1), of x] Cons.prems(2) by auto
  moreover from h1 Cons.prems(2) have "ll_legal l xs h1" by simp
  ultimately obtain h2 where "ll_run l xs h1 = Some (fst (spec_run xs (snd (spec_step x ds))), h2)"
    "ll_content h2 l (snd (spec_run xs (snd (spec_step x ds))))"
    using Cons.IH by blast
  with h1 show ?case
    by (auto simp: Let_def split: prod.splits)
qed

definition ll_empty_mem :: ll_mem where
  "ll_empty_mem = \<lparr>elems = Map.empty, lists = [7 \<mapsto> \<lparr>p_head = NULL, p_tail = NULL\<rparr>], dealloc_log = []\<rparr>"

lemma ll_empty_mem_rep: "ll_rep ll_empty_mem 7 [] []"
  by (simp add: ll_empty_mem_def ll_rep_def)

theorem linked_list_run_refines_witness:
  "ll_content ll_empty_mem 7 [] \<and> ll_legal 7 [OpAdd 100 0 10, OpAdd 101 0 11, OpRemove, OpEmpty] ll_empty_mem \<and>
   (\<exists>h'. ll_run 7 [OpAdd 100 0 10, OpAdd 101 0 11, OpRemove, OpEmpty] ll_empty_mem =
      Some ([OutErr eLINKED_LIST_SUCCESS None, OutErr eLINKED_LIST_SUCCESS None,
             OutErr eLINKED_LIST_SUCCESS (Some 100), OutInt 0], h') \<and> ll_content h' 7 [(101, 0)])"
proof -
  have c: "ll_content ll_empty_mem 7 []"
    using ll_empty_mem_rep by (auto simp: ll_content_def)
  have legal: "ll_legal 7 [OpAdd 100 0 10, OpAdd 101 0 11, OpRemove, OpEmpty] ll_empty_mem"
    by (simp add: ll_empty_mem_def ll_avail_def linked_list_add_def linked_list_remove_def linked_list_empty_def)
  show ?thesis
    using c legal linked_list_run_refines [OF c legal] by simp
qed

text \<open>
  C13. Destroying a list runs the dealloc callback of every element that has one exactly once,
  head first, with that element's data, frees every element and the list itself, and clears
  the caller's handle.
\<close>

theorem linked_list_destroy_releases:
  assumes "ll_rep h l as ds"
  shows "\<exists>h'. linked_list_destroy (Some l) h = Some (eLINKED_LIST_SUCCESS, Some NULL, h') \<and>
           lists h' l = None \<and> (\<forall>a. a \<in> set as \<longrightarrow> elems h' a = None) \<and>
           dealloc_log h' = dealloc_log h @ [(f, d). (d, f) \<leftarrow> ds, f \<noteq> NULL]"
  using linked_list_destroy_rep [OF assms] by (auto simp: deallocs_def)

definition ll_one_mem :: ll_mem where
  "ll_one_mem = \<lparr>elems = [3 \<mapsto> \<lparr>el_next = NULL, el_prev = NULL, el_data = 50, el_dealloc = 9\<rparr>],
                 lists = [7 \<mapsto> \<lparr>p_head = 3, p_tail = 3\<rparr>], dealloc_log = []\<rparr>"

lemma ll_one_mem_rep: "ll_rep ll_one_mem 7 [3] [(50, 9)]"
  by (simp add: ll_one_mem_def ll_rep_def payload_def)

theorem linked_list_destroy_releases_witness:
  "ll_rep ll_one_mem 7 [3] [(50, 9)] \<and>
   (\<exists>h'. linked_list_destroy (Some 7) ll_one_mem = Some (eLINKED_LIST_SUCCESS, Some NULL, h') \<and>
      lists h' 7 = None \<and> elems h' 3 = None \<and> dealloc_log h' = [(9, 50)])"
  using linked_list_destroy_releases [OF ll_one_mem_rep] ll_one_mem_rep
  by (auto simp: ll_one_mem_def)

text \<open>
  A search with removal looks from the newest element on: at the first element the
  predicate accepts it stops, unlinks and frees exactly that element (keeping the order of the
  others), reports its data through the output parameter, and runs the element's dealloc
  callback only when the data was not handed out. With no match the list is left as it is and
  the output parameter is null; the return code is success in both cases.
\<close>

theorem linked_list_search_removes_first:
  assumes "ll_content h l ds" and "ds \<noteq> []"
  shows "\<exists>h'. linked_list_search l dp (Some eqf) key True h =
      Some (eLINKED_LIST_SUCCESS,
            map_option (\<lambda>_. case List.extract (\<lambda>(d, f). eqf key d) ds of None \<Rightarrow> NULL | Some (_, (d, _), _) \<Rightarrow> d) dp,
            h') \<and>
      ll_content h' l (case List.extract (\<lambda>(d, f). eqf key d) ds of None \<Rightarrow> ds | Some (ds1, _, ds2) \<Rightarrow> ds1 @ ds2) \<and>
      dealloc_log h' = dealloc_log h @
        (case List.extract (\<lambda>(d, f). eqf key d) ds of None \<Rightarrow> []
         | Some (_, x, _) \<Rightarrow> if dp = None then deallocs [x] else [])"
proof -
  obtain as where rep: "ll_rep h l as ds" using assms by (auto simp: ll_content_def)
  show ?thesis
  proof (cases "List.extract (\<lambda>(d, f). eqf key d) ds")
    case None
    then show ?thesis
      using linked_list_search_miss [where eqf = eqf and key = key, OF rep assms(2) None, of dp True] rep
      by (auto simp: ll_content_def)
  next
    case (Some r)
    then obtain ds1 d f ds2 where r: "r = (ds1, (d, f), ds2)" by (metis prod.collapse)
    show ?thesis
      using linked_list_search_hit(2) [where eqf = eqf and key = key, OF rep Some [unfolded r], of dp] Some r
      by (auto simp: ll_content_def)
  qed
qed

theorem linked_list_search_removes_first_witness:
  "ll_content ll_one_mem 7 [(50, 9)] \<and>
   (\<exists>h'. linked_list_search 7 None (Some (=)) 50 True ll_one_mem = Some (eLINKED_LIST_SUCCESS, None, h') \<and>
      ll_content h' 7 [] \<and> dealloc_log h' = [(9, 50)])"
proof -
  have c: "ll_content ll_one_mem 7 [(50, 9)]"
    using ll_one_mem_rep by (auto simp: ll_content_def)
  show ?thesis
    using linked_list_search_removes_first [OF c, of None "(=)" 50] c
    by (auto simp: ll_one_mem_def extract_Cons_code extract_Nil_code)
qed

end
