(* ===== verification/Msg_Queue.thy ===== *)
theory Msg_Queue
  imports Linked_List
begin

text \<open>
  The blocking message queue of the GPS utilities (\<^verbatim>\<open>gps/utils/msg_q.c\<close>) on top of the linked
  list. Every operation is one critical section under the queue's mutex; \<^verbatim>\<open>msg_q_rcv\<close> is cut
  where \<^verbatim>\<open>pthread_cond_wait\<close> gives the mutex up, so it is an entry section and a section that
  runs each time the thread wakes. Threads sharing one queue are a step relation over these
  sections, with spurious wake-ups allowed and the choice of the woken thread left open.
\<close>

subsection \<open>Data\<close>

datatype msq_q_err_type =
    eMSG_Q_SUCCESS
  | eMSG_Q_FAILURE_GENERAL
  | eMSG_Q_INVALID_PARAMETER
  | eMSG_Q_INVALID_HANDLE
  | eMSG_Q_UNAVAILABLE_RESOURCE
  | eMSG_Q_INSUFFICIENT_BUFFER

record msg_q =
  msg_list :: ptr
  list_cond :: bool
  list_mutex :: bool
  unblocked :: int

record mq_mem =
  ll :: ll_mem
  queues :: "ptr \<rightharpoonup> msg_q"

text \<open>What a section does to the condition variable before it releases the mutex.\<close>

datatype signal = NoSignal | Signal | Broadcast

fun convert_linked_list_err_type :: "linked_list_err_type \<Rightarrow> msq_q_err_type" where
  "convert_linked_list_err_type eLINKED_LIST_SUCCESS = eMSG_Q_SUCCESS"
| "convert_linked_list_err_type eLINKED_LIST_INVALID_PARAMETER = eMSG_Q_INVALID_PARAMETER"
| "convert_linked_list_err_type eLINKED_LIST_INVALID_HANDLE = eMSG_Q_INVALID_HANDLE"
| "convert_linked_list_err_type eLINKED_LIST_UNAVAILABLE_RESOURCE = eMSG_Q_UNAVAILABLE_RESOURCE"
| "convert_linked_list_err_type eLINKED_LIST_INSUFFICIENT_BUFFER = eMSG_Q_INSUFFICIENT_BUFFER"
| "convert_linked_list_err_type eLINKED_LIST_FAILURE_GENERAL = eMSG_Q_FAILURE_GENERAL"

subsection \<open>Operations\<close>

text \<open>
  The environment of \<^verbatim>\<open>msg_q_init\<close>: the two addresses \<^verbatim>\<open>calloc\<close> returns and the results of
  \<^verbatim>\<open>pthread_mutex_init\<close> and \<^verbatim>\<open>pthread_cond_init\<close>.
\<close>

definition msg_q_init ::
  "ptr option \<Rightarrow> ptr \<Rightarrow> ptr \<Rightarrow> int \<Rightarrow> int \<Rightarrow> mq_mem \<Rightarrow> (msq_q_err_type \<times> ptr option \<times> mq_mem) option" where
  "msg_q_init msg_q_data tmp_msg_q tmp_list mutex_rc cond_rc m =
     (case msg_q_data of
        None \<Rightarrow> Some (eMSG_Q_INVALID_PARAMETER, None, m)
      | Some v \<Rightarrow>
          if tmp_msg_q = NULL then Some (eMSG_Q_FAILURE_GENERAL, Some v, m)
          else
            (let (rv, ml, h1) = linked_list_init (Some NULL) tmp_list (ll m) in
             if rv \<noteq> eLINKED_LIST_SUCCESS then Some (eMSG_Q_FAILURE_GENERAL, Some v, m\<lparr>ll := h1\<rparr>)
             else if mutex_rc \<noteq> 0 then do {
               (_, _, h2) \<leftarrow> linked_list_destroy ml h1;
               Some (eMSG_Q_FAILURE_GENERAL, Some v, m\<lparr>ll := h2\<rparr>) }
             else if cond_rc \<noteq> 0 then do {
               (_, _, h2) \<leftarrow> linked_list_destroy ml h1;
               Some (eMSG_Q_FAILURE_GENERAL, Some v, m\<lparr>ll := h2\<rparr>) }
             else Some (eMSG_Q_SUCCESS, Some tmp_msg_q,
                    m\<lparr>ll := h1, queues := (queues m)(tmp_msg_q \<mapsto>
                        \<lparr>msg_list = the ml, list_cond = True, list_mutex = True, unblocked = 0\<rparr>)\<rparr>)))"

definition msg_q_init2 :: "ptr \<Rightarrow> ptr \<Rightarrow> int \<Rightarrow> int \<Rightarrow> mq_mem \<Rightarrow> (ptr \<times> mq_mem) option" where
  "msg_q_init2 tmp_msg_q tmp_list mutex_rc cond_rc m = do {
     (rv, q, m') \<leftarrow> msg_q_init (Some NULL) tmp_msg_q tmp_list mutex_rc cond_rc m;
     Some (if rv \<noteq> eMSG_Q_SUCCESS then NULL else the q, m') }"

definition msg_q_destroy :: "ptr option \<Rightarrow> mq_mem \<Rightarrow> (msq_q_err_type \<times> ptr option \<times> mq_mem) option" where
  "msg_q_destroy msg_q_data m =
     (case msg_q_data of
        None \<Rightarrow> Some (eMSG_Q_INVALID_HANDLE, None, m)
      | Some v \<Rightarrow> do {
          q \<leftarrow> rd (queues m) v;
          (_, ml, h1) \<leftarrow> linked_list_destroy (Some (msg_list q)) (ll m);
          qs \<leftarrow> upd (queues m) v (\<lambda>q. q\<lparr>msg_list := the ml, list_mutex := False, list_cond := False, unblocked := 0\<rparr>);
          qs' \<leftarrow> free_at qs v;
          Some (eMSG_Q_SUCCESS, Some NULL, m\<lparr>ll := h1, queues := qs'\<rparr>) })"

definition msg_q_snd ::
  "ptr \<Rightarrow> ptr \<Rightarrow> ptr \<Rightarrow> ptr \<Rightarrow> mq_mem \<Rightarrow> (msq_q_err_type \<times> signal \<times> mq_mem) option" where
  "msg_q_snd msg_q_data msg_obj dealloc elem m =
     (if msg_q_data = NULL then Some (eMSG_Q_INVALID_HANDLE, NoSignal, m)
      else if msg_obj = NULL then Some (eMSG_Q_INVALID_PARAMETER, NoSignal, m)
      else do {
        q \<leftarrow> rd (queues m) msg_q_data;
        if unblocked q \<noteq> 0 then Some (eMSG_Q_UNAVAILABLE_RESOURCE, NoSignal, m)
        else do {
          (rv, h1) \<leftarrow> linked_list_add (msg_list q) msg_obj dealloc elem (ll m);
          Some (convert_linked_list_err_type rv, Signal, m\<lparr>ll := h1\<rparr>) } })"

text \<open>
  A receiving thread either finishes its call or waits: \<open>rcv_poll\<close> is the test of the
  \<^verbatim>\<open>while\<close> loop and, when it fails, the rest of the call.
\<close>

datatype rcv_result = RcvDone msq_q_err_type "ptr option" mq_mem | RcvWait

definition rcv_poll :: "ptr \<Rightarrow> ptr option \<Rightarrow> mq_mem \<Rightarrow> rcv_result option" where
  "rcv_poll msg_q_data msg_obj m = do {
     q \<leftarrow> rd (queues m) msg_q_data;
     e \<leftarrow> linked_list_empty (msg_list q) (ll m);
     if e \<noteq> 0 \<and> unblocked q = 0 then Some RcvWait
     else do {
       (rv, d, h1) \<leftarrow> linked_list_remove (msg_list q) msg_obj (ll m);
       Some (RcvDone (convert_linked_list_err_type rv) d (m\<lparr>ll := h1\<rparr>)) } }"

definition msg_q_rcv :: "ptr \<Rightarrow> ptr option \<Rightarrow> mq_mem \<Rightarrow> rcv_result option" where
  "msg_q_rcv msg_q_data msg_obj m =
     (if msg_q_data = NULL then Some (RcvDone eMSG_Q_INVALID_HANDLE msg_obj m)
      else if msg_obj = None then Some (RcvDone eMSG_Q_INVALID_PARAMETER None m)
      else do {
        q \<leftarrow> rd (queues m) msg_q_data;
        if unblocked q \<noteq> 0 then Some (RcvDone eMSG_Q_UNAVAILABLE_RESOURCE msg_obj m)
        else rcv_poll msg_q_data msg_obj m })"

definition msg_q_flush :: "ptr \<Rightarrow> mq_mem \<Rightarrow> (msq_q_err_type \<times> mq_mem) option" where
  "msg_q_flush msg_q_data m =
     (if msg_q_data = NULL then Some (eMSG_Q_INVALID_HANDLE, m)
      else do {
        q \<leftarrow> rd (queues m) msg_q_data;
        (rv, h1) \<leftarrow> linked_list_flush (msg_list q) (ll m);
        Some (convert_linked_list_err_type rv, m\<lparr>ll := h1\<rparr>) })"

definition msg_q_unblock :: "ptr \<Rightarrow> mq_mem \<Rightarrow> (msq_q_err_type \<times> signal \<times> mq_mem) option" where
  "msg_q_unblock msg_q_data m =
     (if msg_q_data = NULL then Some (eMSG_Q_INVALID_HANDLE, NoSignal, m)
      else do {
        q \<leftarrow> rd (queues m) msg_q_data;
        if unblocked q \<noteq> 0 then Some (eMSG_Q_UNAVAILABLE_RESOURCE, NoSignal, m)
        else do {
          qs \<leftarrow> upd (queues m) msg_q_data (\<lambda>q. q\<lparr>unblocked := 1\<rparr>);
          Some (eMSG_Q_SUCCESS, Broadcast, m\<lparr>queues := qs\<rparr>) } })"

subsection \<open>Threads sharing a queue\<close>

datatype out_event = Delivered ptr | Dropped ptr

fun msg_of :: "out_event \<Rightarrow> ptr" where
  "msg_of (Delivered d) = d"
| "msg_of (Dropped d) = d"

text \<open>
  \<open>waiters\<close> are blocked in \<^verbatim>\<open>pthread_cond_wait\<close> with no wake-up pending, \<open>woken\<close> have been
  signalled and will re-acquire the mutex. \<open>sent\<close> and \<open>outlog\<close> record the accepted messages and
  what became of the ones that left the queue.
\<close>

record mq_sys =
  mem :: mq_mem
  waiters :: "nat set"
  woken :: "nat set"
  sent :: "ptr list"
  outlog :: "out_event list"

text \<open>
  \<^verbatim>\<open>pthread_cond_signal\<close> unblocks at least one of the waiting threads, if there are any;
  \<^verbatim>\<open>pthread_cond_broadcast\<close> unblocks all of them.
\<close>

fun wakes :: "signal \<Rightarrow> nat set \<Rightarrow> nat set \<Rightarrow> bool" where
  "wakes NoSignal ws W \<longleftrightarrow> W = {}"
| "wakes Signal ws W \<longleftrightarrow> W \<subseteq> ws \<and> (ws \<noteq> {} \<longrightarrow> W \<noteq> {})"
| "wakes Broadcast ws W \<longleftrightarrow> W = ws"

inductive mq_step :: "ptr \<Rightarrow> mq_sys \<Rightarrow> mq_sys \<Rightarrow> bool" for q where
  snd: "msg_q_snd q d f e (mem s) = Some (rv, sg, m') \<Longrightarrow> e = NULL \<or> ll_avail (ll (mem s)) e \<Longrightarrow>
     wakes sg (waiters s) W \<Longrightarrow>
     mq_step q s (s\<lparr>mem := m', waiters := waiters s - W, woken := woken s \<union> W,
                    sent := sent s @ (if rv = eMSG_Q_SUCCESS then [d] else [])\<rparr>)"
| rcv: "msg_q_rcv q (Some v) (mem s) = Some (RcvDone rv d m') \<Longrightarrow>
     mq_step q s (s\<lparr>mem := m',
                    outlog := outlog s @ (if rv = eMSG_Q_SUCCESS then [Delivered (the d)] else [])\<rparr>)"
| rcv_block: "msg_q_rcv q (Some v) (mem s) = Some RcvWait \<Longrightarrow> t \<notin> waiters s \<union> woken s \<Longrightarrow>
     mq_step q s (s\<lparr>waiters := insert t (waiters s)\<rparr>)"
| wake_done: "rcv_poll q (Some v) (mem s) = Some (RcvDone rv d m') \<Longrightarrow> t \<in> waiters s \<union> woken s \<Longrightarrow>
     mq_step q s (s\<lparr>mem := m', waiters := waiters s - {t}, woken := woken s - {t},
                    outlog := outlog s @ (if rv = eMSG_Q_SUCCESS then [Delivered (the d)] else [])\<rparr>)"
| wake_again: "rcv_poll q (Some v) (mem s) = Some RcvWait \<Longrightarrow> t \<in> waiters s \<union> woken s \<Longrightarrow>
     mq_step q s (s\<lparr>waiters := insert t (waiters s), woken := woken s - {t}\<rparr>)"
| flush: "msg_q_flush q (mem s) = Some (rv, m') \<Longrightarrow> queues (mem s) q = Some qq \<Longrightarrow>
     ll_content (ll (mem s)) (msg_list qq) ds \<Longrightarrow>
     mq_step q s (s\<lparr>mem := m', outlog := outlog s @ map (\<lambda>(d, f). Dropped d) (rev ds)\<rparr>)"
| unblock: "msg_q_unblock q (mem s) = Some (rv, sg, m') \<Longrightarrow> wakes sg (waiters s) W \<Longrightarrow>
     mq_step q s (s\<lparr>mem := m', waiters := waiters s - W, woken := woken s \<union> W\<rparr>)"

text \<open>A queue as \<^verbatim>\<open>msg_q_init\<close> leaves it, before any thread uses it.\<close>

definition mq_init :: "ptr \<Rightarrow> mq_sys \<Rightarrow> bool" where
  "mq_init q s \<longleftrightarrow>
     (\<exists>v tq tl m0. msg_q_init (Some v) tq tl 0 0 m0 = Some (eMSG_Q_SUCCESS, Some q, mem s)) \<and>
     waiters s = {} \<and> woken s = {} \<and> sent s = [] \<and> outlog s = []"

inductive mq_reach :: "ptr \<Rightarrow> mq_sys \<Rightarrow> bool" for q where
  start: "mq_init q s \<Longrightarrow> mq_reach q s"
| step: "mq_reach q s \<Longrightarrow> mq_step q s s' \<Longrightarrow> mq_reach q s'"

inductive_cases mq_stepE: "mq_step q s s'"

subsection \<open>One section at a time\<close>

text \<open>What a queue holds: its messages, newest first, and its \<open>unblocked\<close> flag.\<close>

definition mq_view :: "mq_mem \<Rightarrow> ptr \<Rightarrow> (ptr \<times> ptr) list \<Rightarrow> int \<Rightarrow> bool" where
  "mq_view m q ds u \<longleftrightarrow> q \<noteq> NULL \<and>
     (\<exists>qq. queues m q = Some qq \<and> ll_content (ll m) (msg_list qq) ds \<and> unblocked qq = u)"

lemma mq_viewE:
  assumes "mq_view m q ds u"
  obtains qq where "q \<noteq> NULL" "queues m q = Some qq" "ll_content (ll m) (msg_list qq) ds" "unblocked qq = u"
  using assms by (auto simp: mq_view_def)

lemma convert_success [simp]:
  "convert_linked_list_err_type rv = eMSG_Q_SUCCESS \<longleftrightarrow> rv = eLINKED_LIST_SUCCESS"
  by (cases rv) auto

lemma msg_q_snd_view:
  assumes v: "mq_view m q ds u" and e: "e = NULL \<or> ll_avail (ll m) e"
  shows "\<exists>rv sg m'. msg_q_snd q d f e m = Some (rv, sg, m') \<and> sg \<noteq> Broadcast \<and>
     (if d \<noteq> NULL \<and> u = 0 \<and> e \<noteq> NULL
      then rv = eMSG_Q_SUCCESS \<and> sg = Signal \<and> mq_view m' q ((d, f) # ds) u
      else rv \<noteq> eMSG_Q_SUCCESS \<and> m' = m)"
  using v
proof (rule mq_viewE)
  fix qq assume q: "q \<noteq> NULL" "queues m q = Some qq" "ll_content (ll m) (msg_list qq) ds" "unblocked qq = u"
  show ?thesis
  proof (cases "d \<noteq> NULL \<and> u = 0 \<and> e \<noteq> NULL")
    case True
    then obtain h where "linked_list_add (msg_list qq) d f e (ll m) = Some (eLINKED_LIST_SUCCESS, h)"
      "ll_content h (msg_list qq) ((d, f) # ds)"
      using lq.add_ok [OF q(3), of d e f] e by blast
    with True q show ?thesis by (auto simp: msg_q_snd_def mq_view_def)
  next
    case False
    with q lq.add_oom [OF q(3), of d f] show ?thesis by (auto simp: msg_q_snd_def)
  qed
qed

lemma rcv_poll_view:
  assumes v: "mq_view m q ds u"
  shows "ds = [] \<Longrightarrow> u = 0 \<Longrightarrow> rcv_poll q (Some x) m = Some RcvWait"
    and "ds = [] \<Longrightarrow> u \<noteq> 0 \<Longrightarrow>
      rcv_poll q (Some x) m = Some (RcvDone eMSG_Q_UNAVAILABLE_RESOURCE (Some x) m)"
    and "ds = ds' @ [(d, f)] \<Longrightarrow>
      \<exists>m'. rcv_poll q (Some x) m = Some (RcvDone eMSG_Q_SUCCESS (Some d) m') \<and> mq_view m' q ds' u"
proof -
  from v obtain qq where q: "q \<noteq> NULL" "queues m q = Some qq" "ll_content (ll m) (msg_list qq) ds"
    "unblocked qq = u"
    by (rule mq_viewE)
  note e = lq.is_empty_ok [OF q(3)]
  show "ds = [] \<Longrightarrow> u = 0 \<Longrightarrow> rcv_poll q (Some x) m = Some RcvWait"
    using q e by (simp add: rcv_poll_def)
  show "ds = [] \<Longrightarrow> u \<noteq> 0 \<Longrightarrow>
      rcv_poll q (Some x) m = Some (RcvDone eMSG_Q_UNAVAILABLE_RESOURCE (Some x) m)"
    using q e lq.remove_none [of "ll m" "msg_list qq" x] by (simp add: rcv_poll_def)
  show "\<exists>m'. rcv_poll q (Some x) m = Some (RcvDone eMSG_Q_SUCCESS (Some d) m') \<and> mq_view m' q ds' u"
    if "ds = ds' @ [(d, f)]"
    using q e lq.remove_ok [of "ll m" "msg_list qq" ds' d f x] that
    by (auto simp: rcv_poll_def mq_view_def)
qed

text \<open>The ways a section of \<^verbatim>\<open>msg_q_rcv\<close> can end.\<close>

lemma rcv_poll_cases:
  assumes v: "mq_view m q ds u" and r: "rcv_poll q (Some x) m = Some r"
  obtains (wait) "r = RcvWait" "ds = []" "u = 0"
    | (refused) "r = RcvDone eMSG_Q_UNAVAILABLE_RESOURCE (Some x) m" "ds = []" "u \<noteq> 0"
    | (got) ds' d f m' where "ds = ds' @ [(d, f)]" "r = RcvDone eMSG_Q_SUCCESS (Some d) m'" "mq_view m' q ds' u"
proof (cases ds rule: rev_cases)
  case Nil
  with rcv_poll_view(1,2) [OF v, of x] r wait refused show thesis by (cases "u = 0") simp_all
next
  case (snoc ds' y)
  then have ds: "ds = ds' @ [(fst y, snd y)]" by simp
  from rcv_poll_view(3) [OF v ds, of x] r obtain m' where
    "r = RcvDone eMSG_Q_SUCCESS (Some (fst y)) m'" "mq_view m' q ds' u" by auto
  with ds show thesis by (rule got)
qed

lemma msg_q_rcv_cases:
  assumes v: "mq_view m q ds u" and r: "msg_q_rcv q (Some x) m = Some r"
  obtains (wait) "r = RcvWait" "ds = []" "u = 0"
    | (refused) "r = RcvDone eMSG_Q_UNAVAILABLE_RESOURCE (Some x) m" "u \<noteq> 0"
    | (got) ds' d f m' where "ds = ds' @ [(d, f)]" "u = 0" "r = RcvDone eMSG_Q_SUCCESS (Some d) m'"
        "mq_view m' q ds' u"
proof (cases "u = 0")
  case True
  with v r have "rcv_poll q (Some x) m = Some r"
    by (auto simp: msg_q_rcv_def mq_view_def)
  from v this show thesis
    by (rule rcv_poll_cases) (use True wait got in auto)
next
  case False
  with v r refused show thesis by (auto simp: msg_q_rcv_def mq_view_def)
qed

lemma msg_q_flush_view:
  assumes "mq_view m q ds u"
  shows "\<exists>m'. msg_q_flush q m = Some (eMSG_Q_SUCCESS, m') \<and> mq_view m' q [] u"
  using assms
proof (rule mq_viewE)
  fix qq assume q: "q \<noteq> NULL" "queues m q = Some qq" "ll_content (ll m) (msg_list qq) ds" "unblocked qq = u"
  with lq.flush_ok [OF q(3)] show ?thesis by (auto simp: msg_q_flush_def mq_view_def)
qed

lemma msg_q_unblock_view:
  assumes "mq_view m q ds u"
  shows "\<exists>rv sg m'. msg_q_unblock q m = Some (rv, sg, m') \<and>
     (if u = 0 then rv = eMSG_Q_SUCCESS \<and> sg = Broadcast \<and> mq_view m' q ds 1
      else rv = eMSG_Q_UNAVAILABLE_RESOURCE \<and> sg = NoSignal \<and> m' = m)"
  using assms
proof (rule mq_viewE)
  fix qq assume "q \<noteq> NULL" "queues m q = Some qq" "ll_content (ll m) (msg_list qq) ds" "unblocked qq = u"
  then show ?thesis by (cases "u = 0") (auto simp: msg_q_unblock_def mq_view_def)
qed

lemma msg_q_init_view:
  assumes "msg_q_init (Some v) tq tlist 0 0 m0 = Some (eMSG_Q_SUCCESS, Some q, m)"
  shows "mq_view m q [] 0"
  using assms
  by (auto simp: msg_q_init_def linked_list_init_def mq_view_def ll_content_def ll_rep_def split: if_splits)

lemma mq_view_unique: "mq_view m q ds u \<Longrightarrow> mq_view m q ds' u' \<Longrightarrow> ds = ds' \<and> u = u'"
  by (auto simp: mq_view_def dest: ll_content_unique)

subsection \<open>The invariant of the threads\<close>

text \<open>
  Nothing sent is lost, duplicated or overtaken; and while a thread sleeps, the queue is not
  unblocked and holds no more messages than there are threads already woken for them.
\<close>

definition mq_inv :: "ptr \<Rightarrow> mq_sys \<Rightarrow> bool" where
  "mq_inv q s \<longleftrightarrow> (\<exists>ds u. mq_view (mem s) q ds u \<and>
     sent s = map msg_of (outlog s) @ rev (map fst ds) \<and>
     (waiters s \<noteq> {} \<longrightarrow> u = 0 \<and> length ds \<le> card (woken s))) \<and>
   finite (waiters s) \<and> finite (woken s) \<and> waiters s \<inter> woken s = {}"

lemma mq_invI:
  "mq_view (mem s) q ds u \<Longrightarrow> sent s = map msg_of (outlog s) @ rev (map fst ds) \<Longrightarrow>
   waiters s \<noteq> {} \<longrightarrow> u = 0 \<and> length ds \<le> card (woken s) \<Longrightarrow>
   finite (waiters s) \<Longrightarrow> finite (woken s) \<Longrightarrow> waiters s \<inter> woken s = {} \<Longrightarrow> mq_inv q s"
  unfolding mq_inv_def by blast

lemma mq_init_inv: "mq_init q s \<Longrightarrow> mq_inv q s"
  unfolding mq_init_def mq_inv_def using msg_q_init_view by force

lemma wakes_subset: "wakes sg ws W \<Longrightarrow> W \<subseteq> ws"
  by (cases sg) auto

lemma card_woken_grows:
  assumes "finite ws" "finite wk" "ws \<inter> wk = {}" "wakes Signal ws W" "ws - W \<noteq> {}"
  shows "Suc (card wk) \<le> card (wk \<union> W)"
proof -
  have "W \<subseteq> ws" "W \<noteq> {}" using assms by auto
  moreover from this have "finite W" "wk \<inter> W = {}" using assms finite_subset by auto
  ultimately show ?thesis
    using assms(2) by (simp add: card_Un_disjoint Suc_leI card_gt_0_iff)
qed

lemma card_wake_done:
  assumes "length (ds @ [x]) \<le> card wk" "finite wk"
  shows "length ds \<le> card (wk - {t})"
  using assms by (cases "t \<in> wk") auto

lemma mq_step_inv:
  assumes st: "mq_step q s s'" and inv: "mq_inv q s"
  shows "mq_inv q s'"
proof -
  from inv obtain ds u where v: "mq_view (mem s) q ds u"
    and log: "sent s = map msg_of (outlog s) @ rev (map fst ds)"
    and sig: "waiters s \<noteq> {} \<longrightarrow> u = 0 \<and> length ds \<le> card (woken s)"
    and fin: "finite (waiters s)" "finite (woken s)" "waiters s \<inter> woken s = {}"
    by (auto simp: mq_inv_def)
  from st show ?thesis
  proof (cases rule: mq_step.cases)
    case (snd d f e rv sg m' W)
    have W: "W \<subseteq> waiters s" "finite W" using wakes_subset [OF snd(4)] fin finite_subset by auto
    have fin': "finite (woken s \<union> W)" "(waiters s - W) \<inter> (woken s \<union> W) = {}" using W fin by auto
    show ?thesis
    proof (cases "rv = eMSG_Q_SUCCESS")
      case True
      with msg_q_snd_view [OF v snd(3), of d f] snd(2)
      have u: "u = 0" and sg: "sg = Signal" and v': "mq_view m' q ((d, f) # ds) u"
        by (auto split: if_splits)
      have "length ((d, f) # ds) \<le> card (woken s \<union> W)" if "waiters s - W \<noteq> {}"
        using card_woken_grows [OF fin snd(4) [unfolded sg] that] sig that by auto
      with True snd(1) u v' log fin fin' show ?thesis
        by (intro mq_invI [of s' q "(d, f) # ds" u]) auto
    next
      case False
      with msg_q_snd_view [OF v snd(3), of d f] snd(2) have "m' = mem s" by (auto split: if_splits)
      moreover have "card (woken s) \<le> card (woken s \<union> W)" using fin'(1) by (intro card_mono) auto
      ultimately show ?thesis
        using False snd(1) v log sig fin fin' unfolding mq_inv_def by force
    qed
  next
    case (rcv x rv d m')
    from v rcv(2) show ?thesis
      by (rule msg_q_rcv_cases) (use rcv(1) v log sig fin in \<open>force simp: mq_inv_def\<close>)+
  next
    case (rcv_block x t)
    from v rcv_block(2) show ?thesis
      by (rule msg_q_rcv_cases) (use rcv_block(1,3) v log sig fin in \<open>force simp: mq_inv_def\<close>)+
  next
    case (wake_done x rv d m' t)
    from v wake_done(2) show ?thesis
    proof (rule rcv_poll_cases)
      fix ds' d' f m'' assume *: "ds = ds' @ [(d', f)]"
        "RcvDone rv d m' = RcvDone eMSG_Q_SUCCESS (Some d') m''" "mq_view m'' q ds' u"
      have "waiters s - {t} \<noteq> {} \<longrightarrow> u = 0 \<and> length ds' \<le> card (woken s - {t})"
        using sig * card_wake_done [of ds' "(d', f)" "woken s" t] fin(2) by auto
      with wake_done(1) log fin * show ?thesis unfolding mq_inv_def by auto
    qed (use wake_done(1) v log sig fin in \<open>force simp: mq_inv_def\<close>)+
  next
    case (wake_again x t)
    from v wake_again(2) show ?thesis
      by (rule rcv_poll_cases) (use wake_again(1) v log sig fin in \<open>force simp: mq_inv_def\<close>)+
  next
    case (flush rv m' qq ds2)
    have "mq_view (mem s) q ds2 (unblocked qq)" using v flush(3,4) by (auto simp: mq_view_def)
    with v have "ds2 = ds" using mq_view_unique by blast
    moreover have "mq_view m' q [] u" using msg_q_flush_view [OF v] flush(2) by auto
    ultimately show ?thesis
      using flush(1) log sig fin
      by (intro mq_invI [of s' q "[]" u]) (auto simp: rev_map comp_def case_prod_beta)
  next
    case (unblock rv sg m' W)
    with msg_q_unblock_view [OF v] sig have "sg = Broadcast \<and> mq_view m' q ds 1 \<or> sg = NoSignal \<and> m' = mem s"
      by (auto split: if_splits)
    then show ?thesis
    proof
      assume "sg = Broadcast \<and> mq_view m' q ds 1"
      with unblock log fin show ?thesis unfolding mq_inv_def by auto
    next
      assume "sg = NoSignal \<and> m' = mem s"
      with unblock(1,3) v log sig fin show ?thesis unfolding mq_inv_def by auto
    qed
  qed
qed

lemma mq_reach_inv: "mq_reach q s \<Longrightarrow> mq_inv q s"
  by (induction rule: mq_reach.induct) (auto intro: mq_init_inv mq_step_inv)

subsection \<open>Properties\<close>

text \<open>
  C7. In every state that threads sending, receiving, flushing and unblocking can reach, in any
  interleaving, the accepted messages are, in the order they were sent, exactly the messages
  that left the queue (delivered or dropped by a flush) followed by the ones still in it:
  none is lost, duplicated or overtaken.
\<close>

theorem msg_q_fifo:
  assumes "mq_reach q s"
  shows "\<exists>ds u. mq_view (mem s) q ds u \<and> sent s = map msg_of (outlog s) @ rev (map fst ds)"
  using mq_reach_inv [OF assms] by (auto simp: mq_inv_def)

text \<open>A queue with one message sent and no thread waiting is reachable.\<close>

lemma mq_reach_start: "\<exists>s. mq_reach 5 s \<and> mq_view (mem s) 5 [] 0 \<and> waiters s = {} \<and> woken s = {} \<and> sent s = [] \<and> outlog s = []"
proof -
  let ?m0 = "\<lparr>ll = \<lparr>elems = Map.empty, lists = Map.empty, dealloc_log = []\<rparr>, queues = Map.empty\<rparr>"
  obtain m where m: "msg_q_init (Some NULL) 5 7 0 0 ?m0 = Some (eMSG_Q_SUCCESS, Some 5, m)"
    by (auto simp: msg_q_init_def linked_list_init_def)
  let ?s = "\<lparr>mem = m, waiters = {}, woken = {}, sent = [], outlog = []\<rparr>"
  have "mq_init 5 ?s" using m unfolding mq_init_def by auto
  then show ?thesis using msg_q_init_view [OF m] by (intro exI [of _ ?s]) (auto intro: mq_reach.start)
qed

lemma mq_reach_waiting:
  "\<exists>s. mq_reach 5 s \<and> mq_view (mem s) 5 [] 0 \<and> waiters s = {1} \<and> woken s = {} \<and> sent s = []"
proof -
  obtain s where s: "mq_reach 5 s" "mq_view (mem s) 5 [] 0" "waiters s = {}" "woken s = {}" "sent s = []"
    using mq_reach_start by blast
  have "msg_q_rcv 5 (Some NULL) (mem s) = Some RcvWait"
    using s(2) rcv_poll_view(1) [OF s(2), of NULL] by (auto simp: msg_q_rcv_def mq_view_def)
  from mq_reach.step [OF s(1) mq_step.rcv_block [OF this, of 1]] s show ?thesis by force
qed

theorem msg_q_fifo_witness:
  "\<exists>s. mq_reach 5 s \<and> waiters s = {1} \<and>
     (\<exists>ds u. mq_view (mem s) 5 ds u \<and> sent s = map msg_of (outlog s) @ rev (map fst ds))"
  using mq_reach_waiting msg_q_fifo by blast

text \<open>
  C8. No wake-up is lost: in every reachable state in which some thread sleeps in \<^verbatim>\<open>msg_q_rcv\<close>,
  the queue has not been unblocked and at least as many threads have been woken and not yet
  resumed as there are messages queued. So a message never sits in the queue while the only
  receivers sleep.
\<close>

theorem msg_q_no_lost_wakeup:
  assumes "mq_reach q s" and "waiters s \<noteq> {}" and "mq_view (mem s) q ds u"
  shows "u = 0 \<and> length ds \<le> card (woken s) \<and> (ds \<noteq> [] \<longrightarrow> woken s \<noteq> {})"
proof -
  from mq_reach_inv [OF assms(1)] assms(2) obtain ds' u' where
    v: "mq_view (mem s) q ds' u'" "u' = 0" "length ds' \<le> card (woken s)"
    unfolding mq_inv_def by blast
  with mq_view_unique [OF v(1) assms(3)] show ?thesis by auto
qed

theorem msg_q_no_lost_wakeup_witness:
  "\<exists>s. mq_reach 5 s \<and> waiters s = {1} \<and> mq_view (mem s) 5 [] 0 \<and> length [] \<le> card (woken s)"
proof -
  obtain s where s: "mq_reach 5 s" "mq_view (mem s) 5 [] 0" "waiters s = {1}"
    using mq_reach_waiting by blast
  with msg_q_no_lost_wakeup [OF s(1) _ s(2)] show ?thesis by auto
qed

text \<open>
  C14. A thread that resumes never gets stuck or faults: in every reachable state the section it
  runs returns; it delivers the oldest message if there is one, gives up with
  \<^verbatim>\<open>eMSG_Q_UNAVAILABLE_RESOURCE\<close> if the queue is empty and unblocked, and otherwise waits again.
  Once the queue is unblocked no thread waits, new sends and receives are refused, and no
  resuming thread goes back to sleep.
\<close>

theorem msg_q_resume_progress:
  assumes "mq_reach q s"
  shows "\<exists>ds u. mq_view (mem s) q ds u \<and>
      (\<exists>r. rcv_poll q (Some x) (mem s) = Some r \<and>
        (case r of RcvWait \<Rightarrow> ds = [] \<and> u = 0
         | RcvDone rv d m' \<Rightarrow>
             if ds = [] then u \<noteq> 0 \<and> rv = eMSG_Q_UNAVAILABLE_RESOURCE \<and> m' = mem s
             else rv = eMSG_Q_SUCCESS \<and> d = Some (fst (last ds)) \<and> mq_view m' q (butlast ds) u)) \<and>
      (u \<noteq> 0 \<longrightarrow> waiters s = {} \<and>
        msg_q_rcv q (Some x) (mem s) = Some (RcvDone eMSG_Q_UNAVAILABLE_RESOURCE (Some x) (mem s)) \<and>
        (d \<noteq> NULL \<longrightarrow> msg_q_snd q d f e (mem s) = Some (eMSG_Q_UNAVAILABLE_RESOURCE, NoSignal, mem s)))"
proof -
  from mq_reach_inv [OF assms] obtain ds u where v: "mq_view (mem s) q ds u"
    and w: "waiters s \<noteq> {} \<longrightarrow> u = 0" unfolding mq_inv_def by blast
  have poll: "\<exists>r. rcv_poll q (Some x) (mem s) = Some r \<and>
        (case r of RcvWait \<Rightarrow> ds = [] \<and> u = 0
         | RcvDone rv d m' \<Rightarrow>
             if ds = [] then u \<noteq> 0 \<and> rv = eMSG_Q_UNAVAILABLE_RESOURCE \<and> m' = mem s
             else rv = eMSG_Q_SUCCESS \<and> d = Some (fst (last ds)) \<and> mq_view m' q (butlast ds) u)"
  proof (cases ds rule: rev_cases)
    case Nil
    with rcv_poll_view(1,2) [OF v, of x] show ?thesis by (cases "u = 0") auto
  next
    case (snoc ds' y)
    with rcv_poll_view(3) [OF v, of ds' "fst y" "snd y" x] show ?thesis by auto
  qed
  have "u \<noteq> 0 \<longrightarrow> msg_q_rcv q (Some x) (mem s) = Some (RcvDone eMSG_Q_UNAVAILABLE_RESOURCE (Some x) (mem s))"
    "u \<noteq> 0 \<longrightarrow> d \<noteq> NULL \<longrightarrow> msg_q_snd q d f e (mem s) = Some (eMSG_Q_UNAVAILABLE_RESOURCE, NoSignal, mem s)"
    using v by (auto simp: msg_q_rcv_def msg_q_snd_def mq_view_def)
  with v w poll show ?thesis by blast
qed

theorem msg_q_resume_progress_witness:
  "\<exists>s. mq_reach 5 s \<and> waiters s = {1} \<and> (\<exists>r. rcv_poll 5 (Some 0) (mem s) = Some r)"
proof -
  obtain s where s: "mq_reach 5 s" "waiters s = {1}" using mq_reach_waiting by blast
  with msg_q_resume_progress [OF s(1), of 0] show ?thesis by blast
qed

text \<open>
  Creating and destroying: when any step of \<^verbatim>\<open>msg_q_init\<close> fails (either allocation, the
  mutex or the condition variable) it returns a failure, leaves the caller's handle alone and
  frees everything it allocated; when all succeed the new queue is empty and usable.
  \<^verbatim>\<open>msg_q_destroy\<close> of a queue frees its list and the queue and clears the handle.
\<close>

theorem msg_q_init_all_or_nothing:
  assumes "lists (ll m) tlist = None"
  shows "\<exists>rv h m'. msg_q_init (Some v) tq tlist mutex_rc cond_rc m = Some (rv, Some h, m') \<and>
     (if tq \<noteq> NULL \<and> tlist \<noteq> NULL \<and> mutex_rc = 0 \<and> cond_rc = 0
      then rv = eMSG_Q_SUCCESS \<and> h = tq \<and> mq_view m' tq [] 0 \<and>
           (\<exists>m''. msg_q_destroy (Some tq) m' = Some (eMSG_Q_SUCCESS, Some NULL, m'') \<and>
              queues m'' tq = None \<and> lists (ll m'') = lists (ll m))
      else rv = eMSG_Q_FAILURE_GENERAL \<and> h = v \<and> m' = m)"
proof (cases "tq \<noteq> NULL \<and> tlist \<noteq> NULL")
  case True
  define h1 where "h1 = (ll m)\<lparr>lists := (lists (ll m))(tlist \<mapsto> \<lparr>p_head = NULL, p_tail = NULL\<rparr>)\<rparr>"
  have init: "linked_list_init (Some NULL) tlist (ll m) = (eLINKED_LIST_SUCCESS, Some tlist, h1)"
    using True by (simp add: linked_list_init_def h1_def)
  have destroy: "linked_list_destroy (Some tlist) h1 = Some (eLINKED_LIST_SUCCESS, Some NULL, ll m)"
    using True assms
    by (simp add: linked_list_destroy_def linked_list_flush_def flush_loop.simps h1_def fun_upd_idem)
  show ?thesis
  proof (cases "mutex_rc = 0 \<and> cond_rc = 0")
    case ok: True
    let ?m' = "m\<lparr>ll := h1, queues := (queues m)(tq \<mapsto>
        \<lparr>msg_list = tlist, list_cond = True, list_mutex = True, unblocked = 0\<rparr>)\<rparr>"
    have run: "msg_q_init (Some v) tq tlist mutex_rc cond_rc m = Some (eMSG_Q_SUCCESS, Some tq, ?m')"
      using True ok init by (simp add: msg_q_init_def)
    have "msg_q_init (Some v) tq tlist 0 0 m = Some (eMSG_Q_SUCCESS, Some tq, ?m')"
      using run ok by simp
    then have view: "mq_view ?m' tq [] 0" by (rule msg_q_init_view)
    show ?thesis using run view True ok destroy by (auto simp: msg_q_destroy_def)
  next
    case False
    then show ?thesis using True init destroy by (auto simp: msg_q_init_def)
  qed
next
  case False
  then show ?thesis by (auto simp: msg_q_init_def linked_list_init_def)
qed

theorem msg_q_init_all_or_nothing_witness:
  "msg_q_init (Some 0) 5 7 0 1 \<lparr>ll = ll_one_mem\<lparr>lists := Map.empty\<rparr>, queues = Map.empty\<rparr> =
     Some (eMSG_Q_FAILURE_GENERAL, Some 0, \<lparr>ll = ll_one_mem\<lparr>lists := Map.empty\<rparr>, queues = Map.empty\<rparr>)"
  using msg_q_init_all_or_nothing [of "\<lparr>ll = ll_one_mem\<lparr>lists := Map.empty\<rparr>, queues = Map.empty\<rparr>" 7 0 5 0 1]
  by auto

end
