(* ===== verification/Power_Hal.thy ===== *)
theory Power_Hal
  imports Prelude
begin

text \<open>
  The power HAL (\<^verbatim>\<open>power/power.c\<close>): the entry points Android calls and the frequency cap they
  share. The kernel's files are a parameter: what a path reads (\<open>None\<close> when \<^verbatim>\<open>open\<close> or \<^verbatim>\<open>read\<close>
  fails), whether it can be opened for writing, and what a write does to the device. Every
  entry point runs under the module's mutex, so a history of calls is a list of whole calls;
  writes by others (the thermal driver) may come between them.
\<close>

subsection \<open>The kernel's files\<close>

record 'd kernel =
  k_read :: "string \<Rightarrow> 'd \<Rightarrow> string option"
  k_can_write :: "string \<Rightarrow> 'd \<Rightarrow> bool"
  k_write :: "string \<Rightarrow> string \<Rightarrow> 'd \<Rightarrow> 'd"

definition INTERACTIVE_PATH :: string where
  "INTERACTIVE_PATH = ''/sys/devices/system/cpu/cpufreq/interactive/''"

definition BOOST_PATH :: string where
  "BOOST_PATH = INTERACTIVE_PATH @ ''boost''"

definition BOOSTPULSE_PATH :: string where
  "BOOSTPULSE_PATH = INTERACTIVE_PATH @ ''boostpulse''"

definition DOUBLE_TAP_TO_WAKE_PATH :: string where
  "DOUBLE_TAP_TO_WAKE_PATH = ''/proc/touchpanel/double_tap_enable''"

definition SCALING_MAX_FREQ_PATH :: string where
  "SCALING_MAX_FREQ_PATH = ''/sys/devices/system/cpu/cpu0/cpufreq/'' @ ''scaling_max_freq''"

definition LOW_POWER_MAX_FREQ :: string where
  "LOW_POWER_MAX_FREQ = ''800000''"

definition SUSTAINED_MAX_FREQ :: string where
  "SUSTAINED_MAX_FREQ = ''1209600''"

subsection \<open>State\<close>

text \<open>The two buffers are 32 bytes; they are kept as the C strings they hold.\<close>

record 'd power_state =
  low_power_active :: int
  sustained_active :: int
  saved_max_freq :: string
  applied_cap :: string
  dev :: 'd

definition buf_size :: nat where
  "buf_size = 32"

subsection \<open>Reading and writing\<close>

definition sysfs_write :: "'d kernel \<Rightarrow> string \<Rightarrow> string \<Rightarrow> 'd \<Rightarrow> 'd" where
  "sysfs_write k path val d = (if k_can_write k path d then k_write k path (c_str val) d else d)"

text \<open>The loop that cuts newlines and carriage returns off the end of what was read.\<close>

function strip_eol :: "string \<Rightarrow> string" where
  "strip_eol buf =
     (if buf \<noteq> [] \<and> (last buf = CHR 0x0A \<or> last buf = CHR 0x0D) then strip_eol (butlast buf) else buf)"
  by pat_completeness auto

termination
  by (relation "measure length") auto

declare strip_eol.simps [simp del]

text \<open>
  The buffer after the call when it returns 1, \<open>None\<close> when it returns 0 (the buffer is then
  untouched): at most \<open>sz - 1\<close> bytes are read, and an empty read is a failure.
\<close>

definition sysfs_read :: "'d kernel \<Rightarrow> string \<Rightarrow> nat \<Rightarrow> 'd \<Rightarrow> string option" where
  "sysfs_read k path sz d =
     (case k_read k path d of
        None \<Rightarrow> None
      | Some bytes \<Rightarrow>
          (let got = take (sz - 1) bytes in
           if got = [] then None else Some (c_str (strip_eol got))))"

subsection \<open>The frequency cap\<close>

definition freq_cap :: "'d power_state \<Rightarrow> string option" where
  "freq_cap s =
     (if low_power_active s \<noteq> 0 \<and> sustained_active s \<noteq> 0
      then Some (if atoi LOW_POWER_MAX_FREQ < atoi SUSTAINED_MAX_FREQ then LOW_POWER_MAX_FREQ else SUSTAINED_MAX_FREQ)
      else if low_power_active s \<noteq> 0 then Some LOW_POWER_MAX_FREQ
      else if sustained_active s \<noteq> 0 then Some SUSTAINED_MAX_FREQ
      else None)"

definition install_cap :: "'d kernel \<Rightarrow> string \<Rightarrow> 'd power_state \<Rightarrow> 'd power_state" where
  "install_cap k cap s =
     s\<lparr>dev := sysfs_write k SCALING_MAX_FREQ_PATH cap (dev s), applied_cap := take (buf_size - 1) cap\<rparr>"

definition apply_freq_cap_locked :: "'d kernel \<Rightarrow> 'd power_state \<Rightarrow> 'd power_state" where
  "apply_freq_cap_locked k s =
     (case freq_cap s of
        Some cap \<Rightarrow>
          if applied_cap s = [] then
            (case sysfs_read k SCALING_MAX_FREQ_PATH buf_size (dev s) of
               None \<Rightarrow> s
             | Some v \<Rightarrow> install_cap k cap (s\<lparr>saved_max_freq := v\<rparr>))
          else install_cap k cap s
      | None \<Rightarrow>
          if applied_cap s = [] then s
          else
            (case sysfs_read k SCALING_MAX_FREQ_PATH buf_size (dev s) of
               Some now \<Rightarrow>
                 if now \<noteq> applied_cap s then s\<lparr>applied_cap := []\<rparr>
                 else s\<lparr>dev := sysfs_write k SCALING_MAX_FREQ_PATH (saved_max_freq s) (dev s), applied_cap := []\<rparr>
             | None \<Rightarrow>
                 s\<lparr>dev := sysfs_write k SCALING_MAX_FREQ_PATH (saved_max_freq s) (dev s), applied_cap := []\<rparr>))"

subsection \<open>Entry points\<close>

datatype power_hint_t =
    POWER_HINT_LAUNCH
  | POWER_HINT_INTERACTION
  | POWER_HINT_LOW_POWER
  | POWER_HINT_SUSTAINED_PERFORMANCE
  | POWER_HINT_OTHER int

datatype feature_t = POWER_FEATURE_DOUBLE_TAP_TO_WAKE | POWER_FEATURE_OTHER int

definition power_set_interactive :: "'d kernel \<Rightarrow> int \<Rightarrow> 'd power_state \<Rightarrow> 'd power_state" where
  "power_set_interactive k on s =
     (if on = 0 then s\<lparr>dev := sysfs_write k BOOST_PATH ''0'' (dev s)\<rparr> else s)"

fun power_set_feature :: "'d kernel \<Rightarrow> feature_t \<Rightarrow> int \<Rightarrow> 'd power_state \<Rightarrow> 'd power_state" where
  "power_set_feature k POWER_FEATURE_DOUBLE_TAP_TO_WAKE state s =
     s\<lparr>dev := sysfs_write k DOUBLE_TAP_TO_WAKE_PATH (if state \<noteq> 0 then ''1'' else ''0'') (dev s)\<rparr>"
| "power_set_feature k (POWER_FEATURE_OTHER n) state s = s"

text \<open>\<open>data\<close> is a pointer; only whether it is null matters.\<close>

fun power_hint :: "'d kernel \<Rightarrow> power_hint_t \<Rightarrow> ptr \<Rightarrow> 'd power_state \<Rightarrow> 'd power_state" where
  "power_hint k POWER_HINT_LAUNCH data s =
     s\<lparr>dev := sysfs_write k BOOST_PATH (if data \<noteq> NULL then ''1'' else ''0'') (dev s)\<rparr>"
| "power_hint k POWER_HINT_INTERACTION data s = s\<lparr>dev := sysfs_write k BOOSTPULSE_PATH ''1'' (dev s)\<rparr>"
| "power_hint k POWER_HINT_LOW_POWER data s =
     apply_freq_cap_locked k (s\<lparr>low_power_active := (if data \<noteq> NULL then 1 else 0)\<rparr>)"
| "power_hint k POWER_HINT_SUSTAINED_PERFORMANCE data s =
     apply_freq_cap_locked k (s\<lparr>sustained_active := (if data \<noteq> NULL then 1 else 0)\<rparr>)"
| "power_hint k (POWER_HINT_OTHER n) data s = s"

text \<open>
  \<^verbatim>\<open>power_open\<close>: the module's function table, by the names of the functions. \<open>module_id\<close> is the
  header constant \<^verbatim>\<open>POWER_HARDWARE_MODULE_ID\<close>, \<open>calloc_ok\<close> whether the allocation succeeded.
\<close>

datatype power_fn = Power_init | Power_set_interactive | Power_hint | Power_set_feature

record power_module =
  pm_init :: power_fn
  pm_setInteractive :: power_fn
  pm_powerHint :: power_fn
  pm_setFeature :: power_fn

definition EINVAL :: int where "EINVAL = 22"

definition ENOMEM :: int where "ENOMEM = 12"

definition power_open :: "string \<Rightarrow> bool \<Rightarrow> string \<Rightarrow> int \<times> power_module option" where
  "power_open module_id calloc_ok name =
     (if c_str name \<noteq> c_str module_id then (- EINVAL, None)
      else if \<not> calloc_ok then (- ENOMEM, None)
      else (0, Some \<lparr>pm_init = Power_init, pm_setInteractive = Power_set_interactive,
                     pm_powerHint = Power_hint, pm_setFeature = Power_set_feature\<rparr>))"

definition HAL_MODULE_INFO_SYM :: power_module where
  "HAL_MODULE_INFO_SYM = \<lparr>pm_init = Power_init, pm_setInteractive = Power_set_interactive,
     pm_powerHint = Power_hint, pm_setFeature = Power_set_feature\<rparr>"

subsection \<open>Histories of calls\<close>

datatype power_call =
    Hint power_hint_t ptr
  | Interactive int
  | Feature feature_t int

fun power_do :: "'d kernel \<Rightarrow> power_call \<Rightarrow> 'd power_state \<Rightarrow> 'd power_state" where
  "power_do k (Hint h data) s = power_hint k h data s"
| "power_do k (Interactive on) s = power_set_interactive k on s"
| "power_do k (Feature f st) s = power_set_feature k f st s"

definition power_run :: "'d kernel \<Rightarrow> power_call list \<Rightarrow> 'd power_state \<Rightarrow> 'd power_state" where
  "power_run k cs s = fold (power_do k) cs s"

text \<open>The module's static initialisation over a device \<open>d\<close>.\<close>

definition power_boot :: "'d \<Rightarrow> 'd power_state" where
  "power_boot d = \<lparr>low_power_active = 0, sustained_active = 0, saved_max_freq = [], applied_cap = [], dev = d\<rparr>"

subsection \<open>What the cap does on a well-behaved node\<close>

text \<open>
  The documented behaviour of the \<^verbatim>\<open>scaling_max_freq\<close> node: it reads as the current limit and a
  newline, a write of one of the frequencies \<open>ok\<close> is accepted and becomes the limit, and the
  other files the module writes do not change it. \<open>fr\<close> is the limit of a device state.
\<close>

definition cpufreq_node :: "'d kernel \<Rightarrow> ('d \<Rightarrow> string) \<Rightarrow> string set \<Rightarrow> bool" where
  "cpufreq_node k fr ok \<longleftrightarrow>
     (\<forall>d. k_read k SCALING_MAX_FREQ_PATH d = Some (fr d @ [CHR 0x0A])) \<and>
     (\<forall>d v. v \<in> ok \<longrightarrow> k_can_write k SCALING_MAX_FREQ_PATH d \<and> fr (k_write k SCALING_MAX_FREQ_PATH v d) = v) \<and>
     (\<forall>d p v. p \<noteq> SCALING_MAX_FREQ_PATH \<longrightarrow> fr (k_write k p v d) = fr d)"

definition freq_text :: "string \<Rightarrow> bool" where
  "freq_text v \<longleftrightarrow> v \<noteq> [] \<and> length v \<le> 30 \<and> list_all (is_digit 10) v"

lemma digit_not_eol: "is_digit 10 c \<Longrightarrow> c \<noteq> CHR 0x0A \<and> c \<noteq> CHR 0x0D \<and> c \<noteq> CHR 0x00"
  by (auto simp: is_digit_def digit_val_def)

lemma strip_eol_keep: "v \<noteq> [] \<Longrightarrow> last v \<noteq> CHR 0x0A \<Longrightarrow> last v \<noteq> CHR 0x0D \<Longrightarrow> strip_eol v = v"
  by (subst strip_eol.simps) simp

lemma strip_eol_snoc [simp]: "strip_eol (v @ [CHR 0x0A]) = strip_eol v" "strip_eol (v @ [CHR 0x0D]) = strip_eol v"
  by (subst strip_eol.simps; simp)+

lemma freq_text_c_str:
  assumes "freq_text v"
  shows "c_str v = v" "strip_eol v = v"
proof -
  have d: "\<forall>c\<in>set v. is_digit 10 c" using assms by (simp add: freq_text_def list_all_iff)
  then show "c_str v = v" using digit_not_eol by (intro c_str_id) blast
  have "last v \<in> set v" using assms by (simp add: freq_text_def)
  with d have "is_digit 10 (last v)" by blast
  from digit_not_eol [OF this] assms show "strip_eol v = v"
    by (intro strip_eol_keep) (simp_all add: freq_text_def)
qed

lemma caps_freq_text: "freq_text LOW_POWER_MAX_FREQ" "freq_text SUSTAINED_MAX_FREQ"
  by (simp_all add: freq_text_def LOW_POWER_MAX_FREQ_def SUSTAINED_MAX_FREQ_def is_digit_def digit_val_def)

lemma sysfs_read_node:
  assumes "cpufreq_node k fr ok" and "freq_text (fr d)"
  shows "sysfs_read k SCALING_MAX_FREQ_PATH buf_size d = Some (fr d)"
  using assms freq_text_c_str [OF assms(2)]
  by (auto simp: sysfs_read_def cpufreq_node_def buf_size_def Let_def freq_text_def)

lemma sysfs_write_node:
  assumes "cpufreq_node k fr ok" and "v \<in> ok" and "freq_text v"
  shows "fr (sysfs_write k SCALING_MAX_FREQ_PATH v d) = v"
  using assms freq_text_c_str [OF assms(3)] by (auto simp: sysfs_write_def cpufreq_node_def)

lemma sysfs_write_other:
  assumes "cpufreq_node k fr ok" and "p \<noteq> SCALING_MAX_FREQ_PATH"
  shows "fr (sysfs_write k p v d) = fr d"
  using assms by (auto simp: sysfs_write_def cpufreq_node_def)

lemma paths_differ:
  "BOOST_PATH \<noteq> SCALING_MAX_FREQ_PATH" "BOOSTPULSE_PATH \<noteq> SCALING_MAX_FREQ_PATH"
  "DOUBLE_TAP_TO_WAKE_PATH \<noteq> SCALING_MAX_FREQ_PATH"
  by (simp_all add: BOOST_PATH_def BOOSTPULSE_PATH_def DOUBLE_TAP_TO_WAKE_PATH_def
      SCALING_MAX_FREQ_PATH_def INTERACTIVE_PATH_def)

lemma freq_cap_lowest:
  "freq_cap s = (if low_power_active s \<noteq> 0 then Some LOW_POWER_MAX_FREQ
                 else if sustained_active s \<noteq> 0 then Some SUSTAINED_MAX_FREQ else None)"
  by (auto simp: freq_cap_def LOW_POWER_MAX_FREQ_def SUSTAINED_MAX_FREQ_def c_number_defs)

lemma freq_cap_cong:
  "low_power_active s' = low_power_active s \<Longrightarrow> sustained_active s' = sustained_active s \<Longrightarrow> freq_cap s' = freq_cap s"
  by (simp add: freq_cap_def)

lemma caps_nonempty: "LOW_POWER_MAX_FREQ \<noteq> []" "SUSTAINED_MAX_FREQ \<noteq> []"
  by (simp_all add: LOW_POWER_MAX_FREQ_def SUSTAINED_MAX_FREQ_def)

lemma install_cap_sel [simp]:
  "dev (install_cap k c s) = sysfs_write k SCALING_MAX_FREQ_PATH c (dev s)"
  "applied_cap (install_cap k c s) = take (buf_size - 1) c"
  "saved_max_freq (install_cap k c s) = saved_max_freq s"
  "low_power_active (install_cap k c s) = low_power_active s"
  "sustained_active (install_cap k c s) = sustained_active s"
  by (simp_all add: install_cap_def)

text \<open>The invariant between calls: \<open>orig\<close> is the limit before the module touched it.\<close>

definition power_inv :: "('d \<Rightarrow> string) \<Rightarrow> string \<Rightarrow> 'd power_state \<Rightarrow> bool" where
  "power_inv fr orig s \<longleftrightarrow>
     (case freq_cap s of
        None \<Rightarrow> applied_cap s = [] \<and> fr (dev s) = orig
      | Some c \<Rightarrow> applied_cap s = c \<and> fr (dev s) = c \<and> saved_max_freq s = orig)"

text \<open>The same but for the flags, which a hint has just changed.\<close>

definition cap_consistent :: "('d \<Rightarrow> string) \<Rightarrow> string \<Rightarrow> 'd power_state \<Rightarrow> bool" where
  "cap_consistent fr orig s \<longleftrightarrow>
     (applied_cap s = [] \<and> fr (dev s) = orig) \<or>
     (applied_cap s \<in> {LOW_POWER_MAX_FREQ, SUSTAINED_MAX_FREQ} \<and> fr (dev s) = applied_cap s \<and> saved_max_freq s = orig)"

lemma power_inv_consistent:
  "power_inv fr orig s \<Longrightarrow> cap_consistent fr orig (s\<lparr>low_power_active := a\<rparr>)"
  "power_inv fr orig s \<Longrightarrow> cap_consistent fr orig (s\<lparr>sustained_active := a\<rparr>)"
  by (auto simp: power_inv_def cap_consistent_def freq_cap_lowest split: if_splits)

lemma cap_in: "freq_cap s = Some c \<Longrightarrow> c \<in> {LOW_POWER_MAX_FREQ, SUSTAINED_MAX_FREQ}"
  by (auto simp: freq_cap_lowest split: if_splits)

lemma apply_freq_cap_flags [simp]:
  "low_power_active (apply_freq_cap_locked k s) = low_power_active s"
  "sustained_active (apply_freq_cap_locked k s) = sustained_active s"
  by (simp_all add: apply_freq_cap_locked_def split: option.split)

lemma apply_freq_cap_inv:
  assumes node: "cpufreq_node k fr {orig, LOW_POWER_MAX_FREQ, SUSTAINED_MAX_FREQ}" and orig: "freq_text orig"
    and c: "cap_consistent fr orig s"
  shows "power_inv fr orig (apply_freq_cap_locked k s)"
proof -
  let ?s' = "apply_freq_cap_locked k s"
  have fcap: "freq_cap ?s' = freq_cap s" by (simp add: freq_cap_def)
  have rdc: "sysfs_read k SCALING_MAX_FREQ_PATH buf_size (dev s) = Some (fr (dev s))"
    using sysfs_read_node [OF node] c orig caps_freq_text by (auto simp: cap_consistent_def)
  show ?thesis
  proof (cases "freq_cap s")
    case None
    from c consider "applied_cap s = []" "fr (dev s) = orig"
      | "applied_cap s \<noteq> []" "fr (dev s) = applied_cap s" "saved_max_freq s = orig"
      using caps_nonempty by (auto simp: cap_consistent_def)
    then have "applied_cap ?s' = [] \<and> fr (dev ?s') = orig"
      by cases (use None rdc sysfs_write_node [OF node _ orig] in \<open>simp_all add: apply_freq_cap_locked_def\<close>)
    with None fcap show ?thesis by (simp add: power_inv_def)
  next
    case (Some cap)
    then have capt: "freq_text cap" "cap \<in> {orig, LOW_POWER_MAX_FREQ, SUSTAINED_MAX_FREQ}"
      using cap_in caps_freq_text by blast+
    then have tk: "take (buf_size - 1) cap = cap" by (simp add: freq_text_def buf_size_def)
    note w = sysfs_write_node [OF node capt(2,1)]
    from Some c rdc w tk caps_nonempty show ?thesis
      unfolding power_inv_def fcap by (auto simp: apply_freq_cap_locked_def cap_consistent_def)
  qed
qed

lemma power_do_inv:
  assumes node: "cpufreq_node k fr {orig, LOW_POWER_MAX_FREQ, SUSTAINED_MAX_FREQ}" and orig: "freq_text orig"
    and inv: "power_inv fr orig s"
  shows "power_inv fr orig (power_do k c s)"
proof -
  have other: "power_inv fr orig (s\<lparr>dev := sysfs_write k p v (dev s)\<rparr>)" if "p \<noteq> SCALING_MAX_FREQ_PATH" for p v
    using inv sysfs_write_other [OF node that] freq_cap_cong [of "s\<lparr>dev := sysfs_write k p v (dev s)\<rparr>" s]
    by (cases "freq_cap s") (simp_all add: power_inv_def)
  have "power_inv fr orig (power_hint k h data s)" for h data
    by (cases h)
      (use inv other paths_differ power_inv_consistent [OF inv] apply_freq_cap_inv [OF node orig] in auto)
  moreover have "power_inv fr orig (power_set_feature k f st s)" for f st
    using inv other paths_differ by (cases f) auto
  ultimately show ?thesis
    using inv other paths_differ by (cases c) (auto simp: power_set_interactive_def)
qed

lemma power_run_inv:
  assumes "cpufreq_node k fr {orig, LOW_POWER_MAX_FREQ, SUSTAINED_MAX_FREQ}" and "freq_text orig"
    and "power_inv fr orig s"
  shows "power_inv fr orig (power_run k cs s)"
  using assms(3) unfolding power_run_def
  by (induction cs arbitrary: s) (auto intro: power_do_inv [OF assms(1,2)])

text \<open>Whether a mode is wanted after a history: what its last hint said.\<close>

definition wanted :: "power_hint_t \<Rightarrow> power_call list \<Rightarrow> bool" where
  "wanted h cs = fold (\<lambda>c b. case c of Hint h' data \<Rightarrow> if h' = h then data \<noteq> NULL else b | _ \<Rightarrow> b) cs False"

lemma power_do_flags:
  "low_power_active (power_do k c s) =
     (case c of Hint POWER_HINT_LOW_POWER data \<Rightarrow> if data \<noteq> NULL then 1 else 0 | _ \<Rightarrow> low_power_active s)"
  "sustained_active (power_do k c s) =
     (case c of Hint POWER_HINT_SUSTAINED_PERFORMANCE data \<Rightarrow> if data \<noteq> NULL then 1 else 0 | _ \<Rightarrow> sustained_active s)"
proof -
  have "low_power_active (power_set_feature k f st s) = low_power_active s"
    "sustained_active (power_set_feature k f st s) = sustained_active s" for f st
    by (cases f; simp)+
  moreover have "low_power_active (power_hint k h data s) =
      (case h of POWER_HINT_LOW_POWER \<Rightarrow> if data \<noteq> NULL then 1 else 0 | _ \<Rightarrow> low_power_active s)"
    "sustained_active (power_hint k h data s) =
      (case h of POWER_HINT_SUSTAINED_PERFORMANCE \<Rightarrow> if data \<noteq> NULL then 1 else 0 | _ \<Rightarrow> sustained_active s)" for h data
    by (cases h; simp)+
  ultimately show
    "low_power_active (power_do k c s) =
      (case c of Hint POWER_HINT_LOW_POWER data \<Rightarrow> if data \<noteq> NULL then 1 else 0 | _ \<Rightarrow> low_power_active s)"
    "sustained_active (power_do k c s) =
      (case c of Hint POWER_HINT_SUSTAINED_PERFORMANCE data \<Rightarrow> if data \<noteq> NULL then 1 else 0 | _ \<Rightarrow> sustained_active s)"
    by (cases c; simp add: power_set_interactive_def split: power_hint_t.split)+
qed

lemma power_run_flags:
  "low_power_active (power_run k cs (power_boot d)) \<noteq> 0 \<longleftrightarrow> wanted POWER_HINT_LOW_POWER cs"
  "sustained_active (power_run k cs (power_boot d)) \<noteq> 0 \<longleftrightarrow> wanted POWER_HINT_SUSTAINED_PERFORMANCE cs"
proof -
  have snoc: "power_run k (cs @ [c]) s = power_do k c (power_run k cs s)"
    "wanted h (cs @ [c]) = (case c of Hint h' data \<Rightarrow> if h' = h then data \<noteq> NULL else wanted h cs | _ \<Rightarrow> wanted h cs)"
    for k cs c s h unfolding power_run_def wanted_def by (simp_all only: fold_append fold.simps comp_apply id_apply)
  have empty: "power_run k [] (power_boot d) = power_boot d" "\<not> wanted h []"
    "low_power_active (power_boot d) = 0" "sustained_active (power_boot d) = 0" for h
    by (simp_all add: power_run_def wanted_def power_boot_def)
  show "low_power_active (power_run k cs (power_boot d)) \<noteq> 0 \<longleftrightarrow> wanted POWER_HINT_LOW_POWER cs"
    by (induction cs rule: rev_induct)
      (simp_all add: snoc empty power_do_flags split: power_call.split power_hint_t.split)
  show "sustained_active (power_run k cs (power_boot d)) \<noteq> 0 \<longleftrightarrow> wanted POWER_HINT_SUSTAINED_PERFORMANCE cs"
    by (induction cs rule: rev_induct)
      (simp_all add: snoc empty power_do_flags split: power_call.split power_hint_t.split)
qed

subsection \<open>Properties\<close>

text \<open>
  C9. On a node that behaves as documented, after any history of hints, screen changes and
  feature switches the frequency limit is exactly the one the modes call for: the low-power cap
  if low power is on (the lower of the two also when both are on), else the sustained cap if
  that is on, else the limit that was there before the module touched it. In particular the
  original limit is restored whenever both modes have been switched off again, in any order
  and however often they were switched on.
\<close>

theorem power_hal_freq_exact:
  assumes "cpufreq_node k fr {orig, LOW_POWER_MAX_FREQ, SUSTAINED_MAX_FREQ}"
    and "freq_text orig" and "fr d = orig"
  shows "fr (dev (power_run k cs (power_boot d))) =
      (if wanted POWER_HINT_LOW_POWER cs then ''800000''
       else if wanted POWER_HINT_SUSTAINED_PERFORMANCE cs then ''1209600'' else orig)"
proof -
  have boot: "power_inv fr orig (power_boot d)"
    using assms(3) by (simp add: power_inv_def freq_cap_def power_boot_def)
  from power_run_inv [OF assms(1,2) boot, of cs] show ?thesis
    by (auto simp: power_inv_def freq_cap_lowest power_run_flags LOW_POWER_MAX_FREQ_def SUSTAINED_MAX_FREQ_def)
qed

text \<open>A device that is a store of file contents, with a newline added on reading.\<close>

definition file_kernel :: "(string \<Rightarrow> string) kernel" where
  "file_kernel = \<lparr>k_read = (\<lambda>p d. Some (d p @ [CHR 0x0A])), k_can_write = (\<lambda>p d. True),
                  k_write = (\<lambda>p v d. d(p := v))\<rparr>"

lemma file_kernel_node: "cpufreq_node file_kernel (\<lambda>d. d SCALING_MAX_FREQ_PATH) ok"
  by (auto simp: cpufreq_node_def file_kernel_def)

lemma freq_text_998400: "freq_text ''998400''"
  by (simp add: freq_text_def is_digit_def digit_val_def)

theorem power_hal_freq_exact_witness:
  "cpufreq_node file_kernel (\<lambda>d. d SCALING_MAX_FREQ_PATH) {''998400'', LOW_POWER_MAX_FREQ, SUSTAINED_MAX_FREQ} \<and>
   dev (power_run file_kernel
         [Hint POWER_HINT_LOW_POWER 1, Hint POWER_HINT_SUSTAINED_PERFORMANCE 1, Hint POWER_HINT_LOW_POWER 0,
          Hint POWER_HINT_SUSTAINED_PERFORMANCE 0]
         (power_boot (\<lambda>_. ''998400''))) SCALING_MAX_FREQ_PATH = ''998400''"
  using power_hal_freq_exact [OF file_kernel_node freq_text_998400, of "\<lambda>_. ''998400''"
      "[Hint POWER_HINT_LOW_POWER 1, Hint POWER_HINT_SUSTAINED_PERFORMANCE 1, Hint POWER_HINT_LOW_POWER 0,
        Hint POWER_HINT_SUSTAINED_PERFORMANCE 0]"] file_kernel_node
  by (simp add: wanted_def)


definition capped_state :: "(string \<Rightarrow> string) power_state" where
  "capped_state = \<lparr>low_power_active = 1, sustained_active = 0, saved_max_freq = ''1209600'',
     applied_cap = ''800000'', dev = (\<lambda>_. ''533333'')\<rparr>"


text \<open>
  When the current limit cannot be read, a cap is never installed: a history of mode hints
  from boot, on a node whose reads fail, leaves the device exactly as it was.
\<close>

theorem power_hal_unreadable_untouched:
  assumes "\<forall>d. k_read k SCALING_MAX_FREQ_PATH d = None"
  shows "dev (power_run k (map (\<lambda>(b, data). Hint (if b then POWER_HINT_LOW_POWER else POWER_HINT_SUSTAINED_PERFORMANCE) data) hs)
           (power_boot d)) = d"
proof -
  have rdn: "sysfs_read k SCALING_MAX_FREQ_PATH buf_size x = None" for x using assms by (simp add: sysfs_read_def)
  have "dev (power_run k (map (\<lambda>(b, data). Hint (if b then POWER_HINT_LOW_POWER else POWER_HINT_SUSTAINED_PERFORMANCE) data) hs) s) = dev s"
    if "applied_cap s = []" for s
    using that
  proof (induction hs arbitrary: s)
    case Nil
    then show ?case by (simp add: power_run_def)
  next
    case (Cons h hs)
    have keep: "apply_freq_cap_locked k s' = s'" if "applied_cap s' = []" for s'
      using that rdn by (simp add: apply_freq_cap_locked_def split: option.split)
    obtain b data where h: "h = (b, data)" by force
    define s1 where "s1 = power_do k (Hint (if b then POWER_HINT_LOW_POWER else POWER_HINT_SUSTAINED_PERFORMANCE) data) s"
    have "applied_cap s1 = []" "dev s1 = dev s"
      using Cons.prems keep by (auto simp: s1_def)
    with Cons.IH [of s1] h show ?case by (simp add: power_run_def s1_def)
  qed
  then show ?thesis by (simp add: power_boot_def)
qed

theorem power_hal_unreadable_untouched_witness:
  "dev (power_run (file_kernel\<lparr>k_read := \<lambda>_ _. None\<rparr>) [Hint POWER_HINT_LOW_POWER 1, Hint POWER_HINT_LOW_POWER 0]
     (power_boot (\<lambda>_. ''998400''))) = (\<lambda>_. ''998400'')"
  using power_hal_unreadable_untouched [of "file_kernel\<lparr>k_read := \<lambda>_ _. None\<rparr>" "[(True, 1), (True, 0)]" "\<lambda>_. ''998400''"]
  by simp

text \<open>
  Installing a cap does not look at the limit in force: even when another party has set a
  lower limit, switching low power on (with no cap installed, or with one) sets the limit to the
  low-power cap, which is then higher than what the other party had set.
\<close>

theorem power_hal_cap_overrides_lower_limit:
  assumes "cpufreq_node k fr {LOW_POWER_MAX_FREQ}" and "freq_text (fr (dev s))"
    and "atoi (fr (dev s)) < 800000" and "data \<noteq> NULL"
  shows "fr (dev (power_hint k POWER_HINT_LOW_POWER data s)) = ''800000'' \<and>
     atoi (fr (dev s)) < atoi (fr (dev (power_hint k POWER_HINT_LOW_POWER data s)))"
proof -
  have w: "fr (sysfs_write k SCALING_MAX_FREQ_PATH LOW_POWER_MAX_FREQ (dev s)) = ''800000''"
    using sysfs_write_node [OF assms(1) _ caps_freq_text(1)] by (simp add: LOW_POWER_MAX_FREQ_def)
  have "fr (dev (power_hint k POWER_HINT_LOW_POWER data s)) = ''800000''"
    using assms(4) w sysfs_read_node [OF assms(1,2)]
    by (simp add: apply_freq_cap_locked_def freq_cap_lowest)
  moreover have "atoi ''800000'' = 800000" by (simp add: c_number_defs)
  ultimately show ?thesis using assms(3) by simp
qed

theorem power_hal_cap_overrides_lower_limit_witness:
  "dev (power_hint file_kernel POWER_HINT_LOW_POWER 1 (power_boot (\<lambda>_. ''533333''))) SCALING_MAX_FREQ_PATH = ''800000''"
proof -
  have "freq_text ''533333''" "atoi ''533333'' < 800000"
    by (simp_all add: freq_text_def is_digit_def digit_val_def c_number_defs)
  then show ?thesis
    using power_hal_cap_overrides_lower_limit [OF file_kernel_node, of "power_boot (\<lambda>_. ''533333'')" 1]
    by (simp add: power_boot_def)
qed

end
