(* ===== verification/Dtb_Chips.thy ===== *)
theory Dtb_Chips
  imports Dll_Segment
begin

text \<open>
  The chip list of the device-tree tool (\<^verbatim>\<open>dtbtool/dtbtool.c\<close>: \<^verbatim>\<open>chip_add\<close>, \<^verbatim>\<open>chip_deleteall\<close>):
  a doubly linked list of chip records, kept sorted and free of duplicates by pointer surgery.
  \<open>None\<close> is a memory fault or an endless loop.
\<close>

subsection \<open>Data\<close>

definition RC_SUCCESS :: int where "RC_SUCCESS = 0"

definition RC_ERROR :: int where "RC_ERROR = - 1"

record chipInfo_t =
  chipset :: u32
  platform :: u32
  subtype :: u32
  revNum :: u32
  pmic_model :: "u32 \<times> u32 \<times> u32 \<times> u32"
  oppoId :: u32
  dtb_size :: u32
  dtb_file :: "string option"
  c_prev :: ptr
  c_next :: ptr
  master :: ptr
  wroteDtb :: int
  master_offset :: u32
  t_next :: ptr

text \<open>
  The heap of chip records, the global \<^verbatim>\<open>chip_list\<close>, and the address the next \<^verbatim>\<open>malloc\<close> returns
  (no result depends on the addresses).
\<close>

record chip_mem =
  chips :: "ptr \<rightharpoonup> chipInfo_t"
  chip_list :: ptr
  chip_brk :: ptr

definition set_c_next :: "ptr \<Rightarrow> ptr \<Rightarrow> chip_mem \<Rightarrow> chip_mem option" where
  "set_c_next e v m = do {
     cs \<leftarrow> upd (chips m) e (\<lambda>n. n\<lparr>c_next := v\<rparr>);
     Some (m\<lparr>chips := cs\<rparr>) }"

definition set_c_prev :: "ptr \<Rightarrow> ptr \<Rightarrow> chip_mem \<Rightarrow> chip_mem option" where
  "set_c_prev e v m = do {
     cs \<leftarrow> upd (chips m) e (\<lambda>n. n\<lparr>c_prev := v\<rparr>);
     Some (m\<lparr>chips := cs\<rparr>) }"

subsection \<open>Operations\<close>

text \<open>The order of the list and the identity of an entry, as the code compares them.\<close>

definition chip_before :: "chipInfo_t \<Rightarrow> chipInfo_t \<Rightarrow> bool" where
  "chip_before c x \<longleftrightarrow>
     chipset c < chipset x \<or>
     (chipset c = chipset x \<and>
      (platform c < platform x \<or>
       (platform c = platform x \<and>
        (subtype c < subtype x \<or>
         (subtype c = subtype x \<and> revNum c < revNum x)))))"

definition chip_same :: "chipInfo_t \<Rightarrow> chipInfo_t \<Rightarrow> bool" where
  "chip_same c x \<longleftrightarrow>
     chipset c = chipset x \<and> platform c = platform x \<and> subtype c = subtype x \<and> revNum c = revNum x \<and>
     pmic_model c = pmic_model x \<and> oppoId c = oppoId x"

partial_function (option) chip_add_loop :: "ptr \<Rightarrow> ptr \<Rightarrow> chip_mem \<Rightarrow> (int \<times> chip_mem) option" where
  "chip_add_loop c x m = do {
     cc \<leftarrow> rd (chips m) c;
     xx \<leftarrow> rd (chips m) x;
     if chip_before cc xx then
       (if c_prev xx = NULL then do {
          m1 \<leftarrow> set_c_next c x m;
          m2 \<leftarrow> set_c_prev c NULL m1;
          m3 \<leftarrow> set_c_prev x c m2;
          Some (RC_SUCCESS, m3\<lparr>chip_list := c\<rparr>) }
        else do {
          m1 \<leftarrow> set_c_next c x m;
          m2 \<leftarrow> set_c_prev c (c_prev xx) m1;
          xx' \<leftarrow> rd (chips m2) x;
          m3 \<leftarrow> set_c_next (c_prev xx') c m2;
          m4 \<leftarrow> set_c_prev x c m3;
          Some (RC_SUCCESS, m4) })
     else if chip_same cc xx then Some (RC_ERROR, m)
     else if c_next xx = NULL then do {
       m1 \<leftarrow> set_c_prev c x m;
       m2 \<leftarrow> set_c_next c NULL m1;
       m3 \<leftarrow> set_c_next x c m2;
       Some (RC_SUCCESS, m3) }
     else chip_add_loop c (c_next xx) m }"

definition chip_add :: "ptr \<Rightarrow> chip_mem \<Rightarrow> (int \<times> chip_mem) option" where
  "chip_add c m =
     (if chip_list m = NULL then do {
        let m0 = m\<lparr>chip_list := c\<rparr>;
        m1 \<leftarrow> set_c_next c NULL m0;
        m2 \<leftarrow> set_c_prev c NULL m1;
        Some (RC_SUCCESS, m2) }
      else chip_add_loop c (chip_list m) m)"

text \<open>The list pointer itself is left as it is: the program ends after this.\<close>

partial_function (option) deleteall_loop :: "ptr \<Rightarrow> chip_mem \<Rightarrow> chip_mem option" where
  "deleteall_loop c m =
     (if c = NULL then Some m
      else do {
        cc \<leftarrow> rd (chips m) c;
        cs \<leftarrow> free_at (chips m) c;
        deleteall_loop (c_next cc) (m\<lparr>chips := cs\<rparr>) })"

definition chip_deleteall :: "chip_mem \<Rightarrow> chip_mem option" where
  "chip_deleteall m = deleteall_loop (chip_list m) m"

subsection \<open>The list invariant\<close>

interpretation ch: dll_node c_next c_prev "\<lambda>v. c_next_update (\<lambda>_. v)" "\<lambda>v. c_prev_update (\<lambda>_. v)"
  by unfold_locales simp_all

text \<open>A record without its list links: what the list operations do not change.\<close>

definition unlinked :: "chipInfo_t \<Rightarrow> chipInfo_t" where
  "unlinked c = c\<lparr>c_prev := NULL, c_next := NULL\<rparr>"

definition info :: "chip_mem \<Rightarrow> ptr \<Rightarrow> chipInfo_t option" where
  "info m a = map_option unlinked (chips m a)"

definition chip_order :: "chipInfo_t list \<Rightarrow> bool" where
  "chip_order xs \<longleftrightarrow> sorted_wrt (\<lambda>x y. \<not> chip_before y x) xs \<and> sorted_wrt (\<lambda>x y. \<not> chip_same x y) xs"

text \<open>\<open>as\<close> are the addresses of the list's records in order, \<open>xs\<close> their contents.\<close>

definition chip_links :: "chip_mem \<Rightarrow> ptr list \<Rightarrow> bool" where
  "chip_links m as \<longleftrightarrow>
     dlseg c_next c_prev (chips m) NULL as NULL \<and> distinct as \<and> chip_list m = first_addr as NULL"

definition chip_rep :: "chip_mem \<Rightarrow> ptr list \<Rightarrow> chipInfo_t list \<Rightarrow> bool" where
  "chip_rep m as xs \<longleftrightarrow> chip_links m as \<and> map (info m) as = map Some xs"

lemma set_c_next_live [simp]:
  "e \<noteq> NULL \<Longrightarrow> chips m e = Some n \<Longrightarrow> set_c_next e v m = Some (m\<lparr>chips := (chips m)(e \<mapsto> n\<lparr>c_next := v\<rparr>)\<rparr>)"
  by (simp add: set_c_next_def)

lemma set_c_prev_live [simp]:
  "e \<noteq> NULL \<Longrightarrow> chips m e = Some n \<Longrightarrow> set_c_prev e v m = Some (m\<lparr>chips := (chips m)(e \<mapsto> n\<lparr>c_prev := v\<rparr>)\<rparr>)"
  by (simp add: set_c_prev_def)

lemma unlinked_sel [simp]:
  "chipset (unlinked c) = chipset c" "platform (unlinked c) = platform c" "subtype (unlinked c) = subtype c"
  "revNum (unlinked c) = revNum c" "pmic_model (unlinked c) = pmic_model c" "oppoId (unlinked c) = oppoId c"
  "dtb_size (unlinked c) = dtb_size c" "dtb_file (unlinked c) = dtb_file c" "master (unlinked c) = master c"
  "wroteDtb (unlinked c) = wroteDtb c" "master_offset (unlinked c) = master_offset c" "t_next (unlinked c) = t_next c"
  by (simp_all add: unlinked_def)

lemma unlinked_link [simp]:
  "unlinked (c\<lparr>c_next := v\<rparr>) = unlinked c" "unlinked (c\<lparr>c_prev := v\<rparr>) = unlinked c" "unlinked (unlinked c) = unlinked c"
  by (simp_all add: unlinked_def)

lemma chip_before_unlinked [simp]:
  "chip_before (unlinked c) x = chip_before c x" "chip_before c (unlinked x) = chip_before c x"
  "chip_same (unlinked c) x = chip_same c x" "chip_same c (unlinked x) = chip_same c x"
  by (simp_all add: chip_before_def chip_same_def)

lemma chip_before_trans: "chip_before a b \<Longrightarrow> chip_before b c \<Longrightarrow> chip_before a c"
  unfolding chip_before_def by auto

lemma chip_before_linear: "\<not> chip_before a b \<Longrightarrow> \<not> chip_before b c \<Longrightarrow> \<not> chip_before a c"
  unfolding chip_before_def by (auto simp: not_less)

lemma chip_before_asym: "chip_before a b \<Longrightarrow> \<not> chip_before b a"
  unfolding chip_before_def by auto

lemma chip_same_sym: "chip_same a b = chip_same b a"
  unfolding chip_same_def by auto

lemma chip_same_not_before: "chip_same a b \<Longrightarrow> chip_before a c = chip_before b c"
  unfolding chip_same_def chip_before_def by auto

subsection \<open>Insertion refines a sorted insertion on lists\<close>

text \<open>The specification: refuse a duplicate, else insert before the first larger entry.\<close>

definition chip_insert :: "chipInfo_t \<Rightarrow> chipInfo_t list \<Rightarrow> chipInfo_t list option" where
  "chip_insert c xs =
     (if list_ex (chip_same c) xs then None
      else Some (takeWhile (\<lambda>x. \<not> chip_before c x) xs @ c # dropWhile (\<lambda>x. \<not> chip_before c x) xs))"

lemma chip_insert_order:
  assumes "chip_order xs" and "chip_insert c xs = Some ys"
  shows "chip_order ys"
proof -
  let ?P = "\<lambda>x. \<not> chip_before c x"
  define us vs where "us = takeWhile ?P xs" and "vs = dropWhile ?P xs"
  have xs: "xs = us @ vs" by (simp add: us_def vs_def)
  have ys: "ys = us @ c # vs" and nodup: "\<forall>x\<in>set xs. \<not> chip_same c x"
    using assms(2) by (auto simp: chip_insert_def us_def vs_def list_ex_iff split: if_splits)
  have us: "\<forall>x\<in>set us. \<not> chip_before c x" unfolding us_def by (auto dest: set_takeWhileD)
  have vs: "\<forall>x\<in>set vs. chip_before c x"
  proof (cases vs)
    case (Cons v vs')
    then have v: "chip_before c v" unfolding vs_def by (auto simp: dropWhile_eq_Cons_conv)
    have "\<not> chip_before x v" if "x \<in> set vs'" for x
      using assms(1) that unfolding chip_order_def xs Cons by (auto simp: sorted_wrt_append)
    with v Cons chip_before_linear show ?thesis by auto
  qed simp
  show ?thesis
    using assms(1) us vs nodup chip_before_asym
    unfolding chip_order_def ys xs by (auto simp: sorted_wrt_append chip_same_sym)
qed

subsection \<open>The pointer writes\<close>

lemma chip_links_live: "chip_links m as \<Longrightarrow> a \<in> set as \<Longrightarrow> a \<noteq> NULL \<and> (\<exists>n. chips m a = Some n)"
  unfolding chip_links_def using dlseg_live by blast

lemma info_link_upd [simp]:
  "chips m a = Some n \<Longrightarrow> unlinked n' = unlinked n \<Longrightarrow> info (m\<lparr>chips := (chips m)(a \<mapsto> n')\<rparr>) = info m"
  by (auto simp: info_def fun_eq_iff)

lemma info_eqI:
  "(\<And>a. map_option unlinked (chips m' a) = map_option unlinked (chips m a)) \<Longrightarrow> info m' = info m"
  by (auto simp: info_def fun_eq_iff)

lemma insert_front:
  assumes l: "chip_links m (x # vs)" and c: "chips m c = Some cc" "c \<noteq> NULL" "c \<notin> set (x # vs)"
    and x: "chips m x = Some xx"
  defines "m' \<equiv> m\<lparr>chips := (chips m)(c \<mapsto> cc\<lparr>c_next := x, c_prev := NULL\<rparr>, x \<mapsto> xx\<lparr>c_prev := c\<rparr>), chip_list := c\<rparr>"
  shows "chip_links m' (c # x # vs)" "info m' = info m"
proof -
  have "dlseg c_next c_prev (chips m) NULL (x # vs) NULL" "distinct (c # x # vs)"
    using l c by (auto simp: chip_links_def)
  from ch.dlseg_push [OF this c(2) x, of "cc\<lparr>c_next := x, c_prev := NULL\<rparr>" NULL] this(2)
  show "chip_links m' (c # x # vs)" by (simp add: m'_def chip_links_def)
  show "info m' = info m" using c x by (intro info_eqI) (auto simp: m'_def)
qed

lemma insert_mid:
  assumes l: "chip_links m (us @ [p] @ x # vs)" and c: "chips m c = Some cc" "c \<noteq> NULL" "c \<notin> set (us @ [p] @ x # vs)"
    and p: "chips m p = Some pp" and x: "chips m x = Some xx"
  defines "m' \<equiv> m\<lparr>chips := (chips m)(c \<mapsto> cc\<lparr>c_next := x, c_prev := p\<rparr>, p \<mapsto> pp\<lparr>c_next := c\<rparr>, x \<mapsto> xx\<lparr>c_prev := c\<rparr>)\<rparr>"
  shows "chip_links m' (us @ [p] @ c # x # vs)" "info m' = info m"
proof -
  have "dlseg c_next c_prev (chips m) NULL (us @ [p] @ x # vs) NULL" "distinct (c # us @ [p] @ x # vs)"
    using l c unfolding chip_links_def by auto
  note * = this ch.dlseg_insert [OF this c(2) p x, of "cc\<lparr>c_next := x, c_prev := p\<rparr>"]
  from *(3) have "dlseg c_next c_prev (chips m') NULL (us @ [p] @ c # x # vs) NULL"
    unfolding m'_def by simp
  moreover have "first_addr (us @ [p] @ c # x # vs) NULL = first_addr (us @ [p] @ x # vs) NULL" by (cases us) simp_all
  ultimately show "chip_links m' (us @ [p] @ c # x # vs)"
    using l *(2) unfolding chip_links_def m'_def by auto
  show "info m' = info m" using c p x by (intro info_eqI) (auto simp: m'_def)
qed

lemma insert_end:
  assumes l: "chip_links m (us @ [x])" and c: "chips m c = Some cc" "c \<noteq> NULL" "c \<notin> set (us @ [x])"
    and x: "chips m x = Some xx"
  defines "m' \<equiv> m\<lparr>chips := (chips m)(c \<mapsto> cc\<lparr>c_prev := x, c_next := NULL\<rparr>, x \<mapsto> xx\<lparr>c_next := c\<rparr>)\<rparr>"
  shows "chip_links m' (us @ [x] @ [c])" "info m' = info m"
proof -
  have "dlseg c_next c_prev (chips m) NULL (us @ [x]) NULL" "distinct (c # us @ [x])"
    using l c unfolding chip_links_def by auto
  note * = this ch.dlseg_snoc [OF this c(2) x, of "cc\<lparr>c_prev := x, c_next := NULL\<rparr>"]
  from *(3) have "dlseg c_next c_prev (chips m') NULL (us @ [x] @ [c]) NULL"
    unfolding m'_def by simp
  moreover have "first_addr (us @ [x] @ [c]) NULL = first_addr (us @ [x]) NULL" by (cases us) simp_all
  ultimately show "chip_links m' (us @ [x] @ [c])"
    using l *(2) unfolding chip_links_def m'_def by auto
  show "info m' = info m" using c x by (intro info_eqI) (auto simp: m'_def)
qed

lemma chip_links_prev:
  assumes "chip_links m (us @ x # vs)" and "chips m x = Some xx"
  shows "c_prev xx = last_addr NULL us" "c_next xx = first_addr vs NULL"
  using assms by (auto simp: chip_links_def)

lemma chip_add_loop_before:
  assumes l: "chip_links m (us @ x # vs)" and c: "chips m c = Some cc" "c \<noteq> NULL" "c \<notin> set (us @ x # vs)"
    and x: "chips m x = Some xx" and b: "chip_before cc xx"
  shows "\<exists>m'. chip_add_loop c x m = Some (RC_SUCCESS, m') \<and> info m' = info m \<and> chip_brk m' = chip_brk m \<and>
     chip_links m' (us @ c # x # vs)"
proof (cases us rule: rev_cases)
  case Nil
  with chip_links_prev [OF l x] have pv: "c_prev xx = NULL" by simp
  have xn: "x \<noteq> NULL" "x \<noteq> c" using l c x chip_links_live [OF l] by auto
  have "chip_add_loop c x m = Some (RC_SUCCESS,
      m\<lparr>chips := (chips m)(c \<mapsto> cc\<lparr>c_next := x, c_prev := NULL\<rparr>, x \<mapsto> xx\<lparr>c_prev := c\<rparr>), chip_list := c\<rparr>)"
    using c x xn b pv by (subst chip_add_loop.simps) simp
  with insert_front [of m x vs c cc xx] l c x Nil show ?thesis by simp
next
  case (snoc us' p)
  obtain pp where p: "p \<noteq> NULL" "chips m p = Some pp" using chip_links_live [OF l] snoc by auto
  have xn: "x \<noteq> NULL" "x \<noteq> c" "p \<noteq> c" "p \<noteq> x"
    using l c x snoc chip_links_live [OF l] by (auto simp: chip_links_def)
  from chip_links_prev [OF l x] snoc have pv: "c_prev xx = p" by simp
  have "chip_add_loop c x m = Some (RC_SUCCESS,
      m\<lparr>chips := (chips m)(c \<mapsto> cc\<lparr>c_next := x, c_prev := p\<rparr>, p \<mapsto> pp\<lparr>c_next := c\<rparr>, x \<mapsto> xx\<lparr>c_prev := c\<rparr>)\<rparr>)"
    using c x xn b pv p by (subst chip_add_loop.simps) simp
  with insert_mid [of m us' p x vs c cc pp xx] l c x p snoc show ?thesis by simp
qed

lemma chip_add_loop_end:
  assumes l: "chip_links m (us @ [x])" and c: "chips m c = Some cc" "c \<noteq> NULL" "c \<notin> set (us @ [x])"
    and x: "chips m x = Some xx" and b: "\<not> chip_before cc xx" "\<not> chip_same cc xx"
  shows "\<exists>m'. chip_add_loop c x m = Some (RC_SUCCESS, m') \<and> info m' = info m \<and> chip_brk m' = chip_brk m \<and>
     chip_links m' (us @ [x, c])"
proof -
  have xn: "x \<noteq> NULL" "x \<noteq> c" using c x chip_links_live [OF l] by auto
  from chip_links_prev [OF l x] have nx: "c_next xx = NULL" by simp
  have "chip_add_loop c x m = Some (RC_SUCCESS,
      m\<lparr>chips := (chips m)(c \<mapsto> cc\<lparr>c_prev := x, c_next := NULL\<rparr>, x \<mapsto> xx\<lparr>c_next := c\<rparr>)\<rparr>)"
    using c x xn b nx by (subst chip_add_loop.simps) simp
  with insert_end [OF l c x] show ?thesis by simp
qed

text \<open>The loop, from a record on: it stops at the first larger record or at a duplicate.\<close>

definition add_result ::
  "ptr \<Rightarrow> chipInfo_t \<Rightarrow> chip_mem \<Rightarrow> ptr list \<Rightarrow> ptr list \<Rightarrow> int \<times> chip_mem \<Rightarrow> bool" where
  "add_result c cc m us ws r =
     (let P = (\<lambda>a. \<not> chip_before cc (the (chips m a))); S = (\<lambda>a. chip_same cc (the (chips m a))) in
      if list_ex S (takeWhile P ws) then r = (RC_ERROR, m)
      else fst r = RC_SUCCESS \<and> info (snd r) = info m \<and> chip_brk (snd r) = chip_brk m \<and>
           chip_links (snd r) (us @ takeWhile P ws @ c # dropWhile P ws))"

lemma chip_add_loop_links:
  assumes "chip_links m (us @ x # vs)" and "chips m c = Some cc" "c \<noteq> NULL" "c \<notin> set (us @ x # vs)"
  shows "\<exists>r. chip_add_loop c x m = Some r \<and> add_result c cc m us (x # vs) r"
  using assms
proof (induction vs arbitrary: us x)
  case (Nil us x)
  obtain xx where x: "x \<noteq> NULL" "chips m x = Some xx" using chip_links_live [OF Nil.prems(1)] by auto
  consider "chip_before cc xx" | "\<not> chip_before cc xx" "chip_same cc xx" | "\<not> chip_before cc xx" "\<not> chip_same cc xx"
    by blast
  then show ?case
  proof cases
    case 1
    with chip_add_loop_before [OF Nil.prems x(2)] x show ?thesis by (auto simp: add_result_def)
  next
    case 2
    with x Nil.prems have "chip_add_loop c x m = Some (RC_ERROR, m)" by (subst chip_add_loop.simps) simp
    with 2 x show ?thesis by (simp add: add_result_def)
  next
    case 3
    with chip_add_loop_end [OF Nil.prems x(2)] x show ?thesis by (auto simp: add_result_def)
  qed
next
  case (Cons v vs us x)
  obtain xx where x: "x \<noteq> NULL" "chips m x = Some xx" using chip_links_live [OF Cons.prems(1)] by auto
  obtain vv where v: "v \<noteq> NULL" "chips m v = Some vv" using chip_links_live [OF Cons.prems(1)] by auto
  consider "chip_before cc xx" | "\<not> chip_before cc xx" "chip_same cc xx" | "\<not> chip_before cc xx" "\<not> chip_same cc xx"
    by blast
  then show ?case
  proof cases
    case 1
    with chip_add_loop_before [OF Cons.prems x(2)] x show ?thesis by (auto simp: add_result_def)
  next
    case 2
    with x Cons.prems have "chip_add_loop c x m = Some (RC_ERROR, m)" by (subst chip_add_loop.simps) simp
    with 2 x show ?thesis by (simp add: add_result_def)
  next
    case 3
    have "c_next xx = v" using chip_links_prev [OF Cons.prems(1) x(2)] by simp
    with 3 x v Cons.prems have "chip_add_loop c x m = chip_add_loop c v m" by (subst chip_add_loop.simps) simp
    moreover obtain r where "chip_add_loop c v m = Some r" "add_result c cc m (us @ [x]) (v # vs) r"
      using Cons.IH [of "us @ [x]" v] Cons.prems by auto
    ultimately show ?thesis using 3 x by (auto simp: add_result_def Let_def)
  qed
qed

lemma chip_add_links:
  assumes l: "chip_links m as" and c: "chips m c = Some cc" "c \<noteq> NULL" "c \<notin> set as"
  shows "\<exists>r. chip_add c m = Some r \<and> add_result c cc m [] as r"
proof (cases as)
  case Nil
  with l have "chip_list m = NULL" by (simp add: chip_links_def)
  with c have "chip_add c m =
      Some (RC_SUCCESS, m\<lparr>chip_list := c, chips := (chips m)(c \<mapsto> cc\<lparr>c_next := NULL, c_prev := NULL\<rparr>)\<rparr>)"
    by (simp add: chip_add_def)
  moreover have "info (m\<lparr>chip_list := c, chips := (chips m)(c \<mapsto> cc\<lparr>c_next := NULL, c_prev := NULL\<rparr>)\<rparr>) = info m"
    using c by (intro info_eqI) auto
  ultimately show ?thesis using Nil c by (simp add: add_result_def chip_links_def)
next
  case (Cons x vs)
  with l have "chip_list m = x" "x \<noteq> NULL" by (auto simp: chip_links_def)
  then have "chip_add c m = chip_add_loop c x m" by (simp add: chip_add_def)
  with chip_add_loop_links [of m "[]" x vs c cc] assms Cons show ?thesis by simp
qed

subsection \<open>The operations on the list's contents\<close>

lemma chip_rep_the:
  assumes "chip_rep m as xs"
  shows "map (\<lambda>a. unlinked (the (chips m a))) as = xs"
proof -
  have "map (info m) as = map Some xs" using assms by (simp add: chip_rep_def)
  then have "map (the \<circ> info m) as = xs" by (metis map_map map_idI option.sel comp_apply list.map_comp list.map_ident)
  moreover have "the (info m a) = unlinked (the (chips m a))" if "a \<in> set as" for a
    using chip_links_live [of m as a] assms that by (auto simp: chip_rep_def info_def)
  ultimately show ?thesis by (metis (mono_tags, lifting) comp_apply map_eq_conv)
qed

text \<open>In a sorted list a duplicate can only be met before the first larger entry.\<close>

lemma dup_found_early:
  assumes "chip_order xs" and "x \<in> set xs" and "chip_same c x"
  shows "x \<in> set (takeWhile (\<lambda>x. \<not> chip_before c x) xs)"
proof (rule ccontr)
  let ?P = "\<lambda>x. \<not> chip_before c x"
  assume "x \<notin> set (takeWhile ?P xs)"
  with assms(2) have x: "x \<in> set (dropWhile ?P xs)" by (metis Un_iff set_append takeWhile_dropWhile_id)
  then obtain v vs where v: "dropWhile ?P xs = v # vs" by (cases "dropWhile ?P xs") auto
  then have "chip_before c v" by (auto simp: dropWhile_eq_Cons_conv)
  then have b: "chip_before x v" using chip_same_not_before [OF assms(3)] by simp
  have "\<not> chip_before x v" if "x \<noteq> v"
  proof -
    have "xs = takeWhile ?P xs @ v # vs" using v by (metis takeWhile_dropWhile_id)
    then show ?thesis using assms(1) x that v unfolding chip_order_def
      by (metis set_ConsD sorted_wrt.simps(2) sorted_wrt_append)
  qed
  with b chip_before_asym show False by blast
qed

text \<open>\<^verbatim>\<open>chip_add\<close> refines the sorted insertion; a duplicate leaves the memory as it is.\<close>

lemma chip_add_rep:
  assumes rep: "chip_rep m as xs" and ord: "chip_order xs"
    and c: "chips m c = Some cc" "c \<noteq> NULL" "c \<notin> set as"
  shows "case chip_insert (unlinked cc) xs of
      None \<Rightarrow> chip_add c m = Some (RC_ERROR, m)
    | Some ys \<Rightarrow> \<exists>m' as'. chip_add c m = Some (RC_SUCCESS, m') \<and> chip_rep m' as' ys \<and> chip_order ys \<and>
         set as' = insert c (set as) \<and> info m' = info m \<and> chip_brk m' = chip_brk m"
proof -
  let ?P = "\<lambda>a. \<not> chip_before cc (the (chips m a))" and ?S = "\<lambda>a. chip_same cc (the (chips m a))"
  let ?Q = "\<lambda>x. \<not> chip_before cc x"
  let ?u = "\<lambda>a. unlinked (the (chips m a))"
  have l: "chip_links m as" using rep by (simp add: chip_rep_def)
  have xs: "xs = map ?u as" using chip_rep_the [OF rep] by simp
  have tw: "takeWhile ?Q xs = map ?u (takeWhile ?P as)" "dropWhile ?Q xs = map ?u (dropWhile ?P as)"
    unfolding xs by (simp_all add: takeWhile_map dropWhile_map comp_def)
  have dup: "list_ex ?S (takeWhile ?P as) \<longleftrightarrow> list_ex (chip_same cc) xs"
  proof -
    have "list_ex ?S (takeWhile ?P as) \<longleftrightarrow> list_ex (chip_same cc) (takeWhile ?Q xs)"
      unfolding tw by (simp add: list_ex_iff)
    also have "\<dots> \<longleftrightarrow> list_ex (chip_same cc) xs"
      using dup_found_early [OF ord] by (auto simp: list_ex_iff dest: set_takeWhileD)
    finally show ?thesis .
  qed
  obtain r where r: "chip_add c m = Some r" "add_result c cc m [] as r" using chip_add_links [OF l c] by blast
  have same: "chip_same (unlinked cc) = chip_same cc" by (rule ext) simp
  show ?thesis
  proof (cases "list_ex (chip_same cc) xs")
    case True
    with r dup show ?thesis by (simp add: add_result_def chip_insert_def same)
  next
    case False
    let ?ys = "takeWhile ?Q xs @ unlinked cc # dropWhile ?Q xs"
    have ins: "chip_insert (unlinked cc) xs = Some ?ys" using False by (simp add: chip_insert_def same)
    obtain m' where m': "r = (RC_SUCCESS, m')" "info m' = info m" "chip_brk m' = chip_brk m"
      "chip_links m' (takeWhile ?P as @ c # dropWhile ?P as)"
      using r(2) False dup by (cases r) (auto simp: add_result_def Let_def)
    have inf: "info m a = Some (?u a)" if "a \<in> set as" for a
      using chip_links_live [OF l that] by (auto simp: info_def)
    have "map (info m') (takeWhile ?P as @ c # dropWhile ?P as) = map Some ?ys"
      using inf c(1) unfolding tw m'(2)
      by (auto simp: info_def dest: set_takeWhileD set_dropWhileD)
    then have rep': "chip_rep m' (takeWhile ?P as @ c # dropWhile ?P as) ?ys" using m'(4) by (simp add: chip_rep_def)
    have st: "set (takeWhile ?P as @ c # dropWhile ?P as) = insert c (set as)"
      by (metis Un_insert_right list.simps(15) set_append takeWhile_dropWhile_id)
    show ?thesis
      unfolding ins using r(1) m' rep' st chip_insert_order [OF ord ins] by auto
  qed
qed

lemma deleteall_loop_frees:
  assumes "dlseg c_next c_prev (chips m) p as NULL" and "distinct as"
  shows "deleteall_loop (first_addr as NULL) m = Some (m\<lparr>chips := (chips m) |` (- set as)\<rparr>)"
  using assms
proof (induction as arbitrary: p m)
  case Nil
  then show ?case by (simp add: deleteall_loop.simps)
next
  case (Cons a as)
  then obtain n where a: "a \<noteq> NULL" "chips m a = Some n" "c_next n = first_addr as NULL"
    and seg: "dlseg c_next c_prev (chips m) a as NULL" "a \<notin> set as" "distinct as"
    by (auto split: option.splits)
  let ?m1 = "m\<lparr>chips := (chips m)(a := None)\<rparr>"
  have "deleteall_loop (first_addr as NULL) ?m1 = Some (?m1\<lparr>chips := (chips ?m1) |` (- set as)\<rparr>)"
    using seg by (intro Cons.IH [of _ a]) (simp_all add: dlseg_frame del: fun_upd_apply)
  moreover have "(chips ?m1) |` (- set as) = (chips m) |` (- set (a # as))"
    by (auto simp: restrict_map_def fun_eq_iff)
  ultimately show ?case using a by (subst deleteall_loop.simps) simp
qed

subsection \<open>Properties\<close>

text \<open>
  C4. Adding a record to a sorted, duplicate-free chip list: if an entry with the same chipset,
  platform, subtype, revision, PMIC models and OPPO id is in the list, the call returns an error
  and changes nothing; otherwise it succeeds and the list's contents are the old ones with the
  record inserted before the first larger entry, so the list stays sorted and duplicate-free.
  No record's other fields change, and the pointers form a well-formed doubly linked list.
\<close>

theorem chip_add_sorted_unique:
  assumes "chip_rep m as xs" and "chip_order xs" and "chips m c = Some cc" and "c \<noteq> NULL" and "c \<notin> set as"
  shows "if list_ex (chip_same cc) xs then chip_add c m = Some (RC_ERROR, m)
     else \<exists>m' as' ys. chip_add c m = Some (RC_SUCCESS, m') \<and> chip_rep m' as' ys \<and> chip_order ys \<and>
            ys = takeWhile (\<lambda>x. \<not> chip_before cc x) xs @ unlinked cc # dropWhile (\<lambda>x. \<not> chip_before cc x) xs \<and>
            set as' = insert c (set as) \<and> info m' = info m"
proof -
  have same: "chip_same (unlinked cc) = chip_same cc" by (rule ext) simp
  show ?thesis
  proof (cases "list_ex (chip_same cc) xs")
    case True
    with chip_add_rep [OF assms] show ?thesis by (simp add: chip_insert_def same)
  next
    case False
    with chip_add_rep [OF assms] obtain m' as' where "chip_add c m = Some (RC_SUCCESS, m')"
      "chip_rep m' as' (takeWhile (\<lambda>x. \<not> chip_before cc x) xs @ unlinked cc # dropWhile (\<lambda>x. \<not> chip_before cc x) xs)"
      "chip_order (takeWhile (\<lambda>x. \<not> chip_before cc x) xs @ unlinked cc # dropWhile (\<lambda>x. \<not> chip_before cc x) xs)"
      "set as' = insert c (set as)" "info m' = info m"
      by (auto simp: chip_insert_def same)
    with False show ?thesis by (simp only: if_False) blast
  qed
qed

definition chip_ex :: "u32 \<Rightarrow> chipInfo_t" where
  "chip_ex n = \<lparr>chipset = n, platform = 0, subtype = 0, revNum = 0, pmic_model = (0, 0, 0, 0), oppoId = 0,
     dtb_size = 0, dtb_file = None, c_prev = NULL, c_next = NULL, master = 1, wroteDtb = 0, master_offset = 0, t_next = NULL\<rparr>"

definition chip_mem_ex :: chip_mem where
  "chip_mem_ex = \<lparr>chips = [1 \<mapsto> chip_ex 206, 2 \<mapsto> chip_ex 199], chip_list = 1, chip_brk = 3\<rparr>"

theorem chip_add_sorted_unique_witness:
  "chip_rep chip_mem_ex [1] [chip_ex 206] \<and>
   (\<exists>m' as'. chip_add 2 chip_mem_ex = Some (RC_SUCCESS, m') \<and> chip_rep m' as' [chip_ex 199, chip_ex 206])"
proof -
  have rep: "chip_rep chip_mem_ex [1] [chip_ex 206]"
    by (simp add: chip_rep_def chip_links_def chip_mem_ex_def info_def chip_ex_def unlinked_def)
  have "chip_order [chip_ex 206]" by (simp add: chip_order_def)
  from chip_add_sorted_unique [OF rep this, of 2 "chip_ex 199"] rep show ?thesis
    by (auto simp: chip_mem_ex_def chip_ex_def chip_same_def chip_before_def unlinked_def)
qed

text \<open>
  Deleting all chips walks the whole list without touching freed memory, frees every record
  of the list exactly once and no other record.
\<close>

theorem chip_deleteall_frees:
  assumes "chip_rep m as xs"
  shows "chip_deleteall m = Some (m\<lparr>chips := (chips m) |` (- set as)\<rparr>)"
  using deleteall_loop_frees [of m NULL as] assms
  by (simp add: chip_deleteall_def chip_rep_def chip_links_def)

theorem chip_deleteall_frees_witness:
  "\<exists>m'. chip_deleteall chip_mem_ex = Some m' \<and> chips m' 1 = None \<and> chips m' 2 = Some (chip_ex 199)"
proof -
  have "chip_rep chip_mem_ex [1] [chip_ex 206]"
    by (simp add: chip_rep_def chip_links_def chip_mem_ex_def info_def chip_ex_def unlinked_def)
  from chip_deleteall_frees [OF this] show ?thesis by (simp add: chip_mem_ex_def)
qed

end
