(* ===== verification/Dtb_Scan.thy ===== *)
theory Dtb_Scan
  imports Dtb_Chips
begin

text \<open>
  The scanning half of the device-tree tool (\<^verbatim>\<open>dtbtool/dtbtool.c\<close>): the command line, the
  reading of chip entries from the decompiled device tree, and the search of the input
  directory that fills the chip list. The file system and \<^verbatim>\<open>dtc\<close> (run through \<^verbatim>\<open>popen\<close>) are
  parameters. The tool runs on the build host, where \<^verbatim>\<open>malloc\<close> is taken to succeed; the
  out-of-memory branches, logging and the release of scratch memory are not modelled.
\<close>

subsection \<open>Globals and the command line\<close>

record dtb_conf =
  input_dir :: "string option"
  output_file :: "string option"
  dtc_path :: "string option"
  dt_tag :: string
  verbose :: int
  page_size :: int
  version_override :: int

definition PAGE_SIZE_DEF :: int where "PAGE_SIZE_DEF = 2048"

definition PAGE_SIZE_MAX :: int where "PAGE_SIZE_MAX = 1024 * 1024"

definition QCDT_DT_TAG :: string where "QCDT_DT_TAG = ''qcom,msm-id = <''"

definition QCDT_BOARD_TAG :: string where "QCDT_BOARD_TAG = ''qcom,board-id = <''"

definition QCDT_PMIC_TAG :: string where "QCDT_PMIC_TAG = ''qcom,pmic-id = <''"

definition dtb_globals :: dtb_conf where
  "dtb_globals = \<lparr>input_dir = None, output_file = None, dtc_path = None, dt_tag = QCDT_DT_TAG,
     verbose = 0, page_size = PAGE_SIZE_DEF, version_override = 0\<rparr>"

text \<open>One result of \<^verbatim>\<open>getopt_long\<close>: the option character and its argument.\<close>

datatype opt =
    Opt_arg string
  | Opt_o string
  | Opt_p string
  | Opt_s string
  | Opt_d string
  | Opt_2
  | Opt_3
  | Opt_v
  | Opt_h
  | Opt_unknown

fun parse_options :: "opt list \<Rightarrow> dtb_conf \<Rightarrow> int \<times> dtb_conf" where
  "parse_options [] g = (RC_SUCCESS, g)"
| "parse_options (c # cs) g =
     (case c of
        Opt_arg a \<Rightarrow> parse_options cs (if input_dir g = None then g\<lparr>input_dir := Some a\<rparr> else g)
      | Opt_o a \<Rightarrow> parse_options cs (g\<lparr>output_file := Some a\<rparr>)
      | Opt_p a \<Rightarrow> parse_options cs (g\<lparr>dtc_path := Some a\<rparr>)
      | Opt_s a \<Rightarrow>
          (let g1 = g\<lparr>page_size := atoi a\<rparr> in
           if page_size g1 \<le> 0 \<or> page_size g1 > PAGE_SIZE_MAX then (RC_ERROR, g1) else parse_options cs g1)
      | Opt_d a \<Rightarrow> parse_options cs (g\<lparr>dt_tag := a\<rparr>)
      | Opt_2 \<Rightarrow> if version_override g \<noteq> 0 then (RC_ERROR, g) else parse_options cs (g\<lparr>version_override := 2\<rparr>)
      | Opt_3 \<Rightarrow> if version_override g \<noteq> 0 then (RC_ERROR, g) else parse_options cs (g\<lparr>version_override := 3\<rparr>)
      | Opt_v \<Rightarrow> parse_options cs (g\<lparr>verbose := 1\<rparr>)
      | Opt_h \<Rightarrow> (RC_ERROR, g)
      | Opt_unknown \<Rightarrow> (RC_ERROR, g))"

definition parse_commandline :: "opt list \<Rightarrow> dtb_conf \<Rightarrow> int \<times> dtb_conf" where
  "parse_commandline cs g =
     (let (rc, g1) = parse_options cs g in
      if rc \<noteq> RC_SUCCESS then (rc, g1)
      else if output_file g1 = None then (RC_ERROR, g1)
      else
        (let g2 = (if input_dir g1 = None then g1\<lparr>input_dir := Some ''./''\<rparr> else g1);
             g3 = (if dtc_path g2 = None then g2\<lparr>dtc_path := Some []\<rparr> else g2)
         in (RC_SUCCESS, g3)))"

subsection \<open>The environment\<close>

datatype d_type = DT_REG | DT_DIR | DT_UNKNOWN | DT_OTHER

text \<open>
  \<open>popen\<close> gives the output lines of a shell command, \<open>opendir\<close> the entries in the order
  \<^verbatim>\<open>readdir\<close> returns them, \<open>stat\<close> the type and size, \<open>fopen\<close> the bytes of a file; \<open>None\<close> is
  failure. \<open>junk\<close> is what a fresh \<^verbatim>\<open>malloc\<close> block holds where a field is not written.
\<close>

record dtb_env =
  popen :: "string \<Rightarrow> string list option"
  opendir :: "string \<Rightarrow> (string \<times> d_type) list option"
  stat :: "string \<Rightarrow> (d_type \<times> nat) option"
  fopen :: "string \<Rightarrow> u8 list option"
  junk :: "ptr \<Rightarrow> u32"

definition dtc_command :: "dtb_conf \<Rightarrow> string \<Rightarrow> string" where
  "dtc_command g filename =
     the (dtc_path g) @ ''dtc -I dtb -O dts '' @ [CHR 0x22] @ filename @ [CHR 0x22] @ '' 2>&1''"

subsection \<open>Tokens of a property line\<close>

text \<open>\<^verbatim>\<open>strstr\<close>: the text up to and including the first occurrence, and the rest.\<close>

fun find_tag :: "string \<Rightarrow> string \<Rightarrow> (string \<times> string) option" where
  "find_tag tag s =
     (if take (length tag) s = tag then Some (tag, drop (length tag) s)
      else case s of
        [] \<Rightarrow> None
      | c # cs \<Rightarrow> map_option (\<lambda>(pre, pos). (c # pre, pos)) (find_tag tag cs))"

declare find_tag.simps [simp del]

definition is_delim :: "char \<Rightarrow> bool" where
  "is_delim c \<longleftrightarrow> c = CHR 0x20 \<or> c = CHR 0x09"

text \<open>The tokens successive \<^verbatim>\<open>strtok_r\<close> calls return.\<close>

function strtok_all :: "string \<Rightarrow> string list" where
  "strtok_all s =
     (let t = dropWhile is_delim s in
      if t = [] then []
      else takeWhile (\<lambda>c. \<not> is_delim c) t # strtok_all (dropWhile (\<lambda>c. \<not> is_delim c) t))"
  by pat_completeness auto

text \<open>The tokenizer writes a NUL behind the first token, which cuts the line there.\<close>

definition strtok_cut :: "string \<Rightarrow> string" where
  "strtok_cut pos = takeWhile is_delim pos @ takeWhile (\<lambda>c. \<not> is_delim c) (dropWhile is_delim pos)"

text \<open>
  One pass of the inner \<^verbatim>\<open>for\<close> loop: the fields read, whether the entry is valid, and the
  remaining tokens. A token that starts with \<^verbatim>\<open>>\<close> or the end of the line ends the list of
  entries, and the entry being read is dropped.
\<close>

fun read_fields :: "nat \<Rightarrow> string list \<Rightarrow> u32 list \<times> bool \<times> string list" where
  "read_fields 0 toks = ([], True, toks)"
| "read_fields (Suc k) [] = ([], False, [])"
| "read_fields (Suc k) (t # ts) =
     (if hd t = CHR ''>'' then ([], False, ts)
      else (let (vs, valid, rest) = read_fields k ts in (word_of_int (strtoul0 t) # vs, valid, rest)))"

lemma read_fields_length:
  "read_fields k toks = (vs, True, rest) \<Longrightarrow> length vs = k \<and> length rest + k = length toks"
  by (induction k toks arbitrary: vs rule: read_fields.induct)
    (auto split: if_splits prod.splits)

function read_entries :: "nat \<Rightarrow> string list \<Rightarrow> u32 list list" where
  "read_entries k toks =
     (if k = 0 then []
      else case read_fields k toks of (vs, valid, rest) \<Rightarrow> if valid then vs # read_entries k rest else [])"
  by pat_completeness auto

termination
  by (relation "measure (\<lambda>(k, toks). length toks)") (auto dest!: read_fields_length [OF sym] simp flip: length_greater_0_conv)

declare read_entries.simps [simp del]

termination strtok_all
proof (relation "measure length", simp)
  fix s t :: string
  assume t: "t = dropWhile is_delim s" and ne: "t \<noteq> []"
  then have "\<not> is_delim (hd t)" by (simp add: hd_dropWhile)
  then have "length (dropWhile (\<lambda>c. \<not> is_delim c) t) < length t"
    using ne by (cases t) (auto simp: length_dropWhile_le le_imp_less_Suc)
  also have "length t \<le> length s" unfolding t by (rule length_dropWhile_le)
  finally show "(dropWhile (\<lambda>c. \<not> is_delim c) t, s) \<in> measure length" by simp
qed

declare strtok_all.simps [simp del]

subsection \<open>Reading the chip entries of one file\<close>

text \<open>The local lists: a new node goes behind the first one.\<close>

fun t_insert :: "'a \<Rightarrow> 'a list \<Rightarrow> 'a list" where
  "t_insert x [] = [x]"
| "t_insert x (h # t) = h # x # t"

record chipId_t =
  id_chipset :: u32
  id_revNum :: u32

record chipSt_t =
  st_platform :: u32
  st_subtype :: u32
  st_oppoId :: u32

record chipPt_t =
  pt_pmic :: "u32 \<times> u32 \<times> u32 \<times> u32"

record tag_lists =
  chipId :: "chipId_t list"
  chipSt :: "chipSt_t list"
  chipPt :: "chipPt_t list"

definition add_id :: "u32 list \<Rightarrow> tag_lists \<Rightarrow> tag_lists" where
  "add_id d l = l\<lparr>chipId := t_insert \<lparr>id_chipset = d ! 0, id_revNum = d ! 1\<rparr> (chipId l)\<rparr>"

definition add_st :: "u32 list \<Rightarrow> tag_lists \<Rightarrow> tag_lists" where
  "add_st d l = l\<lparr>chipSt := t_insert \<lparr>st_platform = d ! 0, st_subtype = d ! 1, st_oppoId = d ! 2\<rparr> (chipSt l)\<rparr>"

definition add_pt :: "u32 list \<Rightarrow> tag_lists \<Rightarrow> tag_lists" where
  "add_pt d l = l\<lparr>chipPt := t_insert \<lparr>pt_pmic = (d ! 0, d ! 1, d ! 2, d ! 3)\<rparr> (chipPt l)\<rparr>"

text \<open>A tag on a line: its entries are added and the line is cut by the tokenizer.\<close>

definition scan_tag ::
  "string \<Rightarrow> nat \<Rightarrow> (u32 list \<Rightarrow> tag_lists \<Rightarrow> tag_lists) \<Rightarrow> string \<times> tag_lists \<Rightarrow> string \<times> tag_lists" where
  "scan_tag tag k add = (\<lambda>(line, l).
     case find_tag tag line of
       None \<Rightarrow> (line, l)
     | Some (pre, pos) \<Rightarrow> (pre @ strtok_cut pos, fold add (read_entries k (strtok_all pos)) l))"

definition scan_line_v2 :: "string \<Rightarrow> string \<Rightarrow> tag_lists \<Rightarrow> tag_lists" where
  "scan_line_v2 tag line l =
     snd (scan_tag QCDT_PMIC_TAG 4 add_pt (scan_tag QCDT_BOARD_TAG 3 add_st (scan_tag tag 2 add_id (c_str line, l))))"

text \<open>
  Version 1: the first line with the tag decides. The field \<^verbatim>\<open>oppoId\<close> is not written there: it
  is whatever the allocated block held.
\<close>

fun scan_v1 :: "string \<Rightarrow> string list \<Rightarrow> u32 list list option" where
  "scan_v1 tag [] = None"
| "scan_v1 tag (line # ls) =
     (case find_tag tag (c_str line) of
        None \<Rightarrow> scan_v1 tag ls
      | Some (pre, pos) \<Rightarrow> Some (read_entries 3 (strtok_all pos)))"

definition blank_chip :: chipInfo_t where
  "blank_chip = \<lparr>chipset = 0, platform = 0, subtype = 0, revNum = 0, pmic_model = (0, 0, 0, 0), oppoId = 0,
     dtb_size = 0, dtb_file = None, c_prev = NULL, c_next = NULL, master = NULL, wroteDtb = 0,
     master_offset = 0, t_next = NULL\<rparr>"

definition chip_v1 :: "u32 \<Rightarrow> u32 list \<Rightarrow> chipInfo_t" where
  "chip_v1 garbage d = blank_chip\<lparr>chipset := d ! 0, platform := d ! 1, revNum := d ! 2, oppoId := garbage\<rparr>"

definition chip_v2 :: "chipId_t \<Rightarrow> chipSt_t \<Rightarrow> chipInfo_t" where
  "chip_v2 i b = blank_chip\<lparr>chipset := id_chipset i, platform := st_platform b, revNum := id_revNum i,
     subtype := st_subtype b, oppoId := st_oppoId b\<rparr>"

definition chip_v3 :: "chipId_t \<Rightarrow> chipSt_t \<Rightarrow> chipPt_t \<Rightarrow> chipInfo_t" where
  "chip_v3 i b p = (chip_v2 i b)\<lparr>pmic_model := pt_pmic p\<rparr>"

text \<open>Allocating a chip record into the chain that starts at \<open>chip\<close>.\<close>

definition new_chip :: "(ptr \<Rightarrow> chipInfo_t) \<Rightarrow> ptr \<times> chip_mem \<Rightarrow> (ptr \<times> chip_mem) option" where
  "new_chip content = (\<lambda>(chip, m).
     let tmp = chip_brk m; m0 = m\<lparr>chip_brk := Suc tmp\<rparr> in
     if chip = NULL then
       Some (tmp, m0\<lparr>chips := (chips m0)(tmp \<mapsto> (content tmp)\<lparr>t_next := NULL, master := tmp\<rparr>)\<rparr>)
     else do {
       cc \<leftarrow> rd (chips m0) chip;
       let m1 = m0\<lparr>chips := (chips m0)(tmp \<mapsto> (content tmp)\<lparr>t_next := t_next cc, master := chip\<rparr>)\<rparr>;
       cs \<leftarrow> upd (chips m1) chip (\<lambda>c. c\<lparr>t_next := tmp\<rparr>);
       Some (chip, m1\<lparr>chips := cs\<rparr>) })"

fun new_chips :: "(ptr \<Rightarrow> chipInfo_t) list \<Rightarrow> ptr \<times> chip_mem \<Rightarrow> (ptr \<times> chip_mem) option" where
  "new_chips [] st = Some st"
| "new_chips (c # cs) st = do { st1 \<leftarrow> new_chip c st; new_chips cs st1 }"

text \<open>The records a file's lines give, in the order they are allocated; \<open>[]\<close> is the null result.\<close>

definition chip_contents :: "dtb_env \<Rightarrow> dtb_conf \<Rightarrow> u32 \<Rightarrow> string list \<Rightarrow> (ptr \<Rightarrow> chipInfo_t) list" where
  "chip_contents e g msmversion ls =
     (if msmversion = 1 then
        (case scan_v1 (dt_tag g) ls of None \<Rightarrow> [] | Some ds \<Rightarrow> map (\<lambda>d a. chip_v1 (junk e a) d) ds)
      else
        (let l = (if msmversion = 2 \<or> msmversion = 3
                  then fold (scan_line_v2 (dt_tag g)) ls \<lparr>chipId = [], chipSt = [], chipPt = []\<rparr>
                  else \<lparr>chipId = [], chipSt = [], chipPt = []\<rparr>)
         in if chipId l = [] then [] else if chipSt l = [] then []
            else if chipPt l = [] \<and> msmversion = 3 then []
            else if msmversion = 3
                 then [(\<lambda>a. chip_v3 i b p). i \<leftarrow> chipId l, b \<leftarrow> chipSt l, p \<leftarrow> chipPt l]
                 else [(\<lambda>a. chip_v2 i b). i \<leftarrow> chipId l, b \<leftarrow> chipSt l]))"

definition getChipInfo :: "dtb_env \<Rightarrow> dtb_conf \<Rightarrow> string \<Rightarrow> u32 \<Rightarrow> chip_mem \<Rightarrow> (ptr \<times> chip_mem) option" where
  "getChipInfo e g filename msmversion m =
     new_chips (chip_contents e g msmversion (case popen e (dtc_command g filename) of None \<Rightarrow> [] | Some ls \<Rightarrow> ls)) (NULL, m)"

fun version_loop :: "string list \<Rightarrow> u32 \<Rightarrow> u32" where
  "version_loop [] v = v"
| "version_loop (line # ls) v =
     (let v1 = (if find_tag QCDT_BOARD_TAG (c_str line) \<noteq> None then 2 else v)
      in if find_tag QCDT_PMIC_TAG (c_str line) \<noteq> None then 3 else version_loop ls v1)"

definition GetVersionInfo :: "dtb_env \<Rightarrow> dtb_conf \<Rightarrow> string \<Rightarrow> u32" where
  "GetVersionInfo e g filename =
     (case popen e (dtc_command g filename) of None \<Rightarrow> 1 | Some ls \<Rightarrow> version_loop ls 1)"

subsection \<open>Searching the input directory\<close>

definition PATH_MAX :: nat where "PATH_MAX = 4096"

definition snprintf_name :: "string \<Rightarrow> string" where
  "snprintf_name s = take (PATH_MAX - 1) s"

definition slash_join :: "string \<Rightarrow> string \<Rightarrow> string" where
  "slash_join path name = path @ (if last path = CHR ''/'' then [] else ''/'') @ name"

definition entry_type :: "dtb_env \<Rightarrow> string \<Rightarrow> string \<times> d_type \<Rightarrow> d_type" where
  "entry_type e path = (\<lambda>(name, ty).
     if ty = DT_UNKNOWN then
       (case stat e (snprintf_name (slash_join path name)) of
          Some (DT_REG, _) \<Rightarrow> DT_REG
        | Some (DT_DIR, _) \<Rightarrow> DT_DIR
        | _ \<Rightarrow> ty)
     else ty)"

definition is_dtb :: "string \<Rightarrow> bool" where
  "is_dtb name \<longleftrightarrow> length name > 4 \<and> drop (length name - 4) name = ''.dtb''"

record scan_state =
  cm :: chip_mem
  version :: u32

partial_function (option) add_chain :: "ptr \<Rightarrow> int \<Rightarrow> chip_mem \<Rightarrow> (int \<times> chip_mem) option" where
  "add_chain t_chip dtb_count m =
     (if t_chip = NULL then Some (dtb_count, m)
      else do {
        (rc, m1) \<leftarrow> chip_add t_chip m;
        tt \<leftarrow> rd (chips m1) t_chip;
        add_chain (t_next tt) (if rc = RC_SUCCESS then dtb_count + 1 else dtb_count) m1 })"

definition padded_size :: "dtb_conf \<Rightarrow> int \<Rightarrow> int" where
  "padded_size g n = n + (page_size g - n mod page_size g)"

text \<open>A regular file whose name ends in \<^verbatim>\<open>.dtb\<close>: the change of the count and the new state.\<close>

definition scan_file :: "dtb_env \<Rightarrow> dtb_conf \<Rightarrow> string \<Rightarrow> scan_state \<Rightarrow> (int \<times> scan_state) option" where
  "scan_file e g filename s =
     (let msmversion = GetVersionInfo e g filename;
          s1 = (if version s < msmversion then s\<lparr>version := msmversion\<rparr> else s)
      in do {
        (chip, m1) \<leftarrow> getChipInfo e g filename msmversion (cm s1);
        let s2 = s1\<lparr>cm := m1\<rparr>;
        if chip = NULL then Some (0, s2)
        else case stat e filename of
          None \<Rightarrow> Some (0, s2)
        | Some (_, sz) \<Rightarrow>
            if sz = 0 then Some (0, s2)
            else do {
              (rc, m2) \<leftarrow> chip_add chip m1;
              if rc \<noteq> RC_SUCCESS then Some (0, s2\<lparr>cm := m2\<rparr>)
              else do {
                cs \<leftarrow> upd (chips m2) chip (\<lambda>c. c\<lparr>dtb_size := word_of_int (padded_size g (int sz)), dtb_file := Some filename\<rparr>);
                cc \<leftarrow> rd cs chip;
                (n, m3) \<leftarrow> add_chain (t_next cc) 1 (m2\<lparr>chips := cs\<rparr>);
                Some (n, s2\<lparr>cm := m3\<rparr>) } } })"

text \<open>
  The recursion over directories follows the file system, so it carries a fuel; running out is
  \<open>None\<close>. \<^verbatim>\<open>opendir\<close> fails on the empty path.
\<close>

function (sequential)
  find_dtb :: "dtb_env \<Rightarrow> dtb_conf \<Rightarrow> nat \<Rightarrow> string \<Rightarrow> scan_state \<Rightarrow> (int \<times> scan_state) option"
  and read_dir :: "dtb_env \<Rightarrow> dtb_conf \<Rightarrow> nat \<Rightarrow> string \<Rightarrow> (string \<times> d_type) list \<Rightarrow> int \<Rightarrow> scan_state \<Rightarrow> (int \<times> scan_state) option"
where
  "find_dtb e g 0 path s = None"
| "find_dtb e g (Suc n) path s =
     (case (if path = [] then None else opendir e path) of
        None \<Rightarrow> Some (RC_ERROR, s)
      | Some es \<Rightarrow> read_dir e g n path es 0 s)"
| "read_dir e g n path [] dtb_count s = Some (dtb_count, s)"
| "read_dir e g n path (d # ds) dtb_count s =
     (case entry_type e path d of
        DT_DIR \<Rightarrow>
          if fst d \<noteq> [] \<and> hd (fst d) = CHR ''.'' then read_dir e g n path ds dtb_count s
          else do {
            (k, s1) \<leftarrow> find_dtb e g n (snprintf_name (slash_join path (fst d @ ''/''))) s;
            read_dir e g n path ds (dtb_count + k) s1 }
      | DT_REG \<Rightarrow>
          if is_dtb (fst d) then do {
            (k, s1) \<leftarrow> scan_file e g (path @ fst d) s;
            read_dir e g n path ds (dtb_count + k) s1 }
          else read_dir e g n path ds dtb_count s
      | _ \<Rightarrow> read_dir e g n path ds dtb_count s)"
  by pat_completeness auto

termination
  by (relation "measures [\<lambda>x. case x of Inl (e, g, n, path, s) \<Rightarrow> n | Inr (e, g, n, path, es, k, s) \<Rightarrow> n,
        \<lambda>x. case x of Inl (e, g, n, path, s) \<Rightarrow> 0 | Inr (e, g, n, path, es, k, s) \<Rightarrow> Suc (length es)]") auto

subsection \<open>Allocation\<close>

definition brk_ok :: "chip_mem \<Rightarrow> bool" where
  "brk_ok m \<longleftrightarrow> chip_brk m \<noteq> NULL \<and> (\<forall>a. chip_brk m \<le> a \<longrightarrow> chips m a = None)"

text \<open>The chain of records through \<^verbatim>\<open>t_next\<close>.\<close>

fun tchain :: "chip_mem \<Rightarrow> ptr \<Rightarrow> ptr list \<Rightarrow> bool" where
  "tchain m p [] \<longleftrightarrow> p = NULL"
| "tchain m p (a # as) \<longleftrightarrow> p = a \<and> a \<noteq> NULL \<and> (\<exists>c. chips m a = Some c \<and> tchain m (t_next c) as)"

lemma tchain_cong:
  "(\<And>a. a \<in> set as \<Longrightarrow> map_option t_next (chips m' a) = map_option t_next (chips m a)) \<Longrightarrow> tchain m' p as = tchain m p as"
proof (induction as arbitrary: p)
  case (Cons a as)
  from Cons.prems [of a] have "map_option t_next (chips m' a) = map_option t_next (chips m a)" by simp
  with Cons show ?case by (cases "chips m a"; cases "chips m' a") auto
qed simp

text \<open>The records of a file after \<open>cs\<close> have been allocated from address \<open>b\<close> on.\<close>

definition allocated :: "chip_mem \<Rightarrow> (ptr \<Rightarrow> chipInfo_t) list \<Rightarrow> chip_mem \<Rightarrow> bool" where
  "allocated m cs m' \<longleftrightarrow>
     chip_brk m' = chip_brk m + length cs \<and> chip_list m' = chip_list m \<and>
     (\<forall>a. a < chip_brk m \<longrightarrow> chips m' a = chips m a) \<and>
     (\<forall>a. chip_brk m' \<le> a \<longrightarrow> chips m' a = None) \<and>
     (\<forall>i<length cs. \<exists>t. chips m' (chip_brk m + i) = Some (((cs ! i) (chip_brk m + i))\<lparr>t_next := t, master := chip_brk m\<rparr>)) \<and>
     tchain m' (chip_brk m) (chip_brk m # rev [Suc (chip_brk m)..<chip_brk m + length cs])"

lemma new_chips_snoc: "new_chips (cs @ [c]) st = do { st1 \<leftarrow> new_chips cs st; new_chip c st1 }"
proof (induction cs arbitrary: st)
  case Nil
  then show ?case by (cases "new_chip c st") auto
next
  case (Cons a cs)
  then show ?case by (cases "new_chip a st") auto
qed

lemma new_chip_first:
  assumes "brk_ok m"
  shows "\<exists>m'. new_chip c (NULL, m) = Some (chip_brk m, m') \<and> allocated m [c] m'"
  using assms by (auto simp: new_chip_def allocated_def brk_ok_def Let_def)

lemma new_chip_more:
  assumes ok: "brk_ok m" and cs: "cs \<noteq> []" and al: "allocated m cs m1"
  shows "\<exists>m2. new_chip c (chip_brk m, m1) = Some (chip_brk m, m2) \<and> allocated m (cs @ [c]) m2"
proof -
  let ?b = "chip_brk m" and ?n = "length cs"
  let ?t = "?b + ?n"
  have b: "?b \<noteq> NULL" using ok by (simp add: brk_ok_def)
  have brk: "chip_brk m1 = ?t" and ne: "0 < ?n" using al cs by (auto simp: allocated_def)
  have at: "\<forall>i<?n. \<exists>t. chips m1 (?b + i) = Some (((cs ! i) (?b + i))\<lparr>t_next := t, master := ?b\<rparr>)"
    and chain: "tchain m1 ?b (?b # rev [Suc ?b..<?t])"
    using al by (auto simp: allocated_def)
  obtain cc where cc: "chips m1 ?b = Some cc" "tchain m1 (t_next cc) (rev [Suc ?b..<?t])"
    using chain by auto
  define new where "new = (c ?t)\<lparr>t_next := t_next cc, master := ?b\<rparr>"
  define m2 where "m2 = m1\<lparr>chip_brk := Suc ?t, chips := (chips m1)(?t \<mapsto> new, ?b \<mapsto> cc\<lparr>t_next := ?t\<rparr>)\<rparr>"
  have tb: "?t \<noteq> ?b" using ne by simp
  have run: "new_chip c (?b, m1) = Some (?b, m2)"
    using b cc tb brk by (simp add: new_chip_def Let_def m2_def new_def fun_upd_twist)
  have "tchain m2 (t_next cc) (rev [Suc ?b..<?t]) = tchain m1 (t_next cc) (rev [Suc ?b..<?t])"
    by (rule tchain_cong) (auto simp: m2_def)
  with cc have ch2: "tchain m2 ?t (?t # rev [Suc ?b..<?t])" using tb b by (simp add: m2_def new_def)
  have up: "rev [Suc ?b..<?b + length (cs @ [c])] = ?t # rev [Suc ?b..<?t]"
    using ne by (simp add: upt_Suc_append Suc_le_eq)
  have "tchain m2 ?b (?b # rev [Suc ?b..<?b + length (cs @ [c])])"
    unfolding up using b ch2 by (simp add: m2_def)
  moreover have "\<exists>t. chips m2 (?b + i) = Some ((((cs @ [c]) ! i) (?b + i))\<lparr>t_next := t, master := ?b\<rparr>)"
    if "i < length (cs @ [c])" for i
  proof (cases "i = ?n")
    case True
    then show ?thesis using ne by (auto simp: m2_def new_def)
  next
    case False
    with that have i: "i < ?n" by simp
    then obtain t where t: "chips m1 (?b + i) = Some (((cs ! i) (?b + i))\<lparr>t_next := t, master := ?b\<rparr>)" using at by blast
    show ?thesis
    proof (cases "i = 0")
      case True
      then have "cc = ((cs ! i) (?b + i))\<lparr>t_next := t, master := ?b\<rparr>" using t cc by simp
      then show ?thesis
        using True i by (intro exI [of _ ?t]) (auto simp: m2_def nth_append intro!: chipInfo_t.equality)
    next
      case False
      then show ?thesis using t i by (auto simp: m2_def nth_append)
    qed
  qed
  moreover have "chip_brk m2 = ?b + length (cs @ [c])" "chip_list m2 = chip_list m"
    "\<forall>a. a < ?b \<longrightarrow> chips m2 a = chips m a" "\<forall>a. chip_brk m2 \<le> a \<longrightarrow> chips m2 a = None"
    using al ne by (auto simp: allocated_def m2_def)
  ultimately have "allocated m (cs @ [c]) m2" unfolding allocated_def by blast
  with run show ?thesis by blast
qed

lemma new_chips_allocated:
  assumes "brk_ok m" and "cs \<noteq> []"
  shows "\<exists>m'. new_chips cs (NULL, m) = Some (chip_brk m, m') \<and> allocated m cs m'"
  using assms(2)
proof (induction cs rule: rev_induct)
  case (snoc c cs)
  show ?case
  proof (cases "cs = []")
    case True
    then show ?thesis using new_chip_first [OF assms(1), of c] new_chips_snoc [of "[]" c] by auto
  next
    case False
    with snoc obtain m1 where m1: "new_chips cs (NULL, m) = Some (chip_brk m, m1)" "allocated m cs m1" by blast
    with new_chip_more [OF assms(1) False m1(2), of c] show ?thesis by (auto simp: new_chips_snoc)
  qed
qed simp

subsection \<open>The invariant of the scan\<close>

definition chip_ok :: "chip_mem \<Rightarrow> ptr list \<Rightarrow> bool" where
  "chip_ok m as \<longleftrightarrow> chip_links m as \<and> chip_order (map (\<lambda>a. the (info m a)) as)"

lemma chip_ok_rep: "chip_ok m as \<Longrightarrow> chip_rep m as (map (\<lambda>a. the (info m a)) as)"
  unfolding chip_ok_def chip_rep_def using chip_links_live [of m as] by (auto simp: info_def)

lemma chip_rep_ok:
  assumes "chip_rep m as xs" and "chip_order xs"
  shows "chip_ok m as"
proof -
  have "map (\<lambda>a. the (info m a)) as = map the (map (info m) as)" by simp
  also have "\<dots> = xs" using assms(1) unfolding chip_rep_def by (auto simp: comp_def)
  finally show ?thesis using assms by (simp add: chip_ok_def chip_rep_def)
qed

lemma chip_ok_add:
  assumes ok: "chip_ok m as" and c: "chips m c = Some cc" "c \<noteq> NULL" "c \<notin> set as"
  shows "chip_add c m = Some (RC_ERROR, m) \<or>
    (\<exists>m' as'. chip_add c m = Some (RC_SUCCESS, m') \<and> chip_ok m' as' \<and> set as' = insert c (set as) \<and>
       length as' = Suc (length as) \<and> info m' = info m \<and> chip_brk m' = chip_brk m)"
proof -
  let ?xs = "map (\<lambda>a. the (info m a)) as"
  note rep = chip_ok_rep [OF ok]
  have ord: "chip_order ?xs" using ok by (simp add: chip_ok_def)
  show ?thesis
  proof (cases "chip_insert (unlinked cc) ?xs")
    case None
    with chip_add_rep [OF rep ord c] show ?thesis by simp
  next
    case (Some ys)
    with chip_add_rep [OF rep ord c] obtain m' as' where m': "chip_add c m = Some (RC_SUCCESS, m')"
      "chip_rep m' as' ys" "chip_order ys" "set as' = insert c (set as)" "info m' = info m" "chip_brk m' = chip_brk m"
      by auto
    have "distinct as" "distinct as'" using ok m'(2) by (auto simp: chip_ok_def chip_rep_def chip_links_def)
    then have "length as' = Suc (length as)" using m'(4) c(3) by (metis distinct_card card_insert_disjoint finite_set)
    with m' chip_rep_ok show ?thesis by blast
  qed
qed

text \<open>Two records that differ only in fields the list does not depend on.\<close>

definition same_place :: "chipInfo_t \<Rightarrow> chipInfo_t \<Rightarrow> bool" where
  "same_place c c' \<longleftrightarrow> c_next c' = c_next c \<and> c_prev c' = c_prev c \<and> chipset c' = chipset c \<and> platform c' = platform c \<and>
     subtype c' = subtype c \<and> revNum c' = revNum c \<and> pmic_model c' = pmic_model c \<and> oppoId c' = oppoId c"

lemma dlseg_same_links:
  "(\<And>a. a \<in> set as \<Longrightarrow> map_option (\<lambda>n. (nx n, pv n)) (m' a) = map_option (\<lambda>n. (nx n, pv n)) (m a)) \<Longrightarrow>
     dlseg nx pv m' p as q = dlseg nx pv m p as q"
proof (induction as arbitrary: p)
  case (Cons a as)
  from Cons.prems [of a] have "map_option (\<lambda>n. (nx n, pv n)) (m' a) = map_option (\<lambda>n. (nx n, pv n)) (m a)" by simp
  with Cons show ?case by (cases "m a"; cases "m' a") auto
qed simp

lemma chip_ok_payload:
  assumes ok: "chip_ok m as" and c: "chips m b = Some c" and same: "same_place c c'"
  shows "chip_ok (m\<lparr>chips := (chips m)(b \<mapsto> c')\<rparr>) as"
proof -
  let ?m' = "m\<lparr>chips := (chips m)(b \<mapsto> c')\<rparr>"
  have links: "chip_links ?m' as"
    using ok c same dlseg_same_links [of as c_next c_prev "chips ?m'" "chips m" NULL NULL]
    by (auto simp: chip_ok_def chip_links_def same_place_def)
  have b: "chip_before (the (info ?m' x)) (the (info ?m' y)) = chip_before (the (info m x)) (the (info m y))"
    "chip_same (the (info ?m' x)) (the (info ?m' y)) = chip_same (the (info m x)) (the (info m y))" for x y
    using c same by (auto simp: info_def same_place_def chip_before_def chip_same_def)
  show ?thesis
    using ok links unfolding chip_ok_def chip_order_def by (simp add: sorted_wrt_map b)
qed

text \<open>
  A listed record's master is listed too, is its own master, and has the file name and the
  padded size; nothing has been written out yet.
\<close>

definition master_ok :: "dtb_env \<Rightarrow> dtb_conf \<Rightarrow> chip_mem \<Rightarrow> ptr \<Rightarrow> bool" where
  "master_ok e g m b \<longleftrightarrow> (\<exists>mc f ty sz. info m b = Some mc \<and> master mc = b \<and> dtb_file mc = Some f \<and>
     stat e f = Some (ty, sz) \<and> sz \<noteq> 0 \<and> dtb_size mc = word_of_int (padded_size g (int sz)))"

definition new_node :: "chip_mem \<Rightarrow> ptr \<Rightarrow> ptr \<Rightarrow> bool" where
  "new_node m b a \<longleftrightarrow> (\<exists>c. info m a = Some c \<and> master c = b \<and> wroteDtb c = 0 \<and> master_offset c = 0)"

definition list_inv :: "dtb_env \<Rightarrow> dtb_conf \<Rightarrow> chip_mem \<Rightarrow> ptr list \<Rightarrow> bool" where
  "list_inv e g m as \<longleftrightarrow> (\<forall>a\<in>set as. \<exists>b\<in>set as. new_node m b a \<and> master_ok e g m b)"

definition scan_inv :: "dtb_env \<Rightarrow> dtb_conf \<Rightarrow> chip_mem \<Rightarrow> ptr list \<Rightarrow> bool" where
  "scan_inv e g m as \<longleftrightarrow> chip_ok m as \<and> brk_ok m \<and> list_inv e g m as"

lemma brk_ok_info: "info m' = info m \<Longrightarrow> chip_brk m' = chip_brk m \<Longrightarrow> brk_ok m \<Longrightarrow> brk_ok m'"
  unfolding brk_ok_def info_def fun_eq_iff by (metis option.map_disc_iff)

lemma scan_inv_add:
  assumes inv: "scan_inv e g m as" and c: "new_node m b c" "c \<noteq> NULL" "c \<notin> set as" and b: "b \<in> insert c (set as)" "master_ok e g m b"
  shows "chip_add c m = Some (RC_ERROR, m) \<or>
    (\<exists>m' as'. chip_add c m = Some (RC_SUCCESS, m') \<and> scan_inv e g m' as' \<and> set as' = insert c (set as) \<and>
       length as' = Suc (length as) \<and> info m' = info m \<and> chip_brk m' = chip_brk m)"
proof -
  obtain cc where cc: "chips m c = Some cc" using c(1) by (auto simp: new_node_def info_def)
  have ok: "chip_ok m as" using inv by (simp add: scan_inv_def)
  have eqs: "info m' = info m \<Longrightarrow> new_node m' = new_node m" "info m' = info m \<Longrightarrow> master_ok e g m' = master_ok e g m" for m'
    by (auto simp: new_node_def master_ok_def fun_eq_iff)
  from chip_ok_add [OF ok cc c(2,3)] show ?thesis
  proof
    assume "\<exists>m' as'. chip_add c m = Some (RC_SUCCESS, m') \<and> chip_ok m' as' \<and> set as' = insert c (set as) \<and>
       length as' = Suc (length as) \<and> info m' = info m \<and> chip_brk m' = chip_brk m"
    then obtain m' as' where m': "chip_add c m = Some (RC_SUCCESS, m')" "chip_ok m' as'" "set as' = insert c (set as)"
       "length as' = Suc (length as)" "info m' = info m" "chip_brk m' = chip_brk m" by blast
    have "list_inv e g m' as'"
      using inv c(1) b unfolding list_inv_def scan_inv_def eqs [OF m'(5)] m'(3) by auto
    then have "scan_inv e g m' as'" using m' inv brk_ok_info by (auto simp: scan_inv_def)
    with m' show ?thesis by blast
  qed simp
qed

text \<open>Adding the rest of a file's chain.\<close>

lemma tchain_info:
  assumes "info m' = info m"
  shows "tchain m' p as = tchain m p as"
proof (rule tchain_cong)
  fix a
  from assms have "info m' a = info m a" by simp
  then have "map_option t_next (info m' a) = map_option t_next (info m a)" by simp
  then show "map_option t_next (chips m' a) = map_option t_next (chips m a)"
    by (simp add: info_def option.map_comp comp_def)
qed

lemma add_chain_inv:
  assumes "scan_inv e g m as" and "tchain m p ts" and "distinct ts" and "set ts \<inter> set as = {}"
    and "b \<in> set as" and "master_ok e g m b" and "\<forall>t\<in>set ts. new_node m b t"
  shows "\<exists>n m' as'. add_chain p k m = Some (k + int n, m') \<and> scan_inv e g m' as' \<and>
     length as' = length as + n \<and> set as \<subseteq> set as'"
  using assms
proof (induction ts arbitrary: p k m as)
  case Nil
  then have "add_chain p k m = Some (k + int 0, m)" by (simp add: add_chain.simps)
  with Nil.prems(1) show ?case by (intro exI [of _ 0] exI [of _ m] exI [of _ as]) simp
next
  case (Cons t ts)
  then obtain c where t: "p = t" "t \<noteq> NULL" "chips m t = Some c" "tchain m (t_next c) ts" by auto
  have nn: "new_node m b t" "t \<notin> set as" "t \<notin> set ts" "b \<in> insert t (set as)" using Cons.prems by auto
  from scan_inv_add [OF Cons.prems(1) nn(1) t(2) nn(2,4) Cons.prems(6)] show ?case
  proof
    assume "chip_add t m = Some (RC_ERROR, m)"
    then have "add_chain p k m = add_chain (t_next c) k m"
      using t by (subst add_chain.simps) (simp add: RC_ERROR_def RC_SUCCESS_def)
    moreover have "\<exists>n m' as'. add_chain (t_next c) k m = Some (k + int n, m') \<and> scan_inv e g m' as' \<and>
       length as' = length as + n \<and> set as \<subseteq> set as'"
      using Cons.prems t by (intro Cons.IH) auto
    ultimately show ?thesis by simp
  next
    assume "\<exists>m' as'. chip_add t m = Some (RC_SUCCESS, m') \<and> scan_inv e g m' as' \<and> set as' = insert t (set as) \<and>
       length as' = Suc (length as) \<and> info m' = info m \<and> chip_brk m' = chip_brk m"
    then obtain m1 as1 where m1: "chip_add t m = Some (RC_SUCCESS, m1)" "scan_inv e g m1 as1"
       "set as1 = insert t (set as)" "length as1 = Suc (length as)" "info m1 = info m" by blast
    from m1(5) have "info m1 t = info m t" by simp
    with t obtain c1 where c1: "chips m1 t = Some c1" "unlinked c1 = unlinked c" by (auto simp: info_def)
    then have tn: "t_next c1 = t_next c" by (metis unlinked_sel(12))
    have "add_chain p k m = add_chain (t_next c) (k + 1) m1"
      using t m1 c1 tn by (subst add_chain.simps) simp
    moreover have "\<exists>n m' as'. add_chain (t_next c) (k + 1) m1 = Some (k + 1 + int n, m') \<and> scan_inv e g m' as' \<and>
       length as' = length as1 + n \<and> set as1 \<subseteq> set as'"
    proof (rule Cons.IH)
      show "tchain m1 (t_next c) ts" using t tchain_info [OF m1(5)] by simp
      show "master_ok e g m1 b" "\<forall>t\<in>set ts. new_node m1 b t"
        using Cons.prems(6,7) m1(5) by (auto simp: master_ok_def new_node_def)
    qed (use Cons.prems m1 nn in auto)
    then obtain n m' as' where "add_chain (t_next c) (k + 1) m1 = Some (k + 1 + int n, m')" "scan_inv e g m' as'"
       "length as' = length as1 + n" "set as1 \<subseteq> set as'" by blast
    ultimately show ?thesis
      using m1 by (intro exI [of _ "Suc n"] exI [of _ m'] exI [of _ as']) auto
  qed
qed

subsection \<open>One file\<close>

lemma chip_contents_fresh:
  "c \<in> set (chip_contents e g v ls) \<Longrightarrow> wroteDtb (c a) = 0 \<and> master_offset (c a) = 0"
  by (auto simp: chip_contents_def chip_v1_def chip_v2_def chip_v3_def blank_chip_def Let_def
      split: if_splits option.splits)

lemma chip_links_below_brk: "brk_ok m \<Longrightarrow> chip_links m as \<Longrightarrow> a \<in> set as \<Longrightarrow> a < chip_brk m"
  using chip_links_live [of m as a] unfolding brk_ok_def by (metis not_le option.distinct(1))

lemma scan_inv_allocated:
  assumes inv: "scan_inv e g m as" and al: "allocated m cs m1"
  shows "scan_inv e g m1 as"
proof -
  have same: "chips m1 a = chips m a" if "a \<in> set as" for a
    using al chip_links_below_brk [of m as a] inv that by (auto simp: scan_inv_def chip_ok_def allocated_def)
  then have inf: "info m1 a = info m a" if "a \<in> set as" for a using that by (simp add: info_def)
  have "dlseg c_next c_prev (chips m1) NULL as NULL = dlseg c_next c_prev (chips m) NULL as NULL"
    by (rule dlseg_cong) (rule same)
  moreover have mp: "map (\<lambda>a. the (info m1 a)) as = map (\<lambda>a. the (info m a)) as" using inf by simp
  ultimately have "chip_ok m1 as" using inv al unfolding chip_ok_def mp by (simp add: scan_inv_def chip_ok_def chip_links_def allocated_def)
  moreover have "brk_ok m1" using inv al by (auto simp: scan_inv_def brk_ok_def allocated_def)
  moreover have "list_inv e g m1 as"
    using inv inf unfolding scan_inv_def list_inv_def by (auto simp: new_node_def master_ok_def)
  ultimately show ?thesis by (simp add: scan_inv_def)
qed

text \<open>Entering a master: it joins the list before its file name and size are set.\<close>

lemma scan_inv_master:
  assumes inv: "scan_inv e g m as" and b: "chips m b = Some c" "b \<noteq> NULL" "b \<notin> set as"
    and c: "master c = b" "wroteDtb c = 0" "master_offset c = 0"
    and st: "stat e f = Some (ty, sz)" "sz \<noteq> 0"
  defines "c' \<equiv> \<lambda>x. x\<lparr>dtb_size := word_of_int (padded_size g (int sz)), dtb_file := Some f\<rparr>"
  shows "chip_add b m = Some (RC_ERROR, m) \<or>
    (\<exists>m2 cb as2. chip_add b m = Some (RC_SUCCESS, m2) \<and> chips m2 b = Some cb \<and> unlinked cb = unlinked c \<and>
       info m2 = info m \<and> chip_brk m2 = chip_brk m \<and>
       scan_inv e g (m2\<lparr>chips := (chips m2)(b \<mapsto> c' cb)\<rparr>) as2 \<and>
       set as2 = insert b (set as) \<and> length as2 = Suc (length as) \<and>
       master_ok e g (m2\<lparr>chips := (chips m2)(b \<mapsto> c' cb)\<rparr>) b)"
proof -
  have ok: "chip_ok m as" using inv by (simp add: scan_inv_def)
  from chip_ok_add [OF ok b] show ?thesis
  proof
    assume "\<exists>m' as'. chip_add b m = Some (RC_SUCCESS, m') \<and> chip_ok m' as' \<and> set as' = insert b (set as) \<and>
       length as' = Suc (length as) \<and> info m' = info m \<and> chip_brk m' = chip_brk m"
    then obtain m2 as2 where m2: "chip_add b m = Some (RC_SUCCESS, m2)" "chip_ok m2 as2" "set as2 = insert b (set as)"
       "length as2 = Suc (length as)" "info m2 = info m" "chip_brk m2 = chip_brk m" by blast
    from m2(5) have "info m2 b = info m b" by simp
    with b obtain cb where cb: "chips m2 b = Some cb" "unlinked cb = unlinked c" by (auto simp: info_def)
    then have cbf: "master cb = b" "wroteDtb cb = 0" "master_offset cb = 0"
      using c unlinked_sel(9,10,11) by metis+
    let ?m3 = "m2\<lparr>chips := (chips m2)(b \<mapsto> c' cb)\<rparr>"
    have "same_place cb (c' cb)" by (simp add: same_place_def c'_def)
    from chip_ok_payload [OF m2(2) cb(1) this] have ok3: "chip_ok ?m3 as2" .
    have mok: "master_ok e g ?m3 b"
      using st cbf by (auto simp: master_ok_def info_def c'_def)
    have inf3: "info ?m3 a = info m a" if "a \<noteq> b" for a using m2(5) that by (simp add: info_def fun_eq_iff)
    have keep: "\<exists>b'\<in>set as2. new_node ?m3 b' a \<and> master_ok e g ?m3 b'" if "a \<in> set as" for a
    proof -
      obtain b' where b': "b' \<in> set as" "new_node m b' a" "master_ok e g m b'"
        using inv \<open>a \<in> set as\<close> unfolding scan_inv_def list_inv_def by blast
      have "a \<noteq> b" "b' \<noteq> b" using that b'(1) b(3) by auto
      with b' inf3 m2(3) show ?thesis by (intro bexI [of _ b']) (auto simp: new_node_def master_ok_def)
    qed
    have "new_node ?m3 b b" using cbf by (auto simp: new_node_def info_def c'_def)
    with keep mok m2(3) have "list_inv e g ?m3 as2" unfolding list_inv_def by auto
    moreover have "brk_ok ?m3"
      using brk_ok_info [OF m2(5,6)] inv cb by (auto simp: scan_inv_def brk_ok_def)
    ultimately have "scan_inv e g ?m3 as2" using ok3 by (simp add: scan_inv_def)
    with m2 cb mok show ?thesis by blast
  qed simp
qed

text \<open>The records just allocated, and the chain behind the master once that is in the list.\<close>

definition fresh_contents :: "(ptr \<Rightarrow> chipInfo_t) list \<Rightarrow> bool" where
  "fresh_contents cs \<longleftrightarrow> (\<forall>c\<in>set cs. \<forall>a. wroteDtb (c a) = 0 \<and> master_offset (c a) = 0)"

lemma allocated_node:
  assumes "allocated m cs m1" and "fresh_contents cs" and "i < length cs"
  obtains c where "chips m1 (chip_brk m + i) = Some c" "master c = chip_brk m" "wroteDtb c = 0" "master_offset c = 0"
proof -
  from assms(1,3) obtain t where
    t: "chips m1 (chip_brk m + i) = Some (((cs ! i) (chip_brk m + i))\<lparr>t_next := t, master := chip_brk m\<rparr>)"
    unfolding allocated_def by blast
  moreover have "cs ! i \<in> set cs" using assms(3) by simp
  ultimately show thesis using assms(2) by (intro that [OF t]) (auto simp: fresh_contents_def)
qed

lemma add_chain_rest:
  fixes m :: chip_mem and b :: ptr
  defines "b \<equiv> chip_brk m"
  assumes al: "allocated m cs m1" and fr: "fresh_contents cs" and m2: "info m2 = info m1" "chips m2 b = Some cb"
    and c': "t_next c' = t_next cb"
    and inv: "scan_inv e g (m2\<lparr>chips := (chips m2)(b \<mapsto> c')\<rparr>) as2" and mok: "master_ok e g (m2\<lparr>chips := (chips m2)(b \<mapsto> c')\<rparr>) b"
    and as2: "b \<in> set as2" "\<forall>a\<in>set as2. a \<le> b"
  shows "\<exists>n m4 as4. add_chain (t_next c') 1 (m2\<lparr>chips := (chips m2)(b \<mapsto> c')\<rparr>) = Some (1 + int n, m4) \<and>
     scan_inv e g m4 as4 \<and> length as4 = length as2 + n"
proof -
  let ?m3 = "m2\<lparr>chips := (chips m2)(b \<mapsto> c')\<rparr>"
  let ?ts = "rev [Suc b..<b + length cs]"
  have "tchain m1 b (b # ?ts)" using al unfolding allocated_def b_def by blast
  then have "tchain m2 b (b # ?ts)" unfolding tchain_info [OF m2(1)] .
  then have ch2: "tchain m2 (t_next cb) ?ts" using m2(2) by simp
  have ch: "tchain ?m3 (t_next c') ?ts"
    using ch2 c' by (subst tchain_cong [of _ _ m2]) auto
  have nn: "\<forall>t\<in>set ?ts. new_node ?m3 b t"
  proof
    fix t assume "t \<in> set ?ts"
    then have i: "t = b + (t - b)" "t \<noteq> b" "t - b < length cs" by auto
    obtain c where c: "chips m1 t = Some c" "master c = b" "wroteDtb c = 0" "master_offset c = 0"
      using allocated_node [OF al fr i(3)] i(1) unfolding b_def by metis
    have "info ?m3 t = info m2 t" using i(2) by (simp add: info_def)
    also have "\<dots> = info m1 t" using m2(1) by simp
    finally show "new_node ?m3 b t" using c by (auto simp: new_node_def info_def [of m1])
  qed
  have "set ?ts \<inter> set as2 = {}" using as2(2) by fastforce
  from add_chain_inv [OF inv ch _ this as2(1) mok nn, of 1] show ?thesis by auto
qed

lemma scan_file_inv:
  assumes inv: "scan_inv e g (cm s) as"
  shows "\<exists>n s' as'. scan_file e g f s = Some (int n, s') \<and> scan_inv e g (cm s') as' \<and> length as' = length as + n"
proof -
  define v where "v = GetVersionInfo e g f"
  define s1 where "s1 = (if version s < v then s\<lparr>version := v\<rparr> else s)"
  define cs where "cs = chip_contents e g v (case popen e (dtc_command g f) of None \<Rightarrow> [] | Some ls \<Rightarrow> ls)"
  have get: "getChipInfo e g f v (cm s1) = new_chips cs (NULL, cm s)" by (simp add: getChipInfo_def cs_def s1_def)
  have none: ?thesis if "scan_file e g f s = Some (0, s1\<lparr>cm := m1\<rparr>)" "scan_inv e g m1 as" for m1
    using that by (intro exI [of _ 0] exI [of _ "s1\<lparr>cm := m1\<rparr>"] exI [of _ as]) simp
  note unf = scan_file_def v_def [symmetric] s1_def [symmetric] Let_def
  show ?thesis
  proof (cases "cs = []")
    case True
    with get inv show ?thesis by (intro none [of "cm s"]) (simp_all add: unf)
  next
    case False
    let ?b = "chip_brk (cm s)"
    have brk: "brk_ok (cm s)" and b0: "?b \<noteq> NULL" using inv by (simp_all add: scan_inv_def brk_ok_def)
    obtain m1 where m1: "new_chips cs (NULL, cm s) = Some (?b, m1)" "allocated (cm s) cs m1"
      using new_chips_allocated [OF brk False] by blast
    note inv1 = scan_inv_allocated [OF inv m1(2)] and g1 = get [unfolded m1(1)]
    have fr: "fresh_contents cs" unfolding fresh_contents_def cs_def using chip_contents_fresh by blast
    have below: "a < ?b" if "a \<in> set as" for a
      using chip_links_below_brk [OF brk _ that] inv by (simp add: scan_inv_def chip_ok_def)
    then have bas: "?b \<notin> set as" by blast
    obtain c where c: "chips m1 ?b = Some c" "master c = ?b" "wroteDtb c = 0" "master_offset c = 0"
      using allocated_node [OF m1(2) fr, of 0] False by auto
    show ?thesis
    proof (cases "\<exists>ty sz. stat e f = Some (ty, sz) \<and> sz \<noteq> 0")
      case False
      then consider "stat e f = None" | ty where "stat e f = Some (ty, 0)" by (cases "stat e f") auto
      then show ?thesis by cases (use g1 b0 inv1 in \<open>auto intro!: none [of m1] simp: unf split: if_splits\<close>)
    next
      case True
      then obtain ty sz where st: "stat e f = Some (ty, sz)" "sz \<noteq> 0" by blast
      let ?c' = "\<lambda>x. x\<lparr>dtb_size := word_of_int (padded_size g (int sz)), dtb_file := Some f\<rparr>"
      from scan_inv_master [OF inv1 c(1) b0 bas c(2-4) st]
      consider "chip_add ?b m1 = Some (RC_ERROR, m1)"
        | m2 cb as2 where "chip_add ?b m1 = Some (RC_SUCCESS, m2)" "chips m2 ?b = Some cb" "info m2 = info m1"
           "scan_inv e g (m2\<lparr>chips := (chips m2)(?b \<mapsto> ?c' cb)\<rparr>) as2"
           "set as2 = insert ?b (set as)" "length as2 = Suc (length as)"
           "master_ok e g (m2\<lparr>chips := (chips m2)(?b \<mapsto> ?c' cb)\<rparr>) ?b"
        by blast
      then show ?thesis
      proof cases
        case 1
        with g1 b0 inv1 st show ?thesis by (intro none [of m1]) (simp_all add: unf RC_ERROR_def RC_SUCCESS_def)
      next
        case 2
        have "\<forall>a\<in>set as2. a \<le> ?b" using below 2(5) by fastforce
        then obtain n m4 as4 where n: "add_chain (t_next (?c' cb)) 1 (m2\<lparr>chips := (chips m2)(?b \<mapsto> ?c' cb)\<rparr>) = Some (1 + int n, m4)"
          "scan_inv e g m4 as4" "length as4 = length as2 + n"
          using add_chain_rest [OF m1(2) fr 2(3,2) _ 2(4,7)] 2(5) by auto
        have "scan_file e g f s = Some (int (Suc n), s1\<lparr>cm := m4\<rparr>)"
          using g1 b0 st 2(1,2) n(1) by (simp add: unf)
        with n 2(6) show ?thesis by (intro exI [of _ "Suc n"] exI [of _ "s1\<lparr>cm := m4\<rparr>"] exI [of _ as4]) simp
      qed
    qed
  qed
qed

subsection \<open>The whole search\<close>

text \<open>
  What a part of the search does: the list grows, the returned count is at most the number of
  entries added, and equal to it when every directory can be opened.
\<close>

definition opens_all :: "dtb_env \<Rightarrow> bool" where
  "opens_all e \<longleftrightarrow> (\<forall>p. p \<noteq> [] \<longrightarrow> opendir e p \<noteq> None)"

definition grown :: "dtb_env \<Rightarrow> dtb_conf \<Rightarrow> ptr list \<Rightarrow> int \<Rightarrow> scan_state \<Rightarrow> ptr list \<Rightarrow> bool" where
  "grown e g as k s' as' \<longleftrightarrow> scan_inv e g (cm s') as' \<and> length as \<le> length as' \<and>
     k \<le> int (length as') - int (length as) \<and> (opens_all e \<longrightarrow> k = int (length as') - int (length as))"

lemma grown_refl: "scan_inv e g (cm s) as \<Longrightarrow> grown e g as 0 s as"
  by (simp add: grown_def)

lemma grown_trans: "grown e g as k1 s1 as1 \<Longrightarrow> grown e g as1 k2 s2 as2 \<Longrightarrow> grown e g as (k1 + k2) s2 as2"
  by (auto simp: grown_def)

lemma grown_inv: "grown e g as k s as' \<Longrightarrow> scan_inv e g (cm s) as'"
  by (simp add: grown_def)

lemma scan_file_grown:
  assumes "scan_file e g f s = Some (k, s')" and "scan_inv e g (cm s) as"
  shows "\<exists>as'. grown e g as k s' as'"
  using scan_file_inv [OF assms(2), of f] assms(1) by (auto simp: grown_def)

lemma subdir_nonempty: "snprintf_name (slash_join path (name @ ''/'')) \<noteq> []"
  by (simp add: snprintf_name_def slash_join_def PATH_MAX_def)

lemma find_dtb_grown:
  "find_dtb e g n path s = Some (k, s') \<Longrightarrow> scan_inv e g (cm s) as \<Longrightarrow> path \<noteq> [] \<Longrightarrow> \<exists>as'. grown e g as k s' as'"
  "read_dir e g n path es k0 s = Some (k, s') \<Longrightarrow> scan_inv e g (cm s) as \<Longrightarrow> \<exists>as'. grown e g as (k - k0) s' as'"
proof (induction e g n path s and e g n path es k0 s arbitrary: k s' as and k s' as rule: find_dtb_read_dir.induct)
  case (1 e g path s)
  then show ?case by simp
next
  case (2 e g n path s)
  show ?case
  proof (cases "if path = [] then None else opendir e path")
    case None
    with 2(2,3,4) have "k = RC_ERROR" "s' = s" "\<not> opens_all e" by (auto simp: opens_all_def)
    with 2(3) show ?thesis by (intro exI [of _ as]) (auto simp: grown_def RC_ERROR_def)
  next
    case (Some es)
    with 2(1) [OF Some _ 2(3), of k s'] 2(2) show ?thesis by simp
  qed
next
  case (3 e g n path k s)
  then show ?case by (auto intro: grown_refl)
next
  case (4 e g n path d ds k0 s)
  have comb: ?case if a1: "\<exists>as1. grown e g as k1 s1 as1" and a2: "\<And>as1. scan_inv e g (cm s1) as1 \<Longrightarrow> \<exists>as'. grown e g as1 (k - (k0 + k1)) s' as'"
    for k1 s1
  proof -
    obtain as1 as' where "grown e g as k1 s1 as1" "grown e g as1 (k - (k0 + k1)) s' as'" using a1 a2 grown_inv by blast
    from grown_trans [OF this] show ?thesis by auto
  qed
  show ?case
  proof (cases "entry_type e path d")
    case DT_REG
    show ?thesis
    proof (cases "is_dtb (fst d)")
      case True
      with 4(8) DT_REG obtain k1 s1 where f: "scan_file e g (path @ fst d) s = Some (k1, s1)"
        and r: "read_dir e g n path ds (k0 + k1) s1 = Some (k, s')" by (auto simp: bind_eq_Some_conv)
      show ?thesis
        by (rule comb [of k1 s1]) (use scan_file_grown [OF f 4(9)] 4(1) [OF DT_REG True f refl r] in auto)
    qed (use 4(2,8,9) DT_REG in auto)
  next
    case DT_DIR
    show ?thesis
    proof (cases "fst d \<noteq> [] \<and> hd (fst d) = CHR ''.''")
      case False
      with 4(8) DT_DIR obtain k1 s1 where
        f: "find_dtb e g n (snprintf_name (slash_join path (fst d @ ''/''))) s = Some (k1, s1)"
        and r: "read_dir e g n path ds (k0 + k1) s1 = Some (k, s')" by (auto simp: bind_eq_Some_conv)
      show ?thesis
        by (rule comb [of k1 s1])
          (use 4(4) [OF DT_DIR False f 4(9) subdir_nonempty] 4(5) [OF DT_DIR False f refl r] in auto)
    qed (use 4(3,8,9) DT_DIR in auto)
  qed (use 4(6,7,8,9) in auto)
qed

text \<open>
  Termination: when the directories have a rank that strictly drops from a directory to the
  subdirectories the search enters (their depth in a finite tree), the fuel of the rank is enough.
\<close>

definition ranked :: "dtb_env \<Rightarrow> (string \<Rightarrow> nat) \<Rightarrow> bool" where
  "ranked e rank \<longleftrightarrow> (\<forall>path es d. opendir e path = Some es \<longrightarrow> d \<in> set es \<longrightarrow> entry_type e path d = DT_DIR \<longrightarrow>
     \<not> (fst d \<noteq> [] \<and> hd (fst d) = CHR ''.'') \<longrightarrow> rank (snprintf_name (slash_join path (fst d @ ''/''))) < rank path)"

lemma scan_file_total:
  "scan_inv e g (cm s) as \<Longrightarrow> \<exists>k s' as'. scan_file e g f s = Some (k, s') \<and> scan_inv e g (cm s') as'"
  using scan_file_inv by blast

lemma find_dtb_total:
  "ranked e rank \<Longrightarrow> rank path < n \<Longrightarrow> path \<noteq> [] \<Longrightarrow> scan_inv e g (cm s) as \<Longrightarrow> \<exists>r. find_dtb e g n path s = Some r"
  "ranked e rank \<Longrightarrow>
     \<forall>d\<in>set es. entry_type e path d = DT_DIR \<longrightarrow> \<not> (fst d \<noteq> [] \<and> hd (fst d) = CHR ''.'') \<longrightarrow>
       rank (snprintf_name (slash_join path (fst d @ ''/''))) < n \<Longrightarrow>
     scan_inv e g (cm s) as \<Longrightarrow> \<exists>r. read_dir e g n path es k0 s = Some r"
proof (induction e g n path s and e g n path es k0 s arbitrary: as and as rule: find_dtb_read_dir.induct)
  case (1 e g path s)
  then show ?case by simp
next
  case (2 e g n path s)
  show ?case
  proof (cases "if path = [] then None else opendir e path")
    case (Some es)
    then have es: "opendir e path = Some es" by (simp split: if_splits)
    have "\<forall>d\<in>set es. entry_type e path d = DT_DIR \<longrightarrow> \<not> (fst d \<noteq> [] \<and> hd (fst d) = CHR ''.'') \<longrightarrow>
       rank (snprintf_name (slash_join path (fst d @ ''/''))) < n"
    proof (intro ballI impI)
      fix d assume "d \<in> set es" "entry_type e path d = DT_DIR" "\<not> (fst d \<noteq> [] \<and> hd (fst d) = CHR ''.'')"
      with 2(2) es have "rank (snprintf_name (slash_join path (fst d @ ''/''))) < rank path"
        unfolding ranked_def by blast
      with 2(3) show "rank (snprintf_name (slash_join path (fst d @ ''/''))) < n" by simp
    qed
    from 2(1) [OF Some 2(2) this 2(5)] Some show ?thesis by simp
  qed simp
next
  case (3 e g n path k s)
  then show ?case by simp
next
  case (4 e g n path d ds k0 s)
  have ds: "\<forall>d\<in>set ds. entry_type e path d = DT_DIR \<longrightarrow> \<not> (fst d \<noteq> [] \<and> hd (fst d) = CHR ''.'') \<longrightarrow>
       rank (snprintf_name (slash_join path (fst d @ ''/''))) < n" using 4(9) by simp
  show ?case
  proof (cases "entry_type e path d")
    case DT_REG
    show ?thesis
    proof (cases "is_dtb (fst d)")
      case True
      obtain k1 s1 as1 where f: "scan_file e g (path @ fst d) s = Some (k1, s1)" "scan_inv e g (cm s1) as1"
        using scan_file_total [OF 4(10)] by blast
      with 4(1) [OF DT_REG True f(1) refl 4(8) ds f(2)] DT_REG True show ?thesis by simp
    next
      case False
      with 4(2) [OF DT_REG False 4(8) ds 4(10)] DT_REG show ?thesis by simp
    qed
  next
    case DT_DIR
    show ?thesis
    proof (cases "fst d \<noteq> [] \<and> hd (fst d) = CHR ''.''")
      case True
      with 4(3) [OF DT_DIR True 4(8) ds 4(10)] DT_DIR show ?thesis by simp
    next
      case False
      let ?sub = "snprintf_name (slash_join path (fst d @ ''/''))"
      have "rank ?sub < n" using bspec [OF 4(9) list.set_intros(1)] DT_DIR False by blast
      from 4(4) [OF DT_DIR False 4(8) this subdir_nonempty 4(10)] obtain k1 s1 where f: "find_dtb e g n ?sub s = Some (k1, s1)"
        by auto
      obtain as1 where "scan_inv e g (cm s1) as1"
        using find_dtb_grown(1) [OF f 4(10) subdir_nonempty] grown_inv by blast
      from 4(5) [OF DT_DIR False f refl 4(8) ds this] f DT_DIR False show ?thesis by auto
    qed
  next
    case DT_UNKNOWN
    with 4(6) [OF DT_UNKNOWN 4(8) ds 4(10)] show ?thesis by simp
  next
    case DT_OTHER
    with 4(7) [OF DT_OTHER 4(8) ds 4(10)] show ?thesis by simp
  qed
qed

text \<open>A file that is scanned raises the version to at least 1.\<close>

lemma version_loop_pos: "v \<noteq> 0 \<Longrightarrow> version_loop ls v \<noteq> 0"
  by (induction ls v rule: version_loop.induct) (auto simp: Let_def)

lemma scan_file_version:
  assumes "scan_file e g f s = Some (k, s')"
  shows "version s' \<noteq> 0"
proof -
  define v where "v = GetVersionInfo e g f"
  have v: "v \<noteq> 0" unfolding v_def GetVersionInfo_def using version_loop_pos [of 1] by (simp split: option.split)
  define s1 where "s1 = (if version s < v then s\<lparr>version := v\<rparr> else s)"
  have "version s1 \<noteq> 0" using v by (auto simp: s1_def word_gt_0)
  moreover have "version s' = version s1"
    using assms unfolding scan_file_def v_def [symmetric] s1_def [symmetric] Let_def
    by (auto simp: bind_eq_Some_conv split: if_splits option.splits prod.splits)
  ultimately show ?thesis by simp
qed

lemma find_dtb_version:
  "find_dtb e g n path s = Some (k, s') \<Longrightarrow> version s' = 0 \<Longrightarrow> s' = s"
  "read_dir e g n path es k0 s = Some (k, s') \<Longrightarrow> version s' = 0 \<Longrightarrow> s' = s"
proof (induction e g n path s and e g n path es k0 s arbitrary: k s' and k s' rule: find_dtb_read_dir.induct)
  case (2 e g n path s)
  then show ?case by (auto split: option.splits)
next
  case (4 e g n path d ds k0 s)
  show ?case
  proof (cases "entry_type e path d")
    case DT_REG
    show ?thesis
    proof (cases "is_dtb (fst d)")
      case True
      with 4(8) DT_REG obtain k1 s1 where f: "scan_file e g (path @ fst d) s = Some (k1, s1)"
        and r: "read_dir e g n path ds (k0 + k1) s1 = Some (k, s')" by (auto simp: bind_eq_Some_conv)
      from 4(1) [OF DT_REG True f refl r 4(9)] 4(9) scan_file_version [OF f] show ?thesis by simp
    qed (use 4(2,8,9) DT_REG in auto)
  next
    case DT_DIR
    show ?thesis
    proof (cases "fst d \<noteq> [] \<and> hd (fst d) = CHR ''.''")
      case False
      with 4(8) DT_DIR obtain k1 s1 where
        f: "find_dtb e g n (snprintf_name (slash_join path (fst d @ ''/''))) s = Some (k1, s1)"
        and r: "read_dir e g n path ds (k0 + k1) s1 = Some (k, s')" by (auto simp: bind_eq_Some_conv)
      from 4(5) [OF DT_DIR False f refl r 4(9)] have s1: "s' = s1" .
      with 4(4) [OF DT_DIR False f] 4(9) show ?thesis by simp
    qed (use 4(3,8,9) DT_DIR in auto)
  qed (use 4(6,7,8,9) in auto)
qed simp_all

subsection \<open>Reading back what dtc prints\<close>

text \<open>\<^verbatim>\<open>dtc\<close> prints a cell list as hexadecimal numbers between angle brackets.\<close>

definition hex_digit :: "nat \<Rightarrow> char" where
  "hex_digit d = ''0123456789abcdef'' ! d"

fun hex :: "nat \<Rightarrow> string" where
  "hex n = (if n < 16 then [hex_digit n] else hex (n div 16) @ [hex_digit (n mod 16)])"

declare hex.simps [simp del]

definition dtc_cell :: "u32 \<Rightarrow> string" where
  "dtc_cell w = ''0x'' @ hex (unat w)"

fun dtc_join :: "string list \<Rightarrow> string" where
  "dtc_join [] = []"
| "dtc_join [w] = w"
| "dtc_join (w # ws) = w @ '' '' @ dtc_join ws"

definition dtc_cells :: "u32 list \<Rightarrow> string" where
  "dtc_cells ws = dtc_join (map dtc_cell ws) @ ''>;'' @ [CHR 0x0A]"

lemma hex_digit_val:
  assumes "d < 16"
  shows "digit_val (hex_digit d) = int d" "\<not> is_delim (hex_digit d)" "hex_digit d \<noteq> CHR ''>''"
proof -
  have "d = 0 \<or> d = 1 \<or> d = 2 \<or> d = 3 \<or> d = 4 \<or> d = 5 \<or> d = 6 \<or> d = 7 \<or> d = 8 \<or> d = 9 \<or> d = 10 \<or>
      d = 11 \<or> d = 12 \<or> d = 13 \<or> d = 14 \<or> d = 15" using assms by arith
  then show "digit_val (hex_digit d) = int d" "\<not> is_delim (hex_digit d)" "hex_digit d \<noteq> CHR ''>''"
    by (elim disjE; simp add: digit_val_def hex_digit_def is_delim_def)+
qed

lemma hex_chars: "\<forall>c\<in>set (hex n). is_digit 16 c \<and> \<not> is_delim c"
proof (induction n rule: hex.induct)
  case (1 n)
  then show ?case by (subst hex.simps) (auto simp: is_digit_def hex_digit_val)
qed

lemma hex_nonempty: "hex n \<noteq> []"
  by (subst hex.simps) simp

lemma hex_value: "foldl (\<lambda>acc c. acc * 16 + digit_val c) 0 (hex n) = int n"
proof (induction n rule: hex.induct)
  case (1 n)
  show ?case
  proof (cases "n < 16")
    case True
    then show ?thesis by (subst hex.simps) (simp add: hex_digit_val)
  next
    case False
    then have "foldl (\<lambda>acc c. acc * 16 + digit_val c) 0 (hex n) = int (n div 16) * 16 + int (n mod 16)"
      using 1 by (subst hex.simps) (simp add: hex_digit_val)
    also have "\<dots> = int n"
      using arg_cong [OF div_mult_mod_eq [of n 16], of int] by (simp only: of_nat_add of_nat_mult of_nat_numeral)
    finally show ?thesis .
  qed
qed

lemma read_digits_hex:
  assumes "rest = [] \<or> \<not> is_digit 16 (hd rest)"
  shows "read_digits 16 (hex n @ rest) = int n"
proof -
  have "takeWhile (is_digit 16) (hex n @ rest) = hex n @ takeWhile (is_digit 16) rest"
    using hex_chars by (simp add: takeWhile_append2)
  also have "takeWhile (is_digit 16) rest = []" using assms by (cases rest) auto
  finally show ?thesis using hex_value by (simp add: read_digits_def)
qed

lemma strtoul0_cell:
  assumes "rest = [] \<or> \<not> is_digit 16 (hd rest)"
  shows "word_of_int (strtoul0 (dtc_cell w @ rest)) = w"
proof -
  obtain c cs where h: "hex (unat w) = c # cs" using hex_nonempty by (cases "hex (unat w)") auto
  then have c: "is_digit 16 c" using hex_chars [of "unat w"] by simp
  have sign: "read_sign (dtc_cell w @ rest) = (False, dtc_cell w @ rest)"
    by (simp add: read_sign_def dtc_cell_def is_space_def)
  have "read_prefixed (dtc_cell w @ rest) = int (unat w)"
    using read_digits_hex [OF assms, of "unat w"] h c by (simp add: dtc_cell_def)
  moreover have "int (unat w) < 2 ^ 64" using uint_lt2p [of w] by simp
  ultimately have "strtoul0 (dtc_cell w @ rest) = int (unat w)"
    by (simp add: strtoul0_def sign)
  then show ?thesis by simp
qed

lemma strtok_one:
  assumes "\<forall>c\<in>set t. \<not> is_delim c" and "t \<noteq> []"
  shows "strtok_all t = [t]"
proof -
  have "dropWhile is_delim t = t" using assms by (cases t) auto
  moreover have "takeWhile (\<lambda>c. \<not> is_delim c) t = t" "dropWhile (\<lambda>c. \<not> is_delim c) t = []"
    using assms(1) by (simp_all add: takeWhile_eq_all_conv dropWhile_eq_Nil_conv)
  moreover have "strtok_all [] = []" by (simp add: strtok_all.simps)
  ultimately show ?thesis
    using assms(2) by (subst strtok_all.simps) (simp del: dropWhile_eq_Nil_conv takeWhile_eq_all_conv)
qed

lemma strtok_more:
  assumes "\<forall>c\<in>set t. \<not> is_delim c" and "t \<noteq> []"
  shows "strtok_all (t @ CHR '' '' # s) = t # strtok_all s"
proof -
  have dw: "dropWhile is_delim (t @ CHR '' '' # s) = t @ CHR '' '' # s" using assms by (cases t) auto
  have tw: "takeWhile (\<lambda>c. \<not> is_delim c) (t @ CHR '' '' # s) = t"
    "dropWhile (\<lambda>c. \<not> is_delim c) (t @ CHR '' '' # s) = CHR '' '' # s"
    using assms(1) by (simp_all add: takeWhile_append2 dropWhile_append2 is_delim_def)
  have "strtok_all (CHR '' '' # s) = strtok_all s"
    by (subst (1 2) strtok_all.simps) (simp add: is_delim_def)
  with dw tw show ?thesis by (subst strtok_all.simps) simp
qed

lemma cell_chars: "\<forall>c\<in>set (dtc_cell w). \<not> is_delim c" "dtc_cell w \<noteq> []" "hd (dtc_cell w) \<noteq> CHR ''>''"
  using hex_chars by (auto simp: dtc_cell_def is_delim_def)

lemma strtok_cells:
  "ws \<noteq> [] \<Longrightarrow> strtok_all (dtc_cells ws) = map dtc_cell (butlast ws) @ [dtc_cell (last ws) @ ''>;'' @ [CHR 0x0A]]"
proof (induction ws rule: induct_list012)
  case (2 w)
  then show ?case
    using strtok_one [of "dtc_cell w @ ''>;'' @ [CHR 0x0A]"] cell_chars by (auto simp: dtc_cells_def is_delim_def)
next
  case (3 w v ws)
  have "dtc_cells (w # v # ws) = dtc_cell w @ CHR '' '' # dtc_cells (v # ws)" by (simp add: dtc_cells_def)
  with 3 strtok_more [OF cell_chars(1,2)] show ?case by simp
qed simp

lemma read_fields_cells:
  assumes "\<forall>t\<in>set toks. hd t \<noteq> CHR ''>''" and "k \<le> length toks"
  shows "read_fields k toks = (map (\<lambda>t. word_of_int (strtoul0 t)) (take k toks), True, drop k toks)"
  using assms
proof (induction k toks rule: read_fields.induct)
  case (3 k t ts)
  then show ?case by simp
qed simp_all

lemma read_entries_tokens:
  "\<forall>t\<in>set toks. hd t \<noteq> CHR ''>'' \<Longrightarrow> 0 < k \<Longrightarrow> map (\<lambda>t. word_of_int (strtoul0 t)) toks = concat vss \<Longrightarrow>
     \<forall>vs\<in>set vss. length vs = k \<Longrightarrow> read_entries k toks = vss"
proof (induction vss arbitrary: toks)
  case Nil
  then obtain k' where "k = Suc k'" by (cases k) auto
  with Nil show ?case by (simp add: read_entries.simps)
next
  case (Cons vs vss)
  have len: "length toks = k + length (concat vss)"
    using Cons.prems(3,4) by (metis concat.simps(2) length_append length_map list.set_intros(1))
  have tk: "map (\<lambda>t. word_of_int (strtoul0 t)) (take k toks) = vs"
    "map (\<lambda>t. word_of_int (strtoul0 t)) (drop k toks) = concat vss"
    using Cons.prems(3,4) by (simp_all add: take_map [symmetric] drop_map [symmetric])
  have "read_entries k (drop k toks) = vss"
    using Cons.prems tk by (intro Cons.IH) (auto dest: in_set_dropD)
  with Cons.prems(1,2) len tk(1) show ?case
    by (subst read_entries.simps) (simp add: read_fields_cells)
qed

subsection \<open>The command line\<close>

definition conf_ok :: "dtb_conf \<Rightarrow> bool" where
  "conf_ok g \<longleftrightarrow> 0 < page_size g \<and> page_size g \<le> PAGE_SIZE_MAX \<and> version_override g \<in> {0, 2, 3}"

lemma conf_ok_upd [simp]:
  "conf_ok (g\<lparr>input_dir := x\<rparr>) = conf_ok g" "conf_ok (g\<lparr>output_file := x\<rparr>) = conf_ok g"
  "conf_ok (g\<lparr>dtc_path := x\<rparr>) = conf_ok g" "conf_ok (g\<lparr>dt_tag := y\<rparr>) = conf_ok g" "conf_ok (g\<lparr>verbose := z\<rparr>) = conf_ok g"
  "conf_ok g \<Longrightarrow> conf_ok (g\<lparr>version_override := 2\<rparr>)" "conf_ok g \<Longrightarrow> conf_ok (g\<lparr>version_override := 3\<rparr>)"
  by (simp_all add: conf_ok_def)

lemma parse_options_ok: "parse_options cs g0 = (RC_SUCCESS, g1) \<Longrightarrow> conf_ok g0 \<Longrightarrow> conf_ok g1"
proof (induction cs arbitrary: g0)
  case (Cons c cs)
  have nz: "(RC_ERROR, x) \<noteq> (RC_SUCCESS, y)" for x y :: dtb_conf by (simp add: RC_ERROR_def RC_SUCCESS_def)
  show ?case
  proof (cases c)
    case (Opt_s a)
    with Cons.prems nz have "parse_options cs (g0\<lparr>page_size := atoi a\<rparr>) = (RC_SUCCESS, g1)" "conf_ok (g0\<lparr>page_size := atoi a\<rparr>)"
      by (auto simp: Let_def conf_ok_def split: if_splits)
    then show ?thesis by (rule Cons.IH)
  qed (use Cons.prems Cons.IH nz in \<open>auto split: if_splits\<close>)
qed simp

lemma parse_commandline_conf_ok:
  assumes "parse_commandline cs dtb_globals = (RC_SUCCESS, g)"
  shows "conf_ok g"
proof -
  obtain rc g1 where p: "parse_options cs dtb_globals = (rc, g1)" by force
  have "conf_ok dtb_globals" by (simp add: conf_ok_def dtb_globals_def PAGE_SIZE_DEF_def PAGE_SIZE_MAX_def)
  with p have "rc = RC_SUCCESS \<Longrightarrow> conf_ok g1" using parse_options_ok by simp
  then show ?thesis
    using assms p unfolding parse_commandline_def by (auto simp: Let_def RC_SUCCESS_def RC_ERROR_def split: if_splits)
qed

subsection \<open>Properties\<close>

text \<open>
  C10. Reading back what \<^verbatim>\<open>dtc\<close> prints: for any list of entries of \<open>k\<close> cells, printed by \<^verbatim>\<open>dtc\<close> as
  hexadecimal cells closed by \<^verbatim>\<open>>;\<close>, the tokenizer and number reader of \<^verbatim>\<open>getChipInfo\<close> give back
  exactly these entries, in order, whatever the 32-bit cell values are.
\<close>

theorem read_entries_roundtrip:
  assumes "0 < k" and "\<forall>vs\<in>set vss. length vs = k"
  shows "read_entries k (strtok_all (dtc_cells (concat vss))) = vss"
proof (cases "concat vss = []")
  case True
  with assms have "vss = []" by (cases vss) auto
  moreover obtain k' where "k = Suc k'" using assms(1) by (cases k) auto
  moreover have "strtok_all (dtc_cells []) = [''>;'' @ [CHR 0x0A]]"
    by (simp add: dtc_cells_def strtok_one is_delim_def)
  ultimately show ?thesis by (simp add: read_entries.simps)
next
  case False
  let ?ws = "concat vss" and ?tl = "''>;'' @ [CHR 0x0A]"
  note toks = strtok_cells [OF False]
  have "map (\<lambda>t. word_of_int (strtoul0 t)) (strtok_all (dtc_cells ?ws)) = butlast ?ws @ [last ?ws]"
    unfolding toks using strtoul0_cell [of "[]"] strtoul0_cell [of ?tl "last ?ws"]
    by (simp add: is_digit_def digit_val_def comp_def)
  then have "map (\<lambda>t. word_of_int (strtoul0 t)) (strtok_all (dtc_cells ?ws)) = concat vss" using False by simp
  moreover have "\<forall>t\<in>set (strtok_all (dtc_cells ?ws)). hd t \<noteq> CHR ''>''"
    unfolding toks using cell_chars by auto
  ultimately show ?thesis using assms by (intro read_entries_tokens) auto
qed

theorem read_entries_roundtrip_witness:
  "read_entries 2 (strtok_all (dtc_cells (concat [[206, 0], [4294967295, 65536]]))) = [[206, 0], [4294967295, 65536]]"
  using read_entries_roundtrip [of 2 "[[206, 0], [4294967295, 65536]]"] by simp

text \<open>
  C5. The search of the input directory: on a file system whose directories are nested finitely
  deep it ends without a memory fault. The chip list it leaves is a well-formed doubly linked list,
  sorted by chipset, platform, subtype and revision and free of duplicate entries; every entry's
  master is an entry too, with the name of an existing non-empty file and its size rounded up to
  whole pages (one page more when it already was a multiple). The count returned is the number of
  entries when every directory can be opened, and never larger.
\<close>

theorem find_dtb_correct:
  assumes "ranked e rank" and "path \<noteq> []" and "chip_brk m \<noteq> NULL" and "chips m = Map.empty" and "chip_list m = NULL"
  shows "\<exists>k s' as. find_dtb e g (Suc (rank path)) path \<lparr>cm = m, version = v\<rparr> = Some (k, s') \<and>
     chip_links (cm s') as \<and> chip_order (map (\<lambda>a. the (info (cm s') a)) as) \<and>
     k \<le> int (length as) \<and> (opens_all e \<longrightarrow> k = int (length as)) \<and>
     (\<forall>a\<in>set as. \<exists>c mc f ty sz. info (cm s') a = Some c \<and> master c \<in> set as \<and> info (cm s') (master c) = Some mc \<and>
        dtb_file mc = Some f \<and> stat e f = Some (ty, sz) \<and> sz \<noteq> 0 \<and>
        dtb_size mc = word_of_int (padded_size g (int sz)))"
proof -
  let ?s = "\<lparr>cm = m, version = v\<rparr>"
  have inv0: "scan_inv e g (cm ?s) []"
    using assms by (simp add: scan_inv_def chip_ok_def chip_links_def chip_order_def brk_ok_def list_inv_def)
  from find_dtb_total(1) [OF assms(1) lessI assms(2) inv0]
  obtain k s' where run: "find_dtb e g (Suc (rank path)) path ?s = Some (k, s')" by auto
  from find_dtb_grown(1) [OF run inv0 assms(2)] obtain as where gr: "grown e g [] k s' as" by blast
  then have inv: "chip_ok (cm s') as" "list_inv e g (cm s') as" by (simp_all add: grown_def scan_inv_def)
  have "\<exists>c mc f ty sz. info (cm s') a = Some c \<and> master c \<in> set as \<and> info (cm s') (master c) = Some mc \<and>
        dtb_file mc = Some f \<and> stat e f = Some (ty, sz) \<and> sz \<noteq> 0 \<and>
        dtb_size mc = word_of_int (padded_size g (int sz))" if "a \<in> set as" for a
    using inv(2) that unfolding list_inv_def new_node_def master_ok_def by metis
  with run gr inv(1) show ?thesis by (auto simp: grown_def chip_ok_def)
qed

definition flat_env :: dtb_env where
  "flat_env = \<lparr>popen = (\<lambda>_. Some [''qcom,msm-id = <0xce 0x0 0x1>;'']), opendir = (\<lambda>_. Some [(''a.dtb'', DT_REG)]),
     stat = (\<lambda>_. Some (DT_REG, 100)), fopen = (\<lambda>_. None), junk = (\<lambda>_. 0)\<rparr>"

theorem find_dtb_correct_witness:
  "\<exists>k s' as. find_dtb flat_env dtb_globals 1 ''./'' \<lparr>cm = \<lparr>chips = Map.empty, chip_list = NULL, chip_brk = 1\<rparr>, version = 0\<rparr> = Some (k, s') \<and>
     chip_links (cm s') as \<and> k = int (length as)"
proof -
  have "ranked flat_env (\<lambda>_. 0)" by (auto simp: ranked_def flat_env_def entry_type_def)
  moreover have "opens_all flat_env" by (simp add: opens_all_def flat_env_def)
  ultimately show ?thesis
    using find_dtb_correct [of flat_env "\<lambda>_. 0" "''./''" "\<lparr>chips = Map.empty, chip_list = NULL, chip_brk = 1\<rparr>" dtb_globals 0]
    by auto
qed

text \<open>
  C11. When the command line is accepted, the page size is positive and at most one megabyte, the
  output version override is none, 2 or 3, and the output file, the input directory and the path
  of \<^verbatim>\<open>dtc\<close> are set, so no later use of them is through a null pointer.
\<close>

theorem parse_commandline_ok:
  assumes "parse_commandline cs dtb_globals = (RC_SUCCESS, g)"
  shows "0 < page_size g \<and> page_size g \<le> 1024 * 1024 \<and> version_override g \<in> {0, 2, 3} \<and>
     output_file g \<noteq> None \<and> input_dir g \<noteq> None \<and> dtc_path g \<noteq> None"
proof -
  have "output_file g \<noteq> None \<and> input_dir g \<noteq> None \<and> dtc_path g \<noteq> None"
    using assms unfolding parse_commandline_def
    by (auto simp: Let_def RC_SUCCESS_def RC_ERROR_def split: if_splits prod.splits)
  with parse_commandline_conf_ok [OF assms] show ?thesis by (auto simp: conf_ok_def PAGE_SIZE_MAX_def)
qed

theorem parse_commandline_ok_witness:
  "parse_commandline [Opt_o ''dt.img'', Opt_s ''4096'', Opt_3] dtb_globals =
     (RC_SUCCESS, \<lparr>input_dir = Some ''./'', output_file = Some ''dt.img'', dtc_path = Some [], dt_tag = QCDT_DT_TAG,
        verbose = 0, page_size = 4096, version_override = 3\<rparr>) \<and> 0 < (4096 :: int)"
proof -
  let ?g = "\<lparr>input_dir = Some ''./'', output_file = Some ''dt.img'', dtc_path = Some [], dt_tag = QCDT_DT_TAG,
        verbose = 0, page_size = 4096, version_override = 3\<rparr>"
  have "parse_commandline [Opt_o ''dt.img'', Opt_s ''4096'', Opt_3] dtb_globals = (RC_SUCCESS, ?g)"
    by (simp add: parse_commandline_def dtb_globals_def PAGE_SIZE_MAX_def RC_SUCCESS_def c_number_defs)
  with parse_commandline_ok [OF this] show ?thesis by simp
qed

end
