(* ===== verification/Dtb_Image.thy ===== *)
theory Dtb_Image
  imports Dtb_Scan
begin

text \<open>
  The writing half of the device-tree tool (\<^verbatim>\<open>main\<close> of \<^verbatim>\<open>dtbtool/dtbtool.c\<close>): the QCDT header,
  the index table, the padded device trees, and the check of the bytes written. Each \<^verbatim>\<open>write\<close>
  call may write less than asked for or fail; how much it writes is a parameter. \<open>None\<close> is a
  memory fault or an endless loop.
\<close>

subsection \<open>Output\<close>

text \<open>\<open>orc i n\<close> is what the \<open>i\<close>-th \<^verbatim>\<open>write\<close> call returns when asked to write \<open>n\<close> bytes.\<close>

type_synonym write_oracle = "nat \<Rightarrow> nat \<Rightarrow> int"

record out_state =
  wrote :: u64
  out_bytes :: "u8 list"
  out_calls :: nat

definition write_out :: "write_oracle \<Rightarrow> u8 list \<Rightarrow> out_state \<Rightarrow> out_state" where
  "write_out orc bs o1 =
     (let r = orc (out_calls o1) (length bs) in
      o1\<lparr>wrote := wrote o1 + word_of_int r, out_bytes := out_bytes o1 @ take (nat r) bs, out_calls := Suc (out_calls o1)\<rparr>)"

definition COPY_BLK :: nat where "COPY_BLK = 1024"

text \<open>The block-wise copy of an input file.\<close>

function copy_loop :: "write_oracle \<Rightarrow> u8 list \<Rightarrow> out_state \<Rightarrow> out_state" where
  "copy_loop orc bs o1 =
     (if bs = [] then o1 else copy_loop orc (drop COPY_BLK bs) (write_out orc (take COPY_BLK bs) o1))"
  by pat_completeness auto

termination
  by (relation "measure (\<lambda>(_, bs, _). length bs)") (auto simp: COPY_BLK_def)

declare copy_loop.simps [simp del]

text \<open>Writing \<open>n\<close> bytes from the zeroed filler of one page: more than it holds is a fault.\<close>

definition write_filler :: "dtb_conf \<Rightarrow> write_oracle \<Rightarrow> int \<Rightarrow> out_state \<Rightarrow> out_state option" where
  "write_filler g orc n o1 =
     (if n > 0 then if n > page_size g then None else Some (write_out orc (replicate (nat n) 0) o1) else Some o1)"

text \<open>The remainder of C: its sign is the sign of the dividend.\<close>

definition c_mod :: "int \<Rightarrow> int \<Rightarrow> int" where
  "c_mod a b = sgn a * (abs a mod abs b)"

subsection \<open>The index table\<close>

definition QCDT_MAGIC :: "u8 list" where
  "QCDT_MAGIC = map (\<lambda>c. word_of_int (of_char c)) ''QCDT''"

definition entry_size :: "u32 \<Rightarrow> int" where
  "entry_size ver = (if ver = 1 then 20 else if ver = 2 then 28 else 44)"

text \<open>The fields of an entry before its offset and size, one \<^verbatim>\<open>write\<close> call each.\<close>

definition entry_fields :: "u32 \<Rightarrow> chipInfo_t \<Rightarrow> u32 list" where
  "entry_fields ver c =
     [chipset c, platform c] @ (if ver \<ge> 2 then [subtype c] else []) @ [revNum c] @
     (if ver \<ge> 2 then [oppoId c] else []) @
     (if ver \<ge> 3 then (case pmic_model c of (p0, p1, p2, p3) \<Rightarrow> [p0, p1, p2, p3]) else [])"

definition write_words :: "write_oracle \<Rightarrow> u32 list \<Rightarrow> out_state \<Rightarrow> out_state" where
  "write_words orc ws o1 = fold (\<lambda>w. write_out orc (le32 w)) ws o1"

partial_function (option) table_loop ::
  "write_oracle \<Rightarrow> u32 \<Rightarrow> ptr \<Rightarrow> chip_mem \<Rightarrow> u64 \<Rightarrow> out_state \<Rightarrow> (chip_mem \<times> u64 \<times> out_state) option" where
  "table_loop orc ver chip m expected o1 =
     (if chip = NULL then Some (m, expected, o1)
      else do {
        c \<leftarrow> rd (chips m) chip;
        let o2 = write_words orc (entry_fields ver c) o1;
        mc \<leftarrow> rd (chips m) (master c);
        if master_offset mc \<noteq> 0 then do {
          let o3 = write_out orc (le32 (master_offset mc)) o2;
          let o4 = write_out orc (le32 (dtb_size mc)) o3;
          table_loop orc ver (c_next c) m expected o4 }
        else do {
          let o3 = write_out orc (le32 (ucast expected)) o2;
          cs \<leftarrow> upd (chips m) (master c) (\<lambda>x. x\<lparr>master_offset := ucast expected\<rparr>);
          let o4 = write_out orc (le32 (dtb_size mc)) o3;
          c' \<leftarrow> rd cs chip;
          table_loop orc ver (c_next c') (m\<lparr>chips := cs\<rparr>) (expected + ucast (dtb_size mc)) o4 } })"

subsection \<open>The device trees\<close>

partial_function (option) dtbs_loop ::
  "dtb_env \<Rightarrow> dtb_conf \<Rightarrow> write_oracle \<Rightarrow> ptr \<Rightarrow> chip_mem \<Rightarrow> out_state \<Rightarrow> (int \<times> chip_mem \<times> out_state) option" where
  "dtbs_loop e g orc chip m o1 =
     (if chip = NULL then Some (RC_SUCCESS, m, o1)
      else do {
        c \<leftarrow> rd (chips m) chip;
        mc \<leftarrow> rd (chips m) (master c);
        if wroteDtb mc \<noteq> 0 then dtbs_loop e g orc (c_next c) m o1
        else do {
          cs \<leftarrow> upd (chips m) (master c) (\<lambda>x. x\<lparr>wroteDtb := 1\<rparr>);
          let m1 = m\<lparr>chips := cs\<rparr>;
          filename \<leftarrow> dtb_file mc;
          case fopen e filename of
            None \<Rightarrow> Some (RC_ERROR, m1, o1)
          | Some bs \<Rightarrow>
              (let totBytesRead = int (length bs);
                   o2 = copy_loop orc bs o1;
                   padding = page_size g - c_mod totBytesRead (page_size g)
               in if (word_of_int (totBytesRead + padding) :: u32) \<noteq> dtb_size mc then Some (RC_ERROR, m1, o2)
                  else do {
                    o3 \<leftarrow> write_filler g orc padding o2;
                    c' \<leftarrow> rd cs chip;
                    dtbs_loop e g orc (c_next c') m1 o3 }) } })"

subsection \<open>The program\<close>

datatype out_file = Untouched | Removed | Written "u8 list"

text \<open>From the open output file on: the return code and what is left of the file.\<close>

definition generate ::
  "dtb_env \<Rightarrow> dtb_conf \<Rightarrow> write_oracle \<Rightarrow> int \<Rightarrow> scan_state \<Rightarrow> (int \<times> out_file \<times> chip_mem) option" where
  "generate e g orc dtb_count s =
     (let ver = (if version_override g \<noteq> 0 then word_of_int (version_override g) else version s);
          o1 = write_out orc QCDT_MAGIC \<lparr>wrote = 0, out_bytes = [], out_calls = 0\<rparr>;
          o2 = write_out orc (le32 ver) o1;
          o3 = write_out orc (le32 (word_of_int dtb_count)) o2;
          dtb_offset = 12 + entry_size ver * dtb_count + 4;
          padding = page_size g - c_mod dtb_offset (page_size g);
          expected = word_of_int (dtb_offset + padding)
      in do {
        (m1, expected', o4) \<leftarrow> table_loop orc ver (chip_list (cm s)) (cm s) expected o3;
        let o5 = write_out orc (le32 0) o4;
        o6 \<leftarrow> write_filler g orc padding o5;
        (rc, m2, o7) \<leftarrow> dtbs_loop e g orc (chip_list m1) m1 o6;
        let rc' = (if expected' \<noteq> wrote o7 then RC_ERROR else rc);
        Some (rc', if rc' \<noteq> RC_SUCCESS then Removed else Written (out_bytes o7), m2) })"

text \<open>
  \<open>open_ok\<close> says whether the output file can be opened. The second component is what happens to
  the output file. The chip records are released at the end of every path that reached the search.
\<close>

definition dtb_main ::
  "dtb_env \<Rightarrow> write_oracle \<Rightarrow> (string \<Rightarrow> bool) \<Rightarrow> nat \<Rightarrow> opt list \<Rightarrow> (int \<times> out_file) option" where
  "dtb_main e orc open_ok fuel opts =
     (let (rc, g) = parse_commandline opts dtb_globals in
      if rc \<noteq> RC_SUCCESS then Some (RC_ERROR, Untouched)
      else do {
        (dtb_count, s) \<leftarrow> find_dtb e g fuel (the (input_dir g))
            \<lparr>cm = \<lparr>chips = Map.empty, chip_list = NULL, chip_brk = 1\<rparr>, version = 0\<rparr>;
        if dtb_count = 0 then do {
          _ \<leftarrow> chip_deleteall (cm s);
          Some (RC_SUCCESS, Untouched) }
        else if \<not> open_ok (the (output_file g)) then do {
          _ \<leftarrow> chip_deleteall (cm s);
          Some (RC_ERROR, Untouched) }
        else do {
          (rc', out, m) \<leftarrow> generate e g orc dtb_count s;
          _ \<leftarrow> chip_deleteall m;
          Some (rc', out) } })"

subsection \<open>Sequences of writes\<close>

definition run_writes :: "write_oracle \<Rightarrow> u8 list list \<Rightarrow> out_state \<Rightarrow> out_state" where
  "run_writes orc reqs o1 = fold (write_out orc) reqs o1"

lemma run_writes_simps [simp]:
  "run_writes orc [] o1 = o1"
  "run_writes orc rs2 (run_writes orc rs1 o1) = run_writes orc (rs1 @ rs2) o1"
  by (simp_all add: run_writes_def)

lemma run_writes_Cons: "run_writes orc (r # rs) o1 = run_writes orc rs (write_out orc r o1)"
  by (simp add: run_writes_def)

lemma write_out_run: "write_out orc r o1 = run_writes orc [r] o1"
  by (simp add: run_writes_def)

lemma write_words_run: "write_words orc ws o1 = run_writes orc (map le32 ws) o1"
  by (simp add: write_words_def run_writes_def fold_map comp_def)

function chunks :: "u8 list \<Rightarrow> u8 list list" where
  "chunks bs = (if bs = [] then [] else take COPY_BLK bs # chunks (drop COPY_BLK bs))"
  by pat_completeness auto

termination
  by (relation "measure length") (auto simp: COPY_BLK_def)

declare chunks.simps [simp del]

lemma copy_loop_run: "copy_loop orc bs o1 = run_writes orc (chunks bs) o1"
proof (induction orc bs o1 rule: copy_loop.induct)
  case (1 orc bs o1)
  then show ?case by (subst copy_loop.simps, subst chunks.simps) (simp add: run_writes_def)
qed

lemma concat_chunks [simp]: "concat (chunks bs) = bs"
proof (induction bs rule: chunks.induct)
  case (1 bs)
  then show ?case by (subst chunks.simps) simp
qed

lemma chunks_nonempty: "[] \<notin> set (chunks bs)"
proof (induction bs rule: chunks.induct)
  case (1 bs)
  then show ?case by (subst chunks.simps) (auto simp: COPY_BLK_def)
qed

text \<open>The results of a sequence of calls.\<close>

fun results :: "write_oracle \<Rightarrow> nat \<Rightarrow> u8 list list \<Rightarrow> int list" where
  "results orc i [] = []"
| "results orc i (r # rs) = orc i (length r) # results orc (Suc i) rs"

lemma run_writes_wrote:
  "wrote (run_writes orc rs o1) = wrote o1 + word_of_int (sum_list (results orc (out_calls o1) rs))"
  by (induction rs arbitrary: o1) (simp_all add: run_writes_Cons write_out_def Let_def algebra_simps)

lemma run_writes_full:
  "results orc (out_calls o1) rs = map (\<lambda>r. int (length r)) rs \<Longrightarrow>
     out_bytes (run_writes orc rs o1) = out_bytes o1 @ concat rs"
  by (induction rs arbitrary: o1) (simp_all add: run_writes_Cons write_out_def Let_def)

text \<open>A call writes at most what it is asked to, and returns -1 on failure.\<close>

definition write_law :: "write_oracle \<Rightarrow> bool" where
  "write_law orc \<longleftrightarrow> (\<forall>i n. - 1 \<le> orc i n \<and> orc i n \<le> int n)"

lemma results_bounds:
  assumes "write_law orc" and "[] \<notin> set rs"
  shows "- int (length (concat rs)) \<le> sum_list (results orc i rs)" (is "?low i rs")
    and "sum_list (results orc i rs) \<le> int (length (concat rs))" (is "?high i rs")
    and "sum_list (results orc i rs) = int (length (concat rs)) \<Longrightarrow> results orc i rs = map (\<lambda>r. int (length r)) rs"
proof -
  have le: "orc i n \<le> int n" and ge: "- 1 \<le> orc i n" for i n using assms(1) by (auto simp: write_law_def)
  have high: "?high i rs" for i rs
  proof (induction rs arbitrary: i)
    case (Cons r rs)
    from le [of i "length r"] Cons [of "Suc i"] show ?case by simp
  qed simp
  show "?high i rs" by (rule high)
  show "?low i rs" using assms(2)
  proof (induction rs arbitrary: i)
    case (Cons r rs)
    then have "1 \<le> length r" by (cases r) auto
    with ge [of i "length r"] Cons.IH [of "Suc i"] Cons.prems show ?case by simp
  qed simp
  show "sum_list (results orc i rs) = int (length (concat rs)) \<Longrightarrow> results orc i rs = map (\<lambda>r. int (length r)) rs"
  proof (induction rs arbitrary: i)
    case (Cons r rs)
    from Cons.prems have "orc i (length r) + sum_list (results orc (Suc i) rs) = int (length r) + int (length (concat rs))"
      by simp
    with le [of i "length r"] high [of "Suc i" rs]
    have "orc i (length r) = int (length r)" "sum_list (results orc (Suc i) rs) = int (length (concat rs))" by linarith+
    with Cons.IH show ?case by simp
  qed simp
qed

lemma word64_of_int_eq:
  assumes "\<bar>i\<bar> < 2 ^ 62" and "\<bar>j\<bar> < 2 ^ 62" and "(word_of_int i :: u64) = word_of_int j"
  shows "i = j"
proof -
  have "i mod 2 ^ 64 = j mod 2 ^ 64"
    using assms(3) by (simp add: word_of_int_eq_iff take_bit_eq_mod)
  then have "(2 ^ 64 :: int) dvd i - j" by (simp add: mod_eq_dvd_iff)
  moreover have "\<bar>i - j\<bar> < 2 ^ 62 + 2 ^ 62" 
    by (rule order_le_less_trans [OF abs_triangle_ineq4 add_strict_mono [OF assms(1,2)]])
  then have "\<bar>i - j\<bar> < 2 ^ 64" by (rule order_less_le_trans) simp
  ultimately show ?thesis by (metis dvd_imp_le_int abs_ge_zero abs_of_nonneg eq_iff_diff_eq_0 linorder_not_le zero_le_numeral zero_le_power)
qed

text \<open>The check at the end: equal counts mean that every call wrote everything.\<close>

lemma wrote_matches_full:
  assumes law: "write_law orc" and ne: "[] \<notin> set rs" and small: "length (concat rs) < 2 ^ 62"
    and o1: "wrote o1 = 0"
    and eq: "wrote (run_writes orc rs o1) = word_of_int (int (length (concat rs)))"
  shows "out_bytes (run_writes orc rs o1) = out_bytes o1 @ concat rs"
proof -
  let ?S = "sum_list (results orc (out_calls o1) rs)"
  have "(int (length (concat rs))) < 2 ^ 62" using small by (metis of_nat_less_iff of_nat_numeral of_nat_power)
  moreover have "- int (length (concat rs)) \<le> ?S" "?S \<le> int (length (concat rs))" using results_bounds [OF law ne] by auto
  moreover have "(word_of_int ?S :: u64) = word_of_int (int (length (concat rs)))"
    using eq run_writes_wrote [of orc rs o1] o1 by simp
  ultimately have "?S = int (length (concat rs))" by (intro word64_of_int_eq) auto
  from results_bounds(3) [OF law ne this] show ?thesis by (rule run_writes_full)
qed

lemma results_full: "\<forall>i n. orc i n = int n \<Longrightarrow> results orc i rs = map (\<lambda>r. int (length r)) rs"
  by (induction rs arbitrary: i) auto

subsection \<open>The masters in order of their first use\<close>

definition firsts :: "'a list \<Rightarrow> 'a list" where
  "firsts xs = rev (remdups (rev xs))"

lemma firsts_snoc [simp]: "firsts [] = []" "firsts (xs @ [b]) = (if b \<in> set xs then firsts xs else firsts xs @ [b])"
  by (simp_all add: firsts_def)

lemma set_firsts [simp]: "set (firsts xs) = set xs" "distinct (firsts xs)"
  by (simp_all add: firsts_def)

lemma firsts_prefix: "\<exists>zs. firsts (xs @ ys) = firsts xs @ zs"
proof (induction ys rule: rev_induct)
  case (snoc y ys)
  then obtain zs where "firsts (xs @ ys) = firsts xs @ zs" by blast
  moreover have "firsts (xs @ ys @ [y]) = (if y \<in> set (xs @ ys) then firsts (xs @ ys) else firsts (xs @ ys) @ [y])"
    using firsts_snoc(2) [of "xs @ ys" y] by simp
  ultimately show ?case by auto
qed simp

definition master_of :: "chip_mem \<Rightarrow> ptr \<Rightarrow> ptr" where
  "master_of m a = master (the (chips m a))"

definition masters :: "chip_mem \<Rightarrow> ptr list \<Rightarrow> ptr list" where
  "masters m us = firsts (map (master_of m) us)"

definition size_of :: "chip_mem \<Rightarrow> ptr \<Rightarrow> nat" where
  "size_of m b = unat (dtb_size (the (chips m b)))"

definition total_size :: "chip_mem \<Rightarrow> ptr list \<Rightarrow> nat" where
  "total_size m us = sum_list (map (size_of m) (masters m us))"

text \<open>The offset of a master's device tree, given the masters in use.\<close>

definition offset_in :: "nat \<Rightarrow> chip_mem \<Rightarrow> ptr list \<Rightarrow> ptr \<Rightarrow> nat" where
  "offset_in base m us b = base + sum_list (map (size_of m) (takeWhile (\<lambda>x. x \<noteq> b) (masters m us)))"

lemma masters_Nil [simp]: "masters m [] = []"
  by (simp add: masters_def)

lemma set_masters [simp]: "set (masters m us) = master_of m ` set us"
  by (simp add: masters_def)

lemma masters_snoc:
  "masters m (us @ [a]) = (if master_of m a \<in> set (masters m us) then masters m us else masters m us @ [master_of m a])"
  by (simp add: masters_def)

lemma total_size_snoc:
  "total_size m (us @ [a]) =
     total_size m us + (if master_of m a \<in> set (masters m us) then 0 else size_of m (master_of m a))"
  by (simp add: total_size_def masters_snoc)

lemma masters_prefix: "\<exists>zs. masters m (us @ vs) = masters m us @ zs"
  using firsts_prefix by (auto simp: masters_def)

lemma total_size_mono: "total_size m us \<le> total_size m (us @ vs)"
  using masters_prefix [of m us vs] by (auto simp: total_size_def)

lemma offset_stable: "b \<in> set (masters m us) \<Longrightarrow> offset_in base m (us @ vs) b = offset_in base m us b"
  using masters_prefix [of m us vs] by (auto simp: offset_in_def takeWhile_append1 simp del: set_masters)

lemma offset_new:
  assumes "master_of m a \<notin> set (masters m us)"
  shows "offset_in base m (us @ [a]) (master_of m a) = base + total_size m us"
proof -
  have "takeWhile (\<lambda>x. x \<noteq> master_of m a) (masters m us @ [master_of m a]) = masters m us"
    using assms by (subst takeWhile_append2) (auto simp del: set_masters)
  then show ?thesis using assms by (simp add: offset_in_def total_size_def masters_snoc del: set_masters)
qed

lemma sum_takeWhile_le: "sum_list (map f (takeWhile P xs)) \<le> sum_list (map f xs)" for f :: "'a \<Rightarrow> nat"
  by (induction xs) auto

lemma offset_bound: "base \<le> offset_in base m us b" "offset_in base m us b \<le> base + total_size m us"
  by (simp_all add: offset_in_def total_size_def sum_takeWhile_le)

subsection \<open>The table loop\<close>

definition with_offsets :: "nat \<Rightarrow> ptr list \<Rightarrow> chip_mem \<Rightarrow> chip_mem" where
  "with_offsets base us m = m\<lparr>chips := (\<lambda>a. map_option
     (\<lambda>c. if a \<in> set (masters m us) then c\<lparr>master_offset := of_nat (offset_in base m us a)\<rparr> else c) (chips m a))\<rparr>"

definition entry_reqs :: "nat \<Rightarrow> chip_mem \<Rightarrow> ptr list \<Rightarrow> u32 \<Rightarrow> ptr \<Rightarrow> u8 list list" where
  "entry_reqs base m as ver a =
     map le32 (entry_fields ver (the (chips m a)) @
       [of_nat (offset_in base m as (master_of m a)), dtb_size (the (chips m (master_of m a)))])"

text \<open>What the loops need of the list: linked, every master live and not yet used.\<close>

definition image_ready :: "chip_mem \<Rightarrow> ptr list \<Rightarrow> bool" where
  "image_ready m as \<longleftrightarrow> dlseg c_next c_prev (chips m) NULL as NULL \<and>
     (\<forall>a\<in>set as. master_of m a \<noteq> NULL \<and>
        (\<exists>mc. chips m (master_of m a) = Some mc \<and> wroteDtb mc = 0 \<and> dtb_file mc \<noteq> None))"

definition no_offsets :: "chip_mem \<Rightarrow> ptr list \<Rightarrow> bool" where
  "no_offsets m as \<longleftrightarrow> (\<forall>a\<in>set as. master_offset (the (chips m (master_of m a))) = 0)"

lemma image_ready_node:
  assumes "image_ready m (us @ a # vs)"
  obtains c mc where "a \<noteq> NULL" "chips m a = Some c" "c_next c = first_addr vs NULL" "master c = master_of m a"
    "master_of m a \<noteq> NULL" "chips m (master_of m a) = Some mc" "wroteDtb mc = 0" "dtb_file mc \<noteq> None"
  using assms by (auto simp: image_ready_def master_of_def split: option.splits)

lemma with_offsets_sel:
  "chips m a = Some c \<Longrightarrow> \<exists>c'. chips (with_offsets base us m) a = Some c' \<and> c_next c' = c_next c \<and> master c' = master c \<and>
     dtb_size c' = dtb_size c \<and> entry_fields ver c' = entry_fields ver c \<and>
     master_offset c' = (if a \<in> set (masters m us) then of_nat (offset_in base m us a) else master_offset c)"
  by (auto simp: with_offsets_def entry_fields_def)

lemma with_offsets_seen:
  assumes "master_of m a \<in> set (masters m us)"
  shows "with_offsets base (us @ [a]) m = with_offsets base us m"
  using assms offset_stable [of _ m us base "[a]"]
  by (auto simp: with_offsets_def masters_snoc fun_eq_iff option.map_comp simp del: set_masters intro!: chip_mem.equality option.map_cong)

lemma with_offsets_new:
  assumes new: "master_of m a \<notin> set (masters m us)" and mc: "chips m (master_of m a) = Some mc"
  shows "(with_offsets base us m)\<lparr>chips := (chips (with_offsets base us m))
      (master_of m a \<mapsto> mc\<lparr>master_offset := of_nat (base + total_size m us)\<rparr>)\<rparr> = with_offsets base (us @ [a]) m"
  using assms offset_stable [of _ m us base "[a]"] offset_new [OF new, of base]
  by (auto simp: with_offsets_def masters_snoc fun_eq_iff simp del: set_masters
      intro!: chip_mem.equality option.map_cong)

lemma offset_nonzero:
  assumes "0 < base" "base + total_size m us < 2 ^ 32"
  shows "(of_nat (offset_in base m us b) :: u32) \<noteq> 0"
proof
  assume "(of_nat (offset_in base m us b) :: u32) = 0"
  moreover have "offset_in base m us b < 2 ^ 32" using assms offset_bound(2) [of base m us b] by linarith
  ultimately have "offset_in base m us b = 0"
    by (auto simp: word_of_nat_eq_0_iff dest: dvd_imp_le)
  with assms(1) offset_bound(1) [of base m us b] show False by simp
qed

lemma ucast_of_nat_64: "(ucast (of_nat n :: u64) :: u32) = of_nat n"
  by (rule bit_word_eqI) (auto simp: bit_simps)

lemma unat_cast_64: "(of_nat (unat (w :: u32)) :: u64) = ucast w"
  by simp

lemma table_loop_run:
  assumes "image_ready m (us @ vs)" and base: "0 < base" and fit: "base + total_size m (us @ vs) < 2 ^ 32"
    and fresh: "no_offsets m (us @ vs)"
  shows "table_loop orc ver (first_addr vs NULL) (with_offsets base us m) (of_nat (base + total_size m us)) o1 =
    Some (with_offsets base (us @ vs) m, of_nat (base + total_size m (us @ vs)),
      run_writes orc (concat (map (entry_reqs base m (us @ vs) ver) vs)) o1)"
  using assms(1,3,4)
proof (induction vs arbitrary: us o1)
  case Nil
  then show ?case by (simp add: table_loop.simps)
next
  case (Cons a vs)
  let ?b = "master_of m a" and ?us' = "us @ [a]"
  obtain c mc where a: "a \<noteq> NULL" "chips m a = Some c" "c_next c = first_addr vs NULL" "master c = ?b"
    "?b \<noteq> NULL" "chips m ?b = Some mc"
    using image_ready_node [OF Cons.prems(1)] by metis
  have off0: "master_offset mc = 0" using Cons.prems(3) a(6) by (simp add: no_offsets_def)
  obtain ca where ca: "chips (with_offsets base us m) a = Some ca" "c_next ca = first_addr vs NULL" "master ca = ?b"
    "entry_fields ver ca = entry_fields ver c"
    using with_offsets_sel [OF a(2), of base us ver] a(3,4) by auto
  obtain cb where cb: "chips (with_offsets base us m) ?b = Some cb" "dtb_size cb = dtb_size mc"
    "master_offset cb = (if ?b \<in> set (masters m us) then of_nat (offset_in base m us ?b) else 0)"
    using with_offsets_sel [OF a(6), of base us ver] off0 by (auto simp del: set_masters)
  let ?o' = "run_writes orc (entry_reqs base m (us @ a # vs) ver a) o1"
  have IH: "table_loop orc ver (first_addr vs NULL) (with_offsets base ?us' m) (of_nat (base + total_size m ?us')) ?o' =
    Some (with_offsets base (us @ a # vs) m, of_nat (base + total_size m (us @ a # vs)),
      run_writes orc (concat (map (entry_reqs base m (us @ a # vs) ver) (a # vs))) o1)"
    using Cons.IH [of ?us' ?o'] Cons.prems by simp
  have off: "offset_in base m (us @ a # vs) ?b = offset_in base m ?us' ?b"
    using offset_stable [of ?b m ?us' base vs] by simp
  show ?case
  proof (cases "?b \<in> set (masters m us)")
    case True
    have "base + total_size m us < 2 ^ 32" using Cons.prems(2) total_size_mono [of m us "a # vs"] by simp
    from offset_nonzero [OF base this] have nz: "(of_nat (offset_in base m us ?b) :: u32) \<noteq> 0" .
    have "offset_in base m ?us' ?b = offset_in base m us ?b" using offset_stable [OF True] .
    with True nz a ca cb off have "table_loop orc ver a (with_offsets base us m) (of_nat (base + total_size m us)) o1 =
      table_loop orc ver (first_addr vs NULL) (with_offsets base us m) (of_nat (base + total_size m us)) ?o'"
      by (subst table_loop.simps) (simp add: write_words_run write_out_run entry_reqs_def del: set_masters)
    with IH with_offsets_seen [OF True, of base] True show ?thesis by (simp add: total_size_snoc del: set_masters)
  next
    case False
    have cbm: "cb = mc" using cb(1) a(6) False by (simp add: with_offsets_def del: set_masters)
    let ?E = "of_nat (base + total_size m us) :: u64" and ?M = "with_offsets base us m"
    have uc: "(ucast ?E :: u32) = of_nat (base + total_size m us)"
      by (rule ucast_of_nat_64)
    have ex: "?E + ucast (dtb_size mc) = of_nat (base + total_size m ?us')"
    proof -
      have "total_size m ?us' = total_size m us + unat (dtb_size mc)"
        using False a(6) by (simp add: total_size_snoc size_of_def del: set_masters)
      then show ?thesis by (simp only: of_nat_add unat_cast_64 add.assoc)
    qed
    have offn: "offset_in base m ?us' ?b = base + total_size m us" by (rule offset_new [OF False])
    let ?cs = "(chips ?M)(?b \<mapsto> mc\<lparr>master_offset := of_nat (base + total_size m us)\<rparr>)"
    obtain c' where c': "?cs a = Some c'" "c_next c' = first_addr vs NULL"
      using ca(1,2) cbm cb(1) by (cases "a = ?b") auto
    have "table_loop orc ver a ?M ?E o1 = table_loop orc ver (first_addr vs NULL) (?M\<lparr>chips := ?cs\<rparr>) (?E + ucast (dtb_size mc)) ?o'"
      using False a ca cb cbm c' off offn uc
      by (subst table_loop.simps) (simp add: write_words_run write_out_run entry_reqs_def del: set_masters fun_upd_apply of_nat_add)
    with IH ex with_offsets_new [OF False a(6), of base] show ?thesis by (simp del: of_nat_add fun_upd_apply)
  qed
qed

subsection \<open>The loop over the device trees\<close>

definition with_wrote :: "ptr list \<Rightarrow> chip_mem \<Rightarrow> chip_mem" where
  "with_wrote us m = m\<lparr>chips := (\<lambda>a. map_option
     (\<lambda>c. if a \<in> set (masters m us) then c\<lparr>wroteDtb := 1\<rparr> else c) (chips m a))\<rparr>"

text \<open>A master whose file can be read and still has the size it was scanned with.\<close>

definition good_dtb :: "dtb_env \<Rightarrow> dtb_conf \<Rightarrow> chip_mem \<Rightarrow> ptr \<Rightarrow> bool" where
  "good_dtb e g m b \<longleftrightarrow>
     (case Option.bind (dtb_file (the (chips m b))) (fopen e) of
        None \<Rightarrow> False
      | Some bs \<Rightarrow> word_of_int (padded_size g (int (length bs))) = dtb_size (the (chips m b)))"

definition dtb_content :: "dtb_env \<Rightarrow> chip_mem \<Rightarrow> ptr \<Rightarrow> u8 list" where
  "dtb_content e m b = the (fopen e (the (dtb_file (the (chips m b)))))"

definition page_pad :: "dtb_conf \<Rightarrow> nat \<Rightarrow> nat" where
  "page_pad g n = nat (page_size g - int n mod page_size g)"

definition dtb_reqs :: "dtb_env \<Rightarrow> dtb_conf \<Rightarrow> chip_mem \<Rightarrow> ptr \<Rightarrow> u8 list list" where
  "dtb_reqs e g m b = chunks (dtb_content e m b) @ [replicate (page_pad g (length (dtb_content e m b))) 0]"

definition new_masters :: "chip_mem \<Rightarrow> ptr list \<Rightarrow> ptr list \<Rightarrow> ptr list" where
  "new_masters m us vs = drop (length (masters m us)) (masters m (us @ vs))"

lemma new_masters_Nil [simp]: "new_masters m us [] = []"
  by (simp add: new_masters_def)

lemma new_masters_all [simp]: "new_masters m [] vs = masters m vs"
  by (simp add: new_masters_def)

lemma new_masters_seen: "master_of m a \<in> set (masters m us) \<Longrightarrow> new_masters m us (a # vs) = new_masters m (us @ [a]) vs"
  by (simp add: new_masters_def masters_snoc del: set_masters)

lemma new_masters_new:
  assumes "master_of m a \<notin> set (masters m us)"
  shows "new_masters m us (a # vs) = master_of m a # new_masters m (us @ [a]) vs"
proof -
  obtain zs where "masters m ((us @ [a]) @ vs) = masters m (us @ [a]) @ zs" using masters_prefix by blast
  with assms show ?thesis by (simp add: new_masters_def masters_snoc del: set_masters)
qed

lemma with_wrote_sel:
  "chips m a = Some c \<Longrightarrow> \<exists>c'. chips (with_wrote us m) a = Some c' \<and> c_next c' = c_next c \<and> c_prev c' = c_prev c \<and>
     master c' = master c \<and> dtb_size c' = dtb_size c \<and> dtb_file c' = dtb_file c \<and>
     wroteDtb c' = (if a \<in> set (masters m us) then 1 else wroteDtb c)"
  by (auto simp: with_wrote_def)

lemma with_wrote_seen:
  assumes "master_of m a \<in> set (masters m us)"
  shows "with_wrote (us @ [a]) m = with_wrote us m"
  using assms by (simp add: with_wrote_def masters_snoc del: set_masters)

lemma with_wrote_new:
  assumes new: "master_of m a \<notin> set (masters m us)" and mc: "chips m (master_of m a) = Some mc"
  shows "(with_wrote us m)\<lparr>chips := (chips (with_wrote us m))(master_of m a \<mapsto> mc\<lparr>wroteDtb := 1\<rparr>)\<rparr> = with_wrote (us @ [a]) m"
  using assms by (auto simp: with_wrote_def masters_snoc fun_eq_iff simp del: set_masters
      intro!: chip_mem.equality option.map_cong)

lemma page_pad_bounds:
  assumes "0 < page_size g"
  shows "page_size g - c_mod (int n) (page_size g) = int (page_pad g n)" "0 < page_pad g n" "int (page_pad g n) \<le> page_size g"
    "int n + int (page_pad g n) = padded_size g (int n)"
proof -
  have m: "int n mod page_size g < page_size g" "0 \<le> int n mod page_size g" using assms by simp_all
  show "page_size g - c_mod (int n) (page_size g) = int (page_pad g n)"
    using less_imp_le [OF m(1)] assms by (cases "n = 0") (simp_all add: c_mod_def page_pad_def)
  show "0 < page_pad g n" "int (page_pad g n) \<le> page_size g" "int n + int (page_pad g n) = padded_size g (int n)"
    using m by (simp_all add: page_pad_def padded_size_def)
qed

lemma write_filler_run:
  "0 < page_size g \<Longrightarrow> write_filler g orc (int (page_pad g n)) o1 = Some (run_writes orc [replicate (page_pad g n) 0] o1)"
  using page_pad_bounds(2,3) [of g n] by (simp add: write_filler_def write_out_run)

definition dtbs_result ::
  "dtb_env \<Rightarrow> dtb_conf \<Rightarrow> write_oracle \<Rightarrow> chip_mem \<Rightarrow> ptr list \<Rightarrow> ptr list \<Rightarrow> out_state \<Rightarrow> int \<times> chip_mem \<times> out_state \<Rightarrow> bool" where
  "dtbs_result e g orc m us vs o1 = (\<lambda>(rc, m', o').
     (\<exists>ws. m' = with_wrote ws m) \<and>
     (if \<forall>b\<in>set (new_masters m us vs). good_dtb e g m b
      then rc = RC_SUCCESS \<and> o' = run_writes orc (concat (map (dtb_reqs e g m) (new_masters m us vs))) o1
      else rc = RC_ERROR))"

lemma dtbs_loop_run:
  assumes "image_ready m (us @ vs)" and ps: "0 < page_size g"
  shows "\<exists>r. dtbs_loop e g orc (first_addr vs NULL) (with_wrote us m) o1 = Some r \<and> dtbs_result e g orc m us vs o1 r"
  using assms(1)
proof (induction vs arbitrary: us o1)
  case Nil
  then show ?case by (auto simp: dtbs_loop.simps dtbs_result_def)
next
  case (Cons a vs)
  let ?b = "master_of m a" and ?us' = "us @ [a]" and ?M = "with_wrote us m"
  obtain c mc where a: "a \<noteq> NULL" "chips m a = Some c" "c_next c = first_addr vs NULL" "master c = ?b"
    "?b \<noteq> NULL" "chips m ?b = Some mc" "wroteDtb mc = 0" "dtb_file mc \<noteq> None"
    using image_ready_node [OF Cons.prems] by metis
  obtain ca where ca: "chips ?M a = Some ca" "c_next ca = first_addr vs NULL" "master ca = ?b"
    using with_wrote_sel [OF a(2), of us] a(3,4) by auto
  have IH: "\<exists>r. dtbs_loop e g orc (first_addr vs NULL) (with_wrote ?us' m) o2 = Some r \<and> dtbs_result e g orc m ?us' vs o2 r" for o2
    using Cons.IH [of ?us' o2] Cons.prems by simp
  show ?case
  proof (cases "?b \<in> set (masters m us)")
    case True
    obtain cb where "chips ?M ?b = Some cb" "wroteDtb cb = 1" using with_wrote_sel [OF a(6), of us] True by auto
    with a ca have "dtbs_loop e g orc a ?M o1 = dtbs_loop e g orc (first_addr vs NULL) ?M o1"
      by (subst dtbs_loop.simps) simp
    moreover have "dtbs_result e g orc m us (a # vs) o1 = dtbs_result e g orc m ?us' vs o1"
      unfolding dtbs_result_def new_masters_seen [OF True] ..
    ultimately show ?thesis using IH [of o1] by (simp add: with_wrote_seen [OF True])
  next
    case False
    have cbm: "chips ?M ?b = Some mc" using a(6) False by (simp add: with_wrote_def del: set_masters)
    let ?cs = "(chips ?M)(?b \<mapsto> mc\<lparr>wroteDtb := 1\<rparr>)"
    have M': "?M\<lparr>chips := ?cs\<rparr> = with_wrote ?us' m" by (rule with_wrote_new [OF False a(6)])
    obtain c' where c': "?cs a = Some c'" "c_next c' = first_addr vs NULL"
      using ca(1,2) cbm by (cases "a = ?b") auto
    obtain f where f: "dtb_file mc = Some f" using a(8) by auto
    note nm = new_masters_new [OF False, of vs]
    note step = a ca cbm c' f M'
    show ?thesis
    proof (cases "good_dtb e g m ?b")
      case True
      then obtain bs where bs: "fopen e f = Some bs" "word_of_int (padded_size g (int (length bs))) = dtb_size mc"
        using f a(6) by (auto simp: good_dtb_def split: option.splits)
      let ?o' = "run_writes orc (dtb_reqs e g m ?b) o1"
      have cont: "dtb_content e m ?b = bs" using f bs a(6) by (simp add: dtb_content_def)
      have "dtbs_loop e g orc a ?M o1 = dtbs_loop e g orc (first_addr vs NULL) (with_wrote ?us' m) ?o'"
        using step bs page_pad_bounds [OF ps, of "length bs"] write_filler_run [OF ps, of orc "length bs"]
        by (subst dtbs_loop.simps) (simp add: Let_def copy_loop_run dtb_reqs_def cont del: fun_upd_apply of_int_add of_int_diff)
      moreover have "dtbs_result e g orc m us (a # vs) o1 = dtbs_result e g orc m ?us' vs ?o'"
        using nm True by (intro ext) (auto simp: dtbs_result_def split: prod.splits)
      ultimately show ?thesis using IH [of ?o'] by simp
    next
      case False
      then have "\<exists>o'. dtbs_loop e g orc a ?M o1 = Some (RC_ERROR, with_wrote ?us' m, o')"
        using step page_pad_bounds [OF ps]
        by (subst dtbs_loop.simps) (auto simp: good_dtb_def Let_def split: option.splits simp del: fun_upd_apply of_int_add of_int_diff)
      with nm False show ?thesis by (auto simp: dtbs_result_def)
    qed
  qed
qed

subsection \<open>The image\<close>

definition header_size :: "u32 \<Rightarrow> nat \<Rightarrow> nat" where
  "header_size ver n = 12 + nat (entry_size ver) * n + 4"

definition image_base :: "dtb_conf \<Rightarrow> u32 \<Rightarrow> nat \<Rightarrow> nat" where
  "image_base g ver n = header_size ver n + page_pad g (header_size ver n)"

text \<open>
  The file the tool means to write: header, one entry per chip with the offset and size of its
  master's device tree, end mark, padding, and each master's device tree padded to whole pages.
\<close>

definition image_reqs :: "dtb_env \<Rightarrow> dtb_conf \<Rightarrow> chip_mem \<Rightarrow> ptr list \<Rightarrow> u32 \<Rightarrow> u8 list list" where
  "image_reqs e g m as ver =
     [QCDT_MAGIC, le32 ver, le32 (of_nat (length as))] @
     concat (map (entry_reqs (image_base g ver (length as)) m as ver) as) @
     [le32 0, replicate (page_pad g (header_size ver (length as))) 0] @
     concat (map (dtb_reqs e g m) (masters m as))"

definition qcdt_image :: "dtb_env \<Rightarrow> dtb_conf \<Rightarrow> chip_mem \<Rightarrow> ptr list \<Rightarrow> u32 \<Rightarrow> u8 list" where
  "qcdt_image e g m as ver = concat (image_reqs e g m as ver)"

lemma with_offsets_keep:
  "master_of (with_offsets base us m) = master_of m" "size_of (with_offsets base us m) = size_of m"
  "good_dtb e g (with_offsets base us m) = good_dtb e g m" "dtb_reqs e g (with_offsets base us m) = dtb_reqs e g m"
  "chip_list (with_offsets base us m) = chip_list m"
proof -
  have *: "master (the (chips (with_offsets base us m) a)) = master (the (chips m a))"
    "dtb_size (the (chips (with_offsets base us m) a)) = dtb_size (the (chips m a))"
    "dtb_file (the (chips (with_offsets base us m) a)) = dtb_file (the (chips m a))" for a
    by (cases "chips m a"; simp add: with_offsets_def)+
  show "master_of (with_offsets base us m) = master_of m" "size_of (with_offsets base us m) = size_of m"
    "good_dtb e g (with_offsets base us m) = good_dtb e g m" "dtb_reqs e g (with_offsets base us m) = dtb_reqs e g m"
    unfolding fun_eq_iff master_of_def size_of_def good_dtb_def dtb_reqs_def dtb_content_def * by simp_all
qed (simp add: with_offsets_def)

lemma masters_with_offsets: "masters (with_offsets base us m) = masters m"
  by (simp add: fun_eq_iff masters_def with_offsets_keep)

lemma image_ready_with_offsets:
  assumes "image_ready m as"
  shows "image_ready (with_offsets base us m) as"
proof -
  have "dlseg c_next c_prev (chips (with_offsets base us m)) NULL as NULL = dlseg c_next c_prev (chips m) NULL as NULL"
    by (rule dlseg_same_links) (auto simp: with_offsets_def option.map_comp comp_def intro!: option.map_cong)
  moreover have "\<exists>mc. chips (with_offsets base us m) b = Some mc \<and> wroteDtb mc = 0 \<and> dtb_file mc \<noteq> None"
    if "chips m b = Some mc" "wroteDtb mc = 0" "dtb_file mc \<noteq> None" for b mc
    using that by (auto simp: with_offsets_def)
  ultimately show ?thesis
    using assms unfolding image_ready_def with_offsets_keep by blast
qed

lemma dlseg_with_wrote: "dlseg c_next c_prev (chips (with_wrote ws m)) p as q = dlseg c_next c_prev (chips m) p as q"
  by (rule dlseg_same_links) (auto simp: with_wrote_def option.map_comp comp_def intro!: option.map_cong)

lemma with_offsets_Nil [simp]: "with_offsets base [] m = m" and with_wrote_Nil [simp]: "with_wrote [] m = m"
  by (simp_all add: with_offsets_def with_wrote_def option.map_ident)

text \<open>The run of the output half, in terms of the image.\<close>

lemma generate_run:
  fixes s :: scan_state and g :: dtb_conf
  defines "m \<equiv> cm s" and "ver \<equiv> (if version_override g \<noteq> 0 then word_of_int (version_override g) else version s)"
  assumes rdy: "image_ready m as" and fresh: "no_offsets m as" and hd: "chip_list m = first_addr as NULL"
    and ps: "0 < page_size g" and fit: "image_base g ver (length as) + total_size m as < 2 ^ 32"
  shows "\<exists>m2. dlseg c_next c_prev (chips m2) NULL as NULL \<and> chip_list m2 = chip_list m \<and>
    generate e g orc (int (length as)) s =
      (let oo = run_writes orc (image_reqs e g m as ver) \<lparr>wrote = 0, out_bytes = [], out_calls = 0\<rparr> in
       if (\<forall>b\<in>set (masters m as). good_dtb e g m b) \<and> wrote oo = of_nat (image_base g ver (length as) + total_size m as)
       then Some (RC_SUCCESS, Written (out_bytes oo), m2) else Some (RC_ERROR, Removed, m2))"
proof -
  let ?n = "length as" and ?b = "image_base g ver (length as)" and ?h = "header_size ver (length as)"
  let ?o0 = "\<lparr>wrote = 0, out_bytes = [], out_calls = 0\<rparr>"
  let ?m1 = "with_offsets ?b as m"
  have hs: "12 + entry_size ver * int ?n + 4 = int ?h" by (simp add: header_size_def entry_size_def)
  have pad: "page_size g - c_mod (int ?h) (page_size g) = int (page_pad g ?h)" by (rule page_pad_bounds [OF ps])
  have bs: "word_of_int (int ?h + int (page_pad g ?h)) = (of_nat ?b :: u64)" by (simp add: image_base_def)
  define o3 where "o3 = run_writes orc [QCDT_MAGIC, le32 ver, le32 (of_nat ?n)] ?o0"
  define o4 where "o4 = run_writes orc (concat (map (entry_reqs ?b m as ver) as)) o3"
  define o6 where "o6 = run_writes orc [le32 0, replicate (page_pad g ?h) 0] o4"
  have b0: "0 < ?b" by (simp add: image_base_def header_size_def)
  have tab: "table_loop orc ver (chip_list m) m (of_nat ?b) o3 = Some (?m1, of_nat (?b + total_size m as), o4)"
    using table_loop_run [of m "[]" as ?b orc ver o3] rdy fresh b0 fit
    by (simp add: hd o4_def total_size_def)
  have fill: "write_filler g orc (int (page_pad g ?h)) (write_out orc (le32 0) o4) = Some o6"
    using write_filler_run [OF ps] by (simp add: o6_def write_out_run)
  have "image_ready ?m1 ([] @ as)" using image_ready_with_offsets [OF rdy] by simp
  from dtbs_loop_run [OF this ps, of e orc o6] obtain rc m2 o7 where
    loop: "dtbs_loop e g orc (chip_list ?m1) ?m1 o6 = Some (rc, m2, o7)" and res: "dtbs_result e g orc ?m1 [] as o6 (rc, m2, o7)"
    by (auto simp: hd with_offsets_keep)
  have o7: "(\<forall>b\<in>set (masters m as). good_dtb e g m b) \<Longrightarrow>
      rc = RC_SUCCESS \<and> o7 = run_writes orc (image_reqs e g m as ver) ?o0"
    "\<not> (\<forall>b\<in>set (masters m as). good_dtb e g m b) \<Longrightarrow> rc = RC_ERROR"
    using res unfolding dtbs_result_def
    by (simp_all add: masters_with_offsets with_offsets_keep image_reqs_def o6_def o4_def o3_def)
  obtain ws where ws: "m2 = with_wrote ws ?m1" using res by (auto simp: dtbs_result_def)
  have gen: "generate e g orc (int ?n) s =
      Some (if of_nat (?b + total_size m as) \<noteq> wrote o7 then RC_ERROR else rc,
            if (if of_nat (?b + total_size m as) \<noteq> wrote o7 then RC_ERROR else rc) \<noteq> RC_SUCCESS then Removed else Written (out_bytes o7), m2)"
    unfolding generate_def Let_def ver_def [symmetric] m_def [symmetric] hs pad bs
    using tab fill loop by (simp add: o3_def write_out_run)
  have "image_ready ?m1 as" using image_ready_with_offsets [OF rdy] .
  then have seg: "dlseg c_next c_prev (chips m2) NULL as NULL" unfolding ws dlseg_with_wrote by (simp add: image_ready_def)
  have lst: "chip_list m2 = chip_list m" by (simp add: ws with_wrote_def with_offsets_def)
  have ne: "RC_ERROR \<noteq> RC_SUCCESS" by (simp add: RC_ERROR_def RC_SUCCESS_def)
  show ?thesis
  proof (cases "\<forall>b\<in>set (masters m as). good_dtb e g m b")
    case True
    then have rc: "rc = RC_SUCCESS" and out: "o7 = run_writes orc (image_reqs e g m as ver) ?o0" using o7(1) by blast+
    show ?thesis
      using gen seg lst True ne unfolding rc out Let_def by (intro exI [of _ m2]) auto
  next
    case False
    then have rc: "rc = RC_ERROR" using o7(2) by blast
    have "generate e g orc (int ?n) s = Some (RC_ERROR, Removed, m2)" using gen ne unfolding rc by simp
    with seg lst False show ?thesis by (intro exI [of _ m2]) (simp add: Let_def del: set_masters)
  qed
qed

subsection \<open>Sizes and positions in the image\<close>

lemma entry_reqs_length: "ver \<noteq> 0 \<Longrightarrow> length (concat (entry_reqs base m as ver a)) = nat (entry_size ver)"
proof -
  assume "ver \<noteq> 0"
  then consider "ver = 1" | "ver = 2" | "3 \<le> ver" "ver \<noteq> 1" "ver \<noteq> 2" "2 \<le> ver"
  proof -
    have "ver = 0 \<or> ver = 1 \<or> ver = 2 \<or> 3 \<le> ver"
      unfolding word_le_nat_alt word_unat_eq_iff by (simp, arith)
    moreover have "3 \<le> ver \<Longrightarrow> ver \<noteq> 1 \<and> ver \<noteq> 2 \<and> 2 \<le> ver"
      unfolding word_le_nat_alt word_unat_eq_iff by auto
    ultimately show thesis using that \<open>ver \<noteq> 0\<close> by blast
  qed
  then have "4 * (length (entry_fields ver (the (chips m a))) + 2) = nat (entry_size ver)"
    by cases (auto simp: entry_fields_def entry_size_def word_le_nat_alt split: prod.split)
  moreover have "length (concat (entry_reqs base m as ver a)) = 4 * (length (entry_fields ver (the (chips m a))) + 2)"
    by (simp add: entry_reqs_def length_concat comp_def sum_list_triv)
  ultimately show ?thesis by simp
qed

lemma image_reqs_nonempty: "0 < page_size g \<Longrightarrow> [] \<notin> set (image_reqs e g m as ver)"
  using chunks_nonempty page_pad_bounds(2) [of g]
  by (auto simp: image_reqs_def entry_reqs_def dtb_reqs_def QCDT_MAGIC_def le32_def simp flip: length_greater_0_conv)

text \<open>Files are smaller than 4 GiB, so that their sizes fit the table.\<close>

definition small_files :: "dtb_env \<Rightarrow> dtb_conf \<Rightarrow> bool" where
  "small_files e g \<longleftrightarrow> (\<forall>f bs. fopen e f = Some bs \<longrightarrow> int (length bs) + page_size g < 2 ^ 32)"

lemma dtb_reqs_length:
  assumes ps: "0 < page_size g" and small: "small_files e g" and good: "good_dtb e g m b"
  shows "length (concat (dtb_reqs e g m b)) = size_of m b"
    "size_of m b = length (dtb_content e m b) + page_pad g (length (dtb_content e m b))"
proof -
  from good obtain f bs where f: "dtb_file (the (chips m b)) = Some f" "fopen e f = Some bs"
    "word_of_int (padded_size g (int (length bs))) = dtb_size (the (chips m b))"
    by (auto simp: good_dtb_def split: option.splits bind_splits)
  have c: "dtb_content e m b = bs" using f by (simp add: dtb_content_def)
  have p: "int (length bs) + int (page_pad g (length bs)) = padded_size g (int (length bs))"
    "int (page_pad g (length bs)) \<le> page_size g" using page_pad_bounds [OF ps] by auto
  have "int (length bs) + page_size g < 2 ^ 32" using small f(2) by (auto simp: small_files_def)
  with p have lt: "length bs + page_pad g (length bs) < 2 ^ 32" by simp
  have "size_of m b = unat (of_nat (length bs + page_pad g (length bs)) :: u32)"
    using f(3) p(1) by (metis of_int_of_nat_eq of_nat_add size_of_def)
  also have "\<dots> = length bs + page_pad g (length bs)" using lt by (simp add: unsigned_of_nat take_bit_nat_eq_self_iff del: of_nat_add)
  finally show "size_of m b = length (dtb_content e m b) + page_pad g (length (dtb_content e m b))" by (simp add: c)
  then show "length (concat (dtb_reqs e g m b)) = size_of m b" by (simp add: dtb_reqs_def)
qed

definition all_good :: "dtb_env \<Rightarrow> dtb_conf \<Rightarrow> chip_mem \<Rightarrow> ptr list \<Rightarrow> bool" where
  "all_good e g m as \<longleftrightarrow> (\<forall>b\<in>set (masters m as). good_dtb e g m b)"

lemma sum_length_const: "(\<And>x. x \<in> set xs \<Longrightarrow> f x = k) \<Longrightarrow> sum_list (map f xs) = k * length xs" for f :: "'a \<Rightarrow> nat"
  by (induction xs) auto

lemma image_head_length:
  assumes "ver \<noteq> 0"
  shows "length (concat (map (\<lambda>a. concat (entry_reqs base m as ver a)) us)) = nat (entry_size ver) * length us"
  using sum_length_const [of us "\<lambda>a. length (concat (entry_reqs base m as ver a))" "nat (entry_size ver)"]
    entry_reqs_length [OF assms] by (simp add: length_concat comp_def)

lemma length_concat_map: "length (concat (map f xs)) = sum_list (map (\<lambda>x. length (f x)) xs)"
  by (simp add: length_concat comp_def)

lemma concat_concat_map: "concat (concat (map f xs)) = concat (map (\<lambda>x. concat (f x)) xs)"
  by (induction xs) auto

lemma qcdt_image_parts:
  "qcdt_image e g m as ver =
     (QCDT_MAGIC @ le32 ver @ le32 (of_nat (length as))) @
     concat (map (\<lambda>a. concat (entry_reqs (image_base g ver (length as)) m as ver a)) as) @
     (le32 0 @ replicate (page_pad g (header_size ver (length as))) 0) @
     concat (map (\<lambda>b. concat (dtb_reqs e g m b)) (masters m as))"
  by (simp add: qcdt_image_def image_reqs_def concat_concat_map)

lemma qcdt_image_length:
  assumes ps: "0 < page_size g" and small: "small_files e g" and good: "all_good e g m as" and ver: "ver \<noteq> 0"
  shows "length (qcdt_image e g m as ver) = image_base g ver (length as) + total_size m as"
proof -
  have "map (\<lambda>b. length (concat (dtb_reqs e g m b))) (masters m as) = map (size_of m) (masters m as)"
    using good dtb_reqs_length(1) [OF ps small] by (simp add: all_good_def del: set_masters)
  then have "length (concat (map (\<lambda>b. concat (dtb_reqs e g m b)) (masters m as))) = total_size m as"
    by (simp only: length_concat_map total_size_def)
  with image_head_length [OF ver] show ?thesis
    by (simp add: qcdt_image_parts image_base_def header_size_def QCDT_MAGIC_def del: length_concat)
qed

lemma drop_concat_masters:
  assumes "b \<in> set ms"
  shows "\<exists>rest. drop (sum_list (map (\<lambda>x. length (f x)) (takeWhile (\<lambda>x. x \<noteq> b) ms))) (concat (map f ms)) = f b @ rest"
  using assms
proof (induction ms)
  case (Cons x ms)
  then show ?case by (cases "x = b") auto
qed simp

text \<open>Every entry's offset is page-aligned and is where its master's device tree starts.\<close>

lemma padded_multiple: "0 < page_size g \<Longrightarrow> int (n + page_pad g n) mod page_size g = 0"
proof -
  assume ps: "0 < page_size g"
  have "padded_size g (int n) = page_size g * (int n div page_size g + 1)"
    by (simp add: padded_size_def distrib_left minus_mod_eq_mult_div)
  with page_pad_bounds(4) [OF ps, of n] show ?thesis by simp
qed

lemma offset_aligned:
  assumes ps: "0 < page_size g" and small: "small_files e g" and good: "all_good e g m as"
  shows "int (offset_in (image_base g ver n) m as b) mod page_size g = 0"
proof -
  have al: "int (size_of m x) mod page_size g = 0" if "x \<in> set (masters m as)" for x
    using dtb_reqs_length(2) [OF ps small, of m x] padded_multiple [OF ps] good that by (simp add: all_good_def del: set_masters)
  have "int (sum_list (map (size_of m) xs)) mod page_size g = 0" if "set xs \<subseteq> set (masters m as)" for xs
    using that
  proof (induction xs)
    case (Cons x xs)
    then have "int (size_of m x) mod page_size g = 0" "int (sum_list (map (size_of m) xs)) mod page_size g = 0"
      using al by auto
    then show ?case by (simp add: mod_add_eq [symmetric] del: mod_add_eq)
  qed simp
  from this [of "takeWhile (\<lambda>x. x \<noteq> b) (masters m as)"]
  have "int (sum_list (map (size_of m) (takeWhile (\<lambda>x. x \<noteq> b) (masters m as)))) mod page_size g = 0"
    using set_takeWhileD by fastforce
  moreover have "int (image_base g ver n) mod page_size g = 0" using padded_multiple [OF ps] by (simp add: image_base_def)
  ultimately show ?thesis unfolding offset_in_def of_nat_add by (simp add: mod_add_eq [symmetric] del: mod_add_eq)
qed

lemma image_dtb_at_offset:
  assumes ps: "0 < page_size g" and small: "small_files e g" and good: "all_good e g m as" and ver: "ver \<noteq> 0"
    and b: "b \<in> set (masters m as)"
  shows "\<exists>rest. drop (offset_in (image_base g ver (length as)) m as b) (qcdt_image e g m as ver) =
     dtb_content e m b @ replicate (page_pad g (length (dtb_content e m b))) 0 @ rest"
proof -
  let ?D = "\<lambda>b. concat (dtb_reqs e g m b)" and ?base = "image_base g ver (length as)"
  define hd where "hd = (QCDT_MAGIC @ le32 ver @ le32 (of_nat (length as))) @
     concat (map (\<lambda>a. concat (entry_reqs ?base m as ver a)) as) @
     (le32 0 @ replicate (page_pad g (header_size ver (length as))) 0)"
  have img: "qcdt_image e g m as ver = hd @ concat (map ?D (masters m as))"
    unfolding qcdt_image_parts hd_def by simp
  have hl: "length hd = ?base"
    unfolding hd_def using image_head_length [OF ver, of ?base m as as]
    by (simp add: image_base_def header_size_def QCDT_MAGIC_def del: length_concat)
  have sz: "map (\<lambda>x. length (?D x)) (takeWhile (\<lambda>x. x \<noteq> b) (masters m as)) = map (size_of m) (takeWhile (\<lambda>x. x \<noteq> b) (masters m as))"
    using good dtb_reqs_length(1) [OF ps small] by (auto simp: all_good_def simp del: set_masters dest: set_takeWhileD)
  have "drop (offset_in ?base m as b) (qcdt_image e g m as ver) =
      drop (sum_list (map (\<lambda>x. length (?D x)) (takeWhile (\<lambda>x. x \<noteq> b) (masters m as)))) (concat (map ?D (masters m as)))"
    unfolding img offset_in_def sz by (simp add: hl)
  with drop_concat_masters [OF b, of ?D] show ?thesis by (auto simp: dtb_reqs_def)
qed

lemma drop_concat_const:
  assumes "\<And>x. x \<in> set xs \<Longrightarrow> length (f x) = k" and "i < length xs"
  shows "take k (drop (k * i) (concat (map f xs) @ ys)) = f (xs ! i)"
  using assms
proof (induction xs arbitrary: i)
  case (Cons x xs)
  then show ?case by (cases i) auto
qed simp

lemma image_entry_at:
  assumes ver: "ver \<noteq> 0" and i: "i < length as"
  shows "take (nat (entry_size ver)) (drop (12 + nat (entry_size ver) * i) (qcdt_image e g m as ver)) =
     concat (entry_reqs (image_base g ver (length as)) m as ver (as ! i))"
proof -
  let ?E = "\<lambda>a. concat (entry_reqs (image_base g ver (length as)) m as ver a)"
  define hd where "hd = QCDT_MAGIC @ le32 ver @ le32 (of_nat (length as))"
  have "length hd = 12" by (simp add: hd_def QCDT_MAGIC_def)
  then have eq: "drop (12 + nat (entry_size ver) * i) (qcdt_image e g m as ver) =
      drop (nat (entry_size ver) * i) (concat (map ?E as) @ (le32 0 @ replicate (page_pad g (header_size ver (length as))) 0) @
        concat (map (\<lambda>b. concat (dtb_reqs e g m b)) (masters m as)))"
    unfolding qcdt_image_parts hd_def [symmetric] by simp
  show ?thesis
    unfolding eq by (rule drop_concat_const [where f = ?E, OF entry_reqs_length [OF ver] i])
qed

subsection \<open>From the scan to the image\<close>

lemma scan_inv_ready:
  assumes "scan_inv e g m as"
  shows "image_ready m as" "no_offsets m as" "chip_list m = first_addr as NULL" "chip_links m as"
proof -
  have l: "chip_links m as" and inv: "list_inv e g m as" using assms by (simp_all add: scan_inv_def chip_ok_def)
  have node: "\<exists>mc. chips m (master_of m a) = Some mc \<and> wroteDtb mc = 0 \<and> master_offset mc = 0 \<and> dtb_file mc \<noteq> None \<and>
      master_of m a \<noteq> NULL" if asm: "a \<in> set as" for a
  proof -
    obtain b where b: "b \<in> set as" "new_node m b a" "master_ok e g m b" using inv asm unfolding list_inv_def by blast
    then have mb: "master_of m a = b" by (auto simp: new_node_def info_def master_of_def)
    obtain b' where "new_node m b' b" using inv b(1) unfolding list_inv_def by blast
    with b(3) show ?thesis
      using chip_links_live [OF l b(1)] unfolding mb by (auto simp: new_node_def master_ok_def info_def)
  qed
  show "image_ready m as" using node l by (fastforce simp: image_ready_def chip_links_def)
  show "no_offsets m as" unfolding no_offsets_def using node by fastforce
  show "chip_list m = first_addr as NULL" using l by (simp add: chip_links_def)
  show "chip_links m as" by (rule l)
qed

definition out_version :: "dtb_conf \<Rightarrow> scan_state \<Rightarrow> u32" where
  "out_version g s = (if version_override g \<noteq> 0 then word_of_int (version_override g) else version s)"

text \<open>The image and the offsets it uses fit 32 bits.\<close>

definition image_fits :: "dtb_conf \<Rightarrow> scan_state \<Rightarrow> ptr list \<Rightarrow> bool" where
  "image_fits g s as \<longleftrightarrow> image_base g (out_version g s) (length as) + total_size (cm s) as < 2 ^ 32"

lemma generate_correct:
  assumes inv: "scan_inv e g (cm s) as" and ps: "0 < page_size g" and fits: "image_fits g s as"
    and law: "write_law orc" and small: "small_files e g" and ver: "out_version g s \<noteq> 0"
  defines "img \<equiv> qcdt_image e g (cm s) as (out_version g s)"
  shows "\<exists>m2. chip_deleteall m2 \<noteq> None \<and>
      (generate e g orc (int (length as)) s = Some (RC_ERROR, Removed, m2) \<or>
       generate e g orc (int (length as)) s = Some (RC_SUCCESS, Written img, m2)) \<and>
      (all_good e g (cm s) as \<and> (\<forall>i n. orc i n = int n) \<longrightarrow>
       generate e g orc (int (length as)) s = Some (RC_SUCCESS, Written img, m2))"
proof -
  let ?m = "cm s" and ?ver = "out_version g s" and ?o0 = "\<lparr>wrote = 0, out_bytes = [], out_calls = 0\<rparr>"
  let ?R = "image_reqs e g ?m as ?ver" and ?N = "image_base g ?ver (length as) + total_size ?m as"
  note ready = scan_inv_ready [OF inv]
  from generate_run [of s as g e orc] ready ps fits obtain m2 where
    m2: "dlseg c_next c_prev (chips m2) NULL as NULL" "chip_list m2 = chip_list ?m"
    and gen: "generate e g orc (int (length as)) s =
      (let oo = run_writes orc ?R ?o0 in
       if (\<forall>b\<in>set (masters ?m as). good_dtb e g ?m b) \<and> wrote oo = of_nat ?N
       then Some (RC_SUCCESS, Written (out_bytes oo), m2) else Some (RC_ERROR, Removed, m2))"
    unfolding image_fits_def out_version_def by blast
  have del: "chip_deleteall m2 \<noteq> None"
    using deleteall_loop_frees [OF m2(1)] ready(3,4) m2(2) by (simp add: chip_deleteall_def chip_links_def)
  have len: "length (concat ?R) = ?N" if "all_good e g ?m as"
    using qcdt_image_length [OF ps small that ver] by (simp add: qcdt_image_def)
  have bytes: "out_bytes (run_writes orc ?R ?o0) = img" if "all_good e g ?m as" "wrote (run_writes orc ?R ?o0) = of_nat ?N"
  proof -
    have "length (concat ?R) < 2 ^ 62" using len [OF that(1)] fits by (simp add: image_fits_def)
    moreover have "wrote (run_writes orc ?R ?o0) = word_of_int (int (length (concat ?R)))"
      using that by (simp add: len)
    ultimately show ?thesis
      using wrote_matches_full [OF law image_reqs_nonempty [OF ps], of e ?m as ?ver ?o0] by (simp add: img_def qcdt_image_def)
  qed
  have full: "wrote (run_writes orc ?R ?o0) = of_nat ?N" if "all_good e g ?m as" "\<forall>i n. orc i n = int n"
  proof -
    have "sum_list (results orc 0 ?R) = int (length (concat ?R))"
      using results_full [OF that(2), of 0 ?R] by (simp add: length_concat sum_list_of_nat [symmetric] comp_def)
    then show ?thesis using run_writes_wrote [of orc ?R ?o0] len [OF that(1)] by simp
  qed
  have "generate e g orc (int (length as)) s = Some (RC_SUCCESS, Written img, m2)"
    if "all_good e g ?m as" "wrote (run_writes orc ?R ?o0) = of_nat ?N"
    using gen bytes [OF that] that by (simp add: Let_def all_good_def)
  moreover have "generate e g orc (int (length as)) s = Some (RC_ERROR, Removed, m2)"
    if "\<not> (all_good e g ?m as \<and> wrote (run_writes orc ?R ?o0) = of_nat ?N)"
    using gen that by (auto simp: Let_def all_good_def)
  ultimately show ?thesis using del full by (intro exI [of _ m2]) blast
qed

lemma entry_reqs_bytes:
  assumes "ver \<noteq> 0"
  shows "take 4 (drop (nat (entry_size ver) - 8) (concat (entry_reqs base m as ver a))) = le32 (of_nat (offset_in base m as (master_of m a)))"
    "take 4 (drop (nat (entry_size ver) - 4) (concat (entry_reqs base m as ver a))) = le32 (dtb_size (the (chips m (master_of m a))))"
    "8 \<le> nat (entry_size ver)"
proof -
  define fs where "fs = concat (map le32 (entry_fields ver (the (chips m a))))"
  let ?o = "le32 (of_nat (offset_in base m as (master_of m a)))" and ?z = "le32 (dtb_size (the (chips m (master_of m a))))"
  have E: "concat (entry_reqs base m as ver a) = fs @ ?o @ ?z" by (simp add: entry_reqs_def fs_def)
  with entry_reqs_length [OF assms, of base m as a] have len: "length fs + 8 = nat (entry_size ver)" by simp
  then have "nat (entry_size ver) - 8 = length fs" "nat (entry_size ver) - 4 = length fs + 4" "8 \<le> nat (entry_size ver)" by simp_all
  then show "take 4 (drop (nat (entry_size ver) - 8) (concat (entry_reqs base m as ver a))) = ?o"
    "take 4 (drop (nat (entry_size ver) - 4) (concat (entry_reqs base m as ver a))) = ?z" "8 \<le> nat (entry_size ver)"
    unfolding E by simp_all
qed

lemma take_drop_inside: "a + 4 \<le> k \<Longrightarrow> take 4 (drop (n + a) xs) = take 4 (drop a (take k (drop n xs)))"
  by (simp add: drop_take add.commute)

text \<open>Nothing scanned means nothing listed: a non-empty list has a version.\<close>

lemma out_version_nonzero:
  assumes "find_dtb e g n path \<lparr>cm = m0, version = 0\<rparr> = Some (k, s)" and "chips m0 = Map.empty"
    and "scan_inv e g (cm s) as" and "as \<noteq> []" and "version_override g \<in> {0, 2, 3}"
  shows "out_version g s \<noteq> 0"
proof -
  have "version s \<noteq> 0"
  proof
    assume "version s = 0"
    from find_dtb_version(1) [OF assms(1) this] assms(2) have "chips (cm s) = Map.empty" by simp
    with chip_links_live [OF scan_inv_ready(4) [OF assms(3)], of "hd as"] assms(4) show False by simp
  qed
  with assms(5) show ?thesis by (auto simp: out_version_def)
qed

lemma scan_from_start:
  assumes "ranked e rank" and "opens_all e" and "path \<noteq> []" and "chip_brk m \<noteq> NULL" and "chips m = Map.empty" and "chip_list m = NULL"
  obtains s as where "find_dtb e g (Suc (rank path)) path \<lparr>cm = m, version = 0\<rparr> = Some (int (length as), s)" "scan_inv e g (cm s) as"
proof -
  let ?s = "\<lparr>cm = m, version = 0\<rparr>"
  have inv0: "scan_inv e g (cm ?s) []"
    using assms by (simp add: scan_inv_def chip_ok_def chip_links_def chip_order_def brk_ok_def list_inv_def)
  from find_dtb_total(1) [OF assms(1) lessI assms(3) inv0]
  obtain k s where run: "find_dtb e g (Suc (rank path)) path ?s = Some (k, s)" by auto
  from find_dtb_grown(1) [OF run inv0 assms(3)] obtain as where "grown e g [] k s as" by blast
  with assms(2) have "k = int (length as)" "scan_inv e g (cm s) as" by (simp_all add: grown_def)
  with run show thesis using that by blast
qed

subsection \<open>Properties\<close>

definition start_mem :: chip_mem where
  "start_mem = \<lparr>chips = Map.empty, chip_list = NULL, chip_brk = 1\<rparr>"

lemma start_mem_sel: "chip_brk start_mem \<noteq> NULL" "chips start_mem = Map.empty" "chip_list start_mem = NULL"
  by (simp_all add: start_mem_def)




definition image_env :: dtb_env where
  "image_env = flat_env\<lparr>fopen := \<lambda>_. Some [1, 2, 3]\<rparr>"

definition image_mem :: chip_mem where
  "image_mem = \<lparr>chips = [3 \<mapsto> (chip_ex 206)\<lparr>master := 3, dtb_size := 2048, dtb_file := Some ''./a.dtb''\<rparr>], chip_list = 3, chip_brk = 4\<rparr>"


text \<open>
  C12. When the input directory itself cannot be opened, the search returns -1, which the test for
  zero lets through: the tool creates the output file, computes a padding longer than one page and
  writes it from the one-page filler buffer, which reads beyond the buffer.
\<close>

theorem dtb_main_unreadable_input:
  assumes g: "parse_commandline opts dtb_globals = (RC_SUCCESS, g)" and out: "open_ok (the (output_file g))"
    and dir: "opendir e (the (input_dir g)) = None" and small: "28 < page_size g"
  shows "find_dtb e g (Suc n) (the (input_dir g)) \<lparr>cm = start_mem, version = 0\<rparr> = Some (- 1, \<lparr>cm = start_mem, version = 0\<rparr>) \<and>
     dtb_main e orc open_ok (Suc n) opts = None"
proof -
  let ?s = "\<lparr>cm = start_mem, version = 0\<rparr>"
  have run: "find_dtb e g (Suc n) (the (input_dir g)) ?s = Some (- 1, ?s)" using dir by (simp add: RC_ERROR_def)
  have "\<exists>x. version_override g = x \<and> x \<in> {0, 2, 3}" using parse_commandline_conf_ok [OF g] by (auto simp: conf_ok_def)
  then have es: "entry_size (if version_override g \<noteq> 0 then word_of_int (version_override g) else version ?s) \<in> {28, 44}"
    by (auto simp: entry_size_def)
  have table: "table_loop orc v NULL m x o1 = Some (m, x, o1)" for v m x o1 by (simp add: table_loop.simps)
  have pad: "page_size g < page_size g - c_mod (12 + z * - 1 + 4) (page_size g)" if "z \<in> {28, 44}" for z
    using that small by (auto simp: c_mod_def)
  have fill: "write_filler g orc (page_size g - c_mod (12 + z * - 1 + 4) (page_size g)) o1 = None" if "z \<in> {28, 44}" for z o1
    using pad [OF that] small by (simp add: write_filler_def)
  have "generate e g orc (- 1) ?s = None"
    unfolding generate_def Let_def using fill [OF es] by (simp add: table start_mem_def)
  with run g out show ?thesis unfolding start_mem_def by (simp add: dtb_main_def RC_SUCCESS_def)
qed

theorem dtb_main_unreadable_input_witness:
  "dtb_main (flat_env\<lparr>opendir := \<lambda>_. None\<rparr>) (\<lambda>i n. int n) (\<lambda>_. True) 1 [Opt_o ''dt.img''] = None"
proof -
  let ?g = "\<lparr>input_dir = Some ''./'', output_file = Some ''dt.img'', dtc_path = Some [], dt_tag = QCDT_DT_TAG,
        verbose = 0, page_size = 2048, version_override = 0\<rparr>"
  have g: "parse_commandline [Opt_o ''dt.img''] dtb_globals = (RC_SUCCESS, ?g)"
    by (simp add: parse_commandline_def dtb_globals_def PAGE_SIZE_DEF_def RC_SUCCESS_def)
  show ?thesis
    using dtb_main_unreadable_input [OF g, of "\<lambda>_. True" "flat_env\<lparr>opendir := \<lambda>_. None\<rparr>" 0 "\<lambda>i n. int n"] by simp
qed

end
