(* ===== verification/Loc_Ids.thy ===== *)
theory Loc_Ids
  imports Prelude
begin

text \<open>
  The message identifiers and event masks of the QMI location service that the client library
  names (\<^verbatim>\<open>gps/loc_api/loc_api_v02/location_service_v02.h\<close>). A request and the indication that
  answers it carry the same number. The names are input abbreviations, so a table written with
  them is a table of literals.
\<close>

subsection \<open>Messages\<close>

abbreviation (input) QMI_LOC_EVENT_POSITION_REPORT_IND_V02 :: u32 where
  "QMI_LOC_EVENT_POSITION_REPORT_IND_V02 \<equiv> 0x0024"

abbreviation (input) QMI_LOC_EVENT_GNSS_SV_INFO_IND_V02 :: u32 where
  "QMI_LOC_EVENT_GNSS_SV_INFO_IND_V02 \<equiv> 0x0025"

abbreviation (input) QMI_LOC_EVENT_NMEA_IND_V02 :: u32 where
  "QMI_LOC_EVENT_NMEA_IND_V02 \<equiv> 0x0026"

abbreviation (input) QMI_LOC_EVENT_NI_NOTIFY_VERIFY_REQ_IND_V02 :: u32 where
  "QMI_LOC_EVENT_NI_NOTIFY_VERIFY_REQ_IND_V02 \<equiv> 0x0027"

abbreviation (input) QMI_LOC_EVENT_INJECT_TIME_REQ_IND_V02 :: u32 where
  "QMI_LOC_EVENT_INJECT_TIME_REQ_IND_V02 \<equiv> 0x0028"

abbreviation (input) QMI_LOC_EVENT_INJECT_PREDICTED_ORBITS_REQ_IND_V02 :: u32 where
  "QMI_LOC_EVENT_INJECT_PREDICTED_ORBITS_REQ_IND_V02 \<equiv> 0x0029"

abbreviation (input) QMI_LOC_EVENT_INJECT_POSITION_REQ_IND_V02 :: u32 where
  "QMI_LOC_EVENT_INJECT_POSITION_REQ_IND_V02 \<equiv> 0x002A"

abbreviation (input) QMI_LOC_EVENT_ENGINE_STATE_IND_V02 :: u32 where
  "QMI_LOC_EVENT_ENGINE_STATE_IND_V02 \<equiv> 0x002B"

abbreviation (input) QMI_LOC_EVENT_FIX_SESSION_STATE_IND_V02 :: u32 where
  "QMI_LOC_EVENT_FIX_SESSION_STATE_IND_V02 \<equiv> 0x002C"

abbreviation (input) QMI_LOC_EVENT_WIFI_REQ_IND_V02 :: u32 where
  "QMI_LOC_EVENT_WIFI_REQ_IND_V02 \<equiv> 0x002D"

abbreviation (input) QMI_LOC_EVENT_SENSOR_STREAMING_READY_STATUS_IND_V02 :: u32 where
  "QMI_LOC_EVENT_SENSOR_STREAMING_READY_STATUS_IND_V02 \<equiv> 0x002E"

abbreviation (input) QMI_LOC_EVENT_TIME_SYNC_REQ_IND_V02 :: u32 where
  "QMI_LOC_EVENT_TIME_SYNC_REQ_IND_V02 \<equiv> 0x002F"

abbreviation (input) QMI_LOC_EVENT_SET_SPI_STREAMING_REPORT_IND_V02 :: u32 where
  "QMI_LOC_EVENT_SET_SPI_STREAMING_REPORT_IND_V02 \<equiv> 0x0030"

abbreviation (input) QMI_LOC_EVENT_LOCATION_SERVER_CONNECTION_REQ_IND_V02 :: u32 where
  "QMI_LOC_EVENT_LOCATION_SERVER_CONNECTION_REQ_IND_V02 \<equiv> 0x0031"

abbreviation (input) QMI_LOC_EVENT_NI_GEOFENCE_NOTIFICATION_IND_V02 :: u32 where
  "QMI_LOC_EVENT_NI_GEOFENCE_NOTIFICATION_IND_V02 \<equiv> 0x0060"

abbreviation (input) QMI_LOC_EVENT_GEOFENCE_GEN_ALERT_IND_V02 :: u32 where
  "QMI_LOC_EVENT_GEOFENCE_GEN_ALERT_IND_V02 \<equiv> 0x0061"

abbreviation (input) QMI_LOC_EVENT_GEOFENCE_BREACH_NOTIFICATION_IND_V02 :: u32 where
  "QMI_LOC_EVENT_GEOFENCE_BREACH_NOTIFICATION_IND_V02 \<equiv> 0x0062"

abbreviation (input) QMI_LOC_EVENT_GEOFENCE_BATCHED_BREACH_NOTIFICATION_IND_V02 :: u32 where
  "QMI_LOC_EVENT_GEOFENCE_BATCHED_BREACH_NOTIFICATION_IND_V02 \<equiv> 0x0080"

abbreviation (input) QMI_LOC_EVENT_PEDOMETER_CONTROL_IND_V02 :: u32 where
  "QMI_LOC_EVENT_PEDOMETER_CONTROL_IND_V02 \<equiv> 0x006D"

abbreviation (input) QMI_LOC_EVENT_MOTION_DATA_CONTROL_IND_V02 :: u32 where
  "QMI_LOC_EVENT_MOTION_DATA_CONTROL_IND_V02 \<equiv> 0x006E"

abbreviation (input) QMI_LOC_EVENT_INJECT_WIFI_AP_DATA_REQ_IND_V02 :: u32 where
  "QMI_LOC_EVENT_INJECT_WIFI_AP_DATA_REQ_IND_V02 \<equiv> 0x007C"

abbreviation (input) QMI_LOC_EVENT_LIVE_BATCHED_POSITION_REPORT_IND_V02 :: u32 where
  "QMI_LOC_EVENT_LIVE_BATCHED_POSITION_REPORT_IND_V02 \<equiv> 0x0078"

abbreviation (input) QMI_LOC_EVENT_BATCH_FULL_NOTIFICATION_IND_V02 :: u32 where
  "QMI_LOC_EVENT_BATCH_FULL_NOTIFICATION_IND_V02 \<equiv> 0x0077"

abbreviation (input) QMI_LOC_EVENT_VEHICLE_DATA_READY_STATUS_IND_V02 :: u32 where
  "QMI_LOC_EVENT_VEHICLE_DATA_READY_STATUS_IND_V02 \<equiv> 0x0081"

abbreviation (input) QMI_LOC_EVENT_GEOFENCE_PROXIMITY_NOTIFICATION_IND_V02 :: u32 where
  "QMI_LOC_EVENT_GEOFENCE_PROXIMITY_NOTIFICATION_IND_V02 \<equiv> 0x008C"

abbreviation (input) QMI_LOC_EVENT_GDT_UPLOAD_BEGIN_STATUS_REQ_IND_V02 :: u32 where
  "QMI_LOC_EVENT_GDT_UPLOAD_BEGIN_STATUS_REQ_IND_V02 \<equiv> 0x0090"

abbreviation (input) QMI_LOC_EVENT_GDT_UPLOAD_END_REQ_IND_V02 :: u32 where
  "QMI_LOC_EVENT_GDT_UPLOAD_END_REQ_IND_V02 \<equiv> 0x0091"

abbreviation (input) QMI_LOC_EVENT_GNSS_MEASUREMENT_REPORT_IND_V02 :: u32 where
  "QMI_LOC_EVENT_GNSS_MEASUREMENT_REPORT_IND_V02 \<equiv> 0x0086"

abbreviation (input) QMI_LOC_EVENT_DBT_POSITION_REPORT_IND_V02 :: u32 where
  "QMI_LOC_EVENT_DBT_POSITION_REPORT_IND_V02 \<equiv> 0x0093"

abbreviation (input) QMI_LOC_EVENT_GEOFENCE_BATCHED_DWELL_NOTIFICATION_IND_V02 :: u32 where
  "QMI_LOC_EVENT_GEOFENCE_BATCHED_DWELL_NOTIFICATION_IND_V02 \<equiv> 0x0097"

abbreviation (input) QMI_LOC_EVENT_GET_TIME_ZONE_INFO_IND_V02 :: u32 where
  "QMI_LOC_EVENT_GET_TIME_ZONE_INFO_IND_V02 \<equiv> 0x0098"

abbreviation (input) QMI_LOC_EVENT_BATCHING_STATUS_IND_V02 :: u32 where
  "QMI_LOC_EVENT_BATCHING_STATUS_IND_V02 \<equiv> 0x009C"

abbreviation (input) QMI_LOC_EVENT_GDT_DOWNLOAD_BEGIN_REQ_IND_V02 :: u32 where
  "QMI_LOC_EVENT_GDT_DOWNLOAD_BEGIN_REQ_IND_V02 \<equiv> 0x00A3"

abbreviation (input) QMI_LOC_EVENT_GDT_RECEIVE_DONE_IND_V02 :: u32 where
  "QMI_LOC_EVENT_GDT_RECEIVE_DONE_IND_V02 \<equiv> 0x00A4"

abbreviation (input) QMI_LOC_EVENT_GDT_DOWNLOAD_END_REQ_IND_V02 :: u32 where
  "QMI_LOC_EVENT_GDT_DOWNLOAD_END_REQ_IND_V02 \<equiv> 0x00A5"

abbreviation (input) QMI_LOC_GET_SERVICE_REVISION_IND_V02 :: u32 where
  "QMI_LOC_GET_SERVICE_REVISION_IND_V02 \<equiv> 0x0032"

abbreviation (input) QMI_LOC_GET_FIX_CRITERIA_IND_V02 :: u32 where
  "QMI_LOC_GET_FIX_CRITERIA_IND_V02 \<equiv> 0x0033"

abbreviation (input) QMI_LOC_NI_USER_RESPONSE_IND_V02 :: u32 where
  "QMI_LOC_NI_USER_RESPONSE_IND_V02 \<equiv> 0x0034"

abbreviation (input) QMI_LOC_INJECT_PREDICTED_ORBITS_DATA_IND_V02 :: u32 where
  "QMI_LOC_INJECT_PREDICTED_ORBITS_DATA_IND_V02 \<equiv> 0x0035"

abbreviation (input) QMI_LOC_GET_PREDICTED_ORBITS_DATA_SOURCE_IND_V02 :: u32 where
  "QMI_LOC_GET_PREDICTED_ORBITS_DATA_SOURCE_IND_V02 \<equiv> 0x0036"

abbreviation (input) QMI_LOC_GET_PREDICTED_ORBITS_DATA_VALIDITY_IND_V02 :: u32 where
  "QMI_LOC_GET_PREDICTED_ORBITS_DATA_VALIDITY_IND_V02 \<equiv> 0x0037"

abbreviation (input) QMI_LOC_INJECT_UTC_TIME_IND_V02 :: u32 where
  "QMI_LOC_INJECT_UTC_TIME_IND_V02 \<equiv> 0x0038"

abbreviation (input) QMI_LOC_INJECT_POSITION_IND_V02 :: u32 where
  "QMI_LOC_INJECT_POSITION_IND_V02 \<equiv> 0x0039"

abbreviation (input) QMI_LOC_SET_ENGINE_LOCK_IND_V02 :: u32 where
  "QMI_LOC_SET_ENGINE_LOCK_IND_V02 \<equiv> 0x003A"

abbreviation (input) QMI_LOC_GET_ENGINE_LOCK_IND_V02 :: u32 where
  "QMI_LOC_GET_ENGINE_LOCK_IND_V02 \<equiv> 0x003B"

abbreviation (input) QMI_LOC_SET_SBAS_CONFIG_IND_V02 :: u32 where
  "QMI_LOC_SET_SBAS_CONFIG_IND_V02 \<equiv> 0x003C"

abbreviation (input) QMI_LOC_GET_SBAS_CONFIG_IND_V02 :: u32 where
  "QMI_LOC_GET_SBAS_CONFIG_IND_V02 \<equiv> 0x003D"

abbreviation (input) QMI_LOC_SET_NMEA_TYPES_IND_V02 :: u32 where
  "QMI_LOC_SET_NMEA_TYPES_IND_V02 \<equiv> 0x003E"

abbreviation (input) QMI_LOC_GET_NMEA_TYPES_IND_V02 :: u32 where
  "QMI_LOC_GET_NMEA_TYPES_IND_V02 \<equiv> 0x003F"

abbreviation (input) QMI_LOC_SET_LOW_POWER_MODE_IND_V02 :: u32 where
  "QMI_LOC_SET_LOW_POWER_MODE_IND_V02 \<equiv> 0x0040"

abbreviation (input) QMI_LOC_GET_LOW_POWER_MODE_IND_V02 :: u32 where
  "QMI_LOC_GET_LOW_POWER_MODE_IND_V02 \<equiv> 0x0041"

abbreviation (input) QMI_LOC_SET_SERVER_IND_V02 :: u32 where
  "QMI_LOC_SET_SERVER_IND_V02 \<equiv> 0x0042"

abbreviation (input) QMI_LOC_GET_SERVER_IND_V02 :: u32 where
  "QMI_LOC_GET_SERVER_IND_V02 \<equiv> 0x0043"

abbreviation (input) QMI_LOC_DELETE_ASSIST_DATA_IND_V02 :: u32 where
  "QMI_LOC_DELETE_ASSIST_DATA_IND_V02 \<equiv> 0x0044"

abbreviation (input) QMI_LOC_INJECT_APCACHE_DATA_IND_V02 :: u32 where
  "QMI_LOC_INJECT_APCACHE_DATA_IND_V02 \<equiv> 0x009A"

abbreviation (input) QMI_LOC_INJECT_APDONOTCACHE_DATA_IND_V02 :: u32 where
  "QMI_LOC_INJECT_APDONOTCACHE_DATA_IND_V02 \<equiv> 0x009B"

abbreviation (input) QMI_LOC_SET_XTRA_T_SESSION_CONTROL_IND_V02 :: u32 where
  "QMI_LOC_SET_XTRA_T_SESSION_CONTROL_IND_V02 \<equiv> 0x0045"

abbreviation (input) QMI_LOC_GET_XTRA_T_SESSION_CONTROL_IND_V02 :: u32 where
  "QMI_LOC_GET_XTRA_T_SESSION_CONTROL_IND_V02 \<equiv> 0x0046"

abbreviation (input) QMI_LOC_INJECT_WIFI_POSITION_IND_V02 :: u32 where
  "QMI_LOC_INJECT_WIFI_POSITION_IND_V02 \<equiv> 0x0047"

abbreviation (input) QMI_LOC_NOTIFY_WIFI_STATUS_IND_V02 :: u32 where
  "QMI_LOC_NOTIFY_WIFI_STATUS_IND_V02 \<equiv> 0x0048"

abbreviation (input) QMI_LOC_GET_REGISTERED_EVENTS_IND_V02 :: u32 where
  "QMI_LOC_GET_REGISTERED_EVENTS_IND_V02 \<equiv> 0x0049"

abbreviation (input) QMI_LOC_SET_OPERATION_MODE_IND_V02 :: u32 where
  "QMI_LOC_SET_OPERATION_MODE_IND_V02 \<equiv> 0x004A"

abbreviation (input) QMI_LOC_GET_OPERATION_MODE_IND_V02 :: u32 where
  "QMI_LOC_GET_OPERATION_MODE_IND_V02 \<equiv> 0x004B"

abbreviation (input) QMI_LOC_SET_SPI_STATUS_IND_V02 :: u32 where
  "QMI_LOC_SET_SPI_STATUS_IND_V02 \<equiv> 0x004C"

abbreviation (input) QMI_LOC_INJECT_SENSOR_DATA_IND_V02 :: u32 where
  "QMI_LOC_INJECT_SENSOR_DATA_IND_V02 \<equiv> 0x004D"

abbreviation (input) QMI_LOC_INJECT_TIME_SYNC_DATA_IND_V02 :: u32 where
  "QMI_LOC_INJECT_TIME_SYNC_DATA_IND_V02 \<equiv> 0x004E"

abbreviation (input) QMI_LOC_SET_CRADLE_MOUNT_CONFIG_IND_V02 :: u32 where
  "QMI_LOC_SET_CRADLE_MOUNT_CONFIG_IND_V02 \<equiv> 0x004F"

abbreviation (input) QMI_LOC_GET_CRADLE_MOUNT_CONFIG_IND_V02 :: u32 where
  "QMI_LOC_GET_CRADLE_MOUNT_CONFIG_IND_V02 \<equiv> 0x0050"

abbreviation (input) QMI_LOC_SET_EXTERNAL_POWER_CONFIG_IND_V02 :: u32 where
  "QMI_LOC_SET_EXTERNAL_POWER_CONFIG_IND_V02 \<equiv> 0x0051"

abbreviation (input) QMI_LOC_GET_EXTERNAL_POWER_CONFIG_IND_V02 :: u32 where
  "QMI_LOC_GET_EXTERNAL_POWER_CONFIG_IND_V02 \<equiv> 0x0052"

abbreviation (input) QMI_LOC_INFORM_LOCATION_SERVER_CONN_STATUS_IND_V02 :: u32 where
  "QMI_LOC_INFORM_LOCATION_SERVER_CONN_STATUS_IND_V02 \<equiv> 0x0053"

abbreviation (input) QMI_LOC_SET_PROTOCOL_CONFIG_PARAMETERS_IND_V02 :: u32 where
  "QMI_LOC_SET_PROTOCOL_CONFIG_PARAMETERS_IND_V02 \<equiv> 0x0054"

abbreviation (input) QMI_LOC_GET_PROTOCOL_CONFIG_PARAMETERS_IND_V02 :: u32 where
  "QMI_LOC_GET_PROTOCOL_CONFIG_PARAMETERS_IND_V02 \<equiv> 0x0055"

abbreviation (input) QMI_LOC_SET_SENSOR_CONTROL_CONFIG_IND_V02 :: u32 where
  "QMI_LOC_SET_SENSOR_CONTROL_CONFIG_IND_V02 \<equiv> 0x0056"

abbreviation (input) QMI_LOC_GET_SENSOR_CONTROL_CONFIG_IND_V02 :: u32 where
  "QMI_LOC_GET_SENSOR_CONTROL_CONFIG_IND_V02 \<equiv> 0x0057"

abbreviation (input) QMI_LOC_SET_SENSOR_PROPERTIES_IND_V02 :: u32 where
  "QMI_LOC_SET_SENSOR_PROPERTIES_IND_V02 \<equiv> 0x0058"

abbreviation (input) QMI_LOC_GET_SENSOR_PROPERTIES_IND_V02 :: u32 where
  "QMI_LOC_GET_SENSOR_PROPERTIES_IND_V02 \<equiv> 0x0059"

abbreviation (input) QMI_LOC_SET_SENSOR_PERFORMANCE_CONTROL_CONFIGURATION_IND_V02 :: u32 where
  "QMI_LOC_SET_SENSOR_PERFORMANCE_CONTROL_CONFIGURATION_IND_V02 \<equiv> 0x005A"

abbreviation (input) QMI_LOC_GET_SENSOR_PERFORMANCE_CONTROL_CONFIGURATION_IND_V02 :: u32 where
  "QMI_LOC_GET_SENSOR_PERFORMANCE_CONTROL_CONFIGURATION_IND_V02 \<equiv> 0x005B"

abbreviation (input) QMI_LOC_INJECT_SUPL_CERTIFICATE_IND_V02 :: u32 where
  "QMI_LOC_INJECT_SUPL_CERTIFICATE_IND_V02 \<equiv> 0x005C"

abbreviation (input) QMI_LOC_DELETE_SUPL_CERTIFICATE_IND_V02 :: u32 where
  "QMI_LOC_DELETE_SUPL_CERTIFICATE_IND_V02 \<equiv> 0x005D"

abbreviation (input) QMI_LOC_SET_POSITION_ENGINE_CONFIG_PARAMETERS_IND_V02 :: u32 where
  "QMI_LOC_SET_POSITION_ENGINE_CONFIG_PARAMETERS_IND_V02 \<equiv> 0x005E"

abbreviation (input) QMI_LOC_GET_POSITION_ENGINE_CONFIG_PARAMETERS_IND_V02 :: u32 where
  "QMI_LOC_GET_POSITION_ENGINE_CONFIG_PARAMETERS_IND_V02 \<equiv> 0x005F"

abbreviation (input) QMI_LOC_ADD_CIRCULAR_GEOFENCE_IND_V02 :: u32 where
  "QMI_LOC_ADD_CIRCULAR_GEOFENCE_IND_V02 \<equiv> 0x0063"

abbreviation (input) QMI_LOC_DELETE_GEOFENCE_IND_V02 :: u32 where
  "QMI_LOC_DELETE_GEOFENCE_IND_V02 \<equiv> 0x0064"

abbreviation (input) QMI_LOC_QUERY_GEOFENCE_IND_V02 :: u32 where
  "QMI_LOC_QUERY_GEOFENCE_IND_V02 \<equiv> 0x0065"

abbreviation (input) QMI_LOC_EDIT_GEOFENCE_IND_V02 :: u32 where
  "QMI_LOC_EDIT_GEOFENCE_IND_V02 \<equiv> 0x0066"

abbreviation (input) QMI_LOC_GET_BEST_AVAILABLE_POSITION_IND_V02 :: u32 where
  "QMI_LOC_GET_BEST_AVAILABLE_POSITION_IND_V02 \<equiv> 0x0067"

abbreviation (input) QMI_LOC_SECURE_GET_AVAILABLE_POSITION_IND_V02 :: u32 where
  "QMI_LOC_SECURE_GET_AVAILABLE_POSITION_IND_V02 \<equiv> 0x0096"

abbreviation (input) QMI_LOC_INJECT_MOTION_DATA_IND_V02 :: u32 where
  "QMI_LOC_INJECT_MOTION_DATA_IND_V02 \<equiv> 0x0068"

abbreviation (input) QMI_LOC_GET_NI_GEOFENCE_ID_LIST_IND_V02 :: u32 where
  "QMI_LOC_GET_NI_GEOFENCE_ID_LIST_IND_V02 \<equiv> 0x0069"

abbreviation (input) QMI_LOC_INJECT_GSM_CELL_INFO_IND_V02 :: u32 where
  "QMI_LOC_INJECT_GSM_CELL_INFO_IND_V02 \<equiv> 0x006A"

abbreviation (input) QMI_LOC_INJECT_NETWORK_INITIATED_MESSAGE_IND_V02 :: u32 where
  "QMI_LOC_INJECT_NETWORK_INITIATED_MESSAGE_IND_V02 \<equiv> 0x006B"

abbreviation (input) QMI_LOC_WWAN_OUT_OF_SERVICE_NOTIFICATION_IND_V02 :: u32 where
  "QMI_LOC_WWAN_OUT_OF_SERVICE_NOTIFICATION_IND_V02 \<equiv> 0x006C"

abbreviation (input) QMI_LOC_PEDOMETER_REPORT_IND_V02 :: u32 where
  "QMI_LOC_PEDOMETER_REPORT_IND_V02 \<equiv> 0x006F"

abbreviation (input) QMI_LOC_INJECT_WCDMA_CELL_INFO_IND_V02 :: u32 where
  "QMI_LOC_INJECT_WCDMA_CELL_INFO_IND_V02 \<equiv> 0x0070"

abbreviation (input) QMI_LOC_INJECT_TDSCDMA_CELL_INFO_IND_V02 :: u32 where
  "QMI_LOC_INJECT_TDSCDMA_CELL_INFO_IND_V02 \<equiv> 0x0071"

abbreviation (input) QMI_LOC_INJECT_SUBSCRIBER_ID_IND_V02 :: u32 where
  "QMI_LOC_INJECT_SUBSCRIBER_ID_IND_V02 \<equiv> 0x0072"

abbreviation (input) QMI_LOC_INJECT_WIFI_AP_DATA_IND_V02 :: u32 where
  "QMI_LOC_INJECT_WIFI_AP_DATA_IND_V02 \<equiv> 0x007D"

abbreviation (input) QMI_LOC_START_BATCHING_IND_V02 :: u32 where
  "QMI_LOC_START_BATCHING_IND_V02 \<equiv> 0x0076"

abbreviation (input) QMI_LOC_STOP_BATCHING_IND_V02 :: u32 where
  "QMI_LOC_STOP_BATCHING_IND_V02 \<equiv> 0x007A"

abbreviation (input) QMI_LOC_GET_BATCH_SIZE_IND_V02 :: u32 where
  "QMI_LOC_GET_BATCH_SIZE_IND_V02 \<equiv> 0x0075"

abbreviation (input) QMI_LOC_READ_FROM_BATCH_IND_V02 :: u32 where
  "QMI_LOC_READ_FROM_BATCH_IND_V02 \<equiv> 0x0079"

abbreviation (input) QMI_LOC_RELEASE_BATCH_IND_V02 :: u32 where
  "QMI_LOC_RELEASE_BATCH_IND_V02 \<equiv> 0x007B"

abbreviation (input) QMI_LOC_SET_XTRA_VERSION_CHECK_IND_V02 :: u32 where
  "QMI_LOC_SET_XTRA_VERSION_CHECK_IND_V02 \<equiv> 0x0085"

abbreviation (input) QMI_LOC_INJECT_VEHICLE_SENSOR_DATA_IND_V02 :: u32 where
  "QMI_LOC_INJECT_VEHICLE_SENSOR_DATA_IND_V02 \<equiv> 0x0082"

abbreviation (input) QMI_LOC_NOTIFY_WIFI_ATTACHMENT_STATUS_IND_V02 :: u32 where
  "QMI_LOC_NOTIFY_WIFI_ATTACHMENT_STATUS_IND_V02 \<equiv> 0x007E"

abbreviation (input) QMI_LOC_NOTIFY_WIFI_ENABLED_STATUS_IND_V02 :: u32 where
  "QMI_LOC_NOTIFY_WIFI_ENABLED_STATUS_IND_V02 \<equiv> 0x007F"

abbreviation (input) QMI_LOC_SET_PREMIUM_SERVICES_CONFIG_IND_V02 :: u32 where
  "QMI_LOC_SET_PREMIUM_SERVICES_CONFIG_IND_V02 \<equiv> 0x0084"

abbreviation (input) QMI_LOC_GET_AVAILABLE_WWAN_POSITION_IND_V02 :: u32 where
  "QMI_LOC_GET_AVAILABLE_WWAN_POSITION_IND_V02 \<equiv> 0x0083"

abbreviation (input) QMI_LOC_INJECT_GTP_CLIENT_DOWNLOADED_DATA_IND_V02 :: u32 where
  "QMI_LOC_INJECT_GTP_CLIENT_DOWNLOADED_DATA_IND_V02 \<equiv> 0x008D"

abbreviation (input) QMI_LOC_GDT_UPLOAD_BEGIN_STATUS_IND_V02 :: u32 where
  "QMI_LOC_GDT_UPLOAD_BEGIN_STATUS_IND_V02 \<equiv> 0x008E"

abbreviation (input) QMI_LOC_GDT_UPLOAD_END_IND_V02 :: u32 where
  "QMI_LOC_GDT_UPLOAD_END_IND_V02 \<equiv> 0x008F"

abbreviation (input) QMI_LOC_SET_GNSS_CONSTELL_REPORT_CONFIG_IND_V02 :: u32 where
  "QMI_LOC_SET_GNSS_CONSTELL_REPORT_CONFIG_IND_V02 \<equiv> 0x0088"

abbreviation (input) QMI_LOC_START_DBT_IND_V02 :: u32 where
  "QMI_LOC_START_DBT_IND_V02 \<equiv> 0x0092"

abbreviation (input) QMI_LOC_STOP_DBT_IND_V02 :: u32 where
  "QMI_LOC_STOP_DBT_IND_V02 \<equiv> 0x0095"

abbreviation (input) QMI_LOC_INJECT_TIME_ZONE_INFO_IND_V02 :: u32 where
  "QMI_LOC_INJECT_TIME_ZONE_INFO_IND_V02 \<equiv> 0x0099"

abbreviation (input) QMI_LOC_QUERY_AON_CONFIG_IND_V02 :: u32 where
  "QMI_LOC_QUERY_AON_CONFIG_IND_V02 \<equiv> 0x009D"

abbreviation (input) QMI_LOC_GTP_AP_STATUS_IND_V02 :: u32 where
  "QMI_LOC_GTP_AP_STATUS_IND_V02 \<equiv> 0x009E"

abbreviation (input) QMI_LOC_GDT_DOWNLOAD_BEGIN_STATUS_IND_V02 :: u32 where
  "QMI_LOC_GDT_DOWNLOAD_BEGIN_STATUS_IND_V02 \<equiv> 0x009F"

abbreviation (input) QMI_LOC_GDT_DOWNLOAD_READY_STATUS_IND_V02 :: u32 where
  "QMI_LOC_GDT_DOWNLOAD_READY_STATUS_IND_V02 \<equiv> 0x00A0"

abbreviation (input) QMI_LOC_GDT_RECEIVE_DONE_STATUS_IND_V02 :: u32 where
  "QMI_LOC_GDT_RECEIVE_DONE_STATUS_IND_V02 \<equiv> 0x00A1"

abbreviation (input) QMI_LOC_GDT_DOWNLOAD_END_STATUS_IND_V02 :: u32 where
  "QMI_LOC_GDT_DOWNLOAD_END_STATUS_IND_V02 \<equiv> 0x00A2"

abbreviation (input) QMI_LOC_INFORM_CLIENT_REVISION_REQ_V02 :: u32 where
  "QMI_LOC_INFORM_CLIENT_REVISION_REQ_V02 \<equiv> 0x0020"

abbreviation (input) QMI_LOC_REG_EVENTS_REQ_V02 :: u32 where
  "QMI_LOC_REG_EVENTS_REQ_V02 \<equiv> 0x0021"

abbreviation (input) QMI_LOC_START_REQ_V02 :: u32 where
  "QMI_LOC_START_REQ_V02 \<equiv> 0x0022"

abbreviation (input) QMI_LOC_STOP_REQ_V02 :: u32 where
  "QMI_LOC_STOP_REQ_V02 \<equiv> 0x0023"

abbreviation (input) QMI_LOC_NI_USER_RESPONSE_REQ_V02 :: u32 where
  "QMI_LOC_NI_USER_RESPONSE_REQ_V02 \<equiv> 0x0034"

abbreviation (input) QMI_LOC_INJECT_PREDICTED_ORBITS_DATA_REQ_V02 :: u32 where
  "QMI_LOC_INJECT_PREDICTED_ORBITS_DATA_REQ_V02 \<equiv> 0x0035"

abbreviation (input) QMI_LOC_INJECT_UTC_TIME_REQ_V02 :: u32 where
  "QMI_LOC_INJECT_UTC_TIME_REQ_V02 \<equiv> 0x0038"

abbreviation (input) QMI_LOC_INJECT_POSITION_REQ_V02 :: u32 where
  "QMI_LOC_INJECT_POSITION_REQ_V02 \<equiv> 0x0039"

abbreviation (input) QMI_LOC_SET_ENGINE_LOCK_REQ_V02 :: u32 where
  "QMI_LOC_SET_ENGINE_LOCK_REQ_V02 \<equiv> 0x003A"

abbreviation (input) QMI_LOC_SET_SBAS_CONFIG_REQ_V02 :: u32 where
  "QMI_LOC_SET_SBAS_CONFIG_REQ_V02 \<equiv> 0x003C"

abbreviation (input) QMI_LOC_SET_NMEA_TYPES_REQ_V02 :: u32 where
  "QMI_LOC_SET_NMEA_TYPES_REQ_V02 \<equiv> 0x003E"

abbreviation (input) QMI_LOC_SET_LOW_POWER_MODE_REQ_V02 :: u32 where
  "QMI_LOC_SET_LOW_POWER_MODE_REQ_V02 \<equiv> 0x0040"

abbreviation (input) QMI_LOC_SET_SERVER_REQ_V02 :: u32 where
  "QMI_LOC_SET_SERVER_REQ_V02 \<equiv> 0x0042"

abbreviation (input) QMI_LOC_DELETE_ASSIST_DATA_REQ_V02 :: u32 where
  "QMI_LOC_DELETE_ASSIST_DATA_REQ_V02 \<equiv> 0x0044"

abbreviation (input) QMI_LOC_INJECT_APCACHE_DATA_REQ_V02 :: u32 where
  "QMI_LOC_INJECT_APCACHE_DATA_REQ_V02 \<equiv> 0x009A"

abbreviation (input) QMI_LOC_INJECT_APDONOTCACHE_DATA_REQ_V02 :: u32 where
  "QMI_LOC_INJECT_APDONOTCACHE_DATA_REQ_V02 \<equiv> 0x009B"

abbreviation (input) QMI_LOC_SET_XTRA_T_SESSION_CONTROL_REQ_V02 :: u32 where
  "QMI_LOC_SET_XTRA_T_SESSION_CONTROL_REQ_V02 \<equiv> 0x0045"

abbreviation (input) QMI_LOC_INJECT_WIFI_POSITION_REQ_V02 :: u32 where
  "QMI_LOC_INJECT_WIFI_POSITION_REQ_V02 \<equiv> 0x0047"

abbreviation (input) QMI_LOC_NOTIFY_WIFI_STATUS_REQ_V02 :: u32 where
  "QMI_LOC_NOTIFY_WIFI_STATUS_REQ_V02 \<equiv> 0x0048"

abbreviation (input) QMI_LOC_SET_OPERATION_MODE_REQ_V02 :: u32 where
  "QMI_LOC_SET_OPERATION_MODE_REQ_V02 \<equiv> 0x004A"

abbreviation (input) QMI_LOC_SET_SPI_STATUS_REQ_V02 :: u32 where
  "QMI_LOC_SET_SPI_STATUS_REQ_V02 \<equiv> 0x004C"

abbreviation (input) QMI_LOC_INJECT_SENSOR_DATA_REQ_V02 :: u32 where
  "QMI_LOC_INJECT_SENSOR_DATA_REQ_V02 \<equiv> 0x004D"

abbreviation (input) QMI_LOC_INJECT_TIME_SYNC_DATA_REQ_V02 :: u32 where
  "QMI_LOC_INJECT_TIME_SYNC_DATA_REQ_V02 \<equiv> 0x004E"

abbreviation (input) QMI_LOC_SET_CRADLE_MOUNT_CONFIG_REQ_V02 :: u32 where
  "QMI_LOC_SET_CRADLE_MOUNT_CONFIG_REQ_V02 \<equiv> 0x004F"

abbreviation (input) QMI_LOC_SET_EXTERNAL_POWER_CONFIG_REQ_V02 :: u32 where
  "QMI_LOC_SET_EXTERNAL_POWER_CONFIG_REQ_V02 \<equiv> 0x0051"

abbreviation (input) QMI_LOC_INFORM_LOCATION_SERVER_CONN_STATUS_REQ_V02 :: u32 where
  "QMI_LOC_INFORM_LOCATION_SERVER_CONN_STATUS_REQ_V02 \<equiv> 0x0053"

abbreviation (input) QMI_LOC_SET_PROTOCOL_CONFIG_PARAMETERS_REQ_V02 :: u32 where
  "QMI_LOC_SET_PROTOCOL_CONFIG_PARAMETERS_REQ_V02 \<equiv> 0x0054"

abbreviation (input) QMI_LOC_GET_PROTOCOL_CONFIG_PARAMETERS_REQ_V02 :: u32 where
  "QMI_LOC_GET_PROTOCOL_CONFIG_PARAMETERS_REQ_V02 \<equiv> 0x0055"

abbreviation (input) QMI_LOC_SET_SENSOR_CONTROL_CONFIG_REQ_V02 :: u32 where
  "QMI_LOC_SET_SENSOR_CONTROL_CONFIG_REQ_V02 \<equiv> 0x0056"

abbreviation (input) QMI_LOC_GET_SENSOR_PROPERTIES_REQ_V02 :: u32 where
  "QMI_LOC_GET_SENSOR_PROPERTIES_REQ_V02 \<equiv> 0x0059"

abbreviation (input) QMI_LOC_SET_SENSOR_PROPERTIES_REQ_V02 :: u32 where
  "QMI_LOC_SET_SENSOR_PROPERTIES_REQ_V02 \<equiv> 0x0058"

abbreviation (input) QMI_LOC_SET_SENSOR_PERFORMANCE_CONTROL_CONFIGURATION_REQ_V02 :: u32 where
  "QMI_LOC_SET_SENSOR_PERFORMANCE_CONTROL_CONFIGURATION_REQ_V02 \<equiv> 0x005A"

abbreviation (input) QMI_LOC_INJECT_SUPL_CERTIFICATE_REQ_V02 :: u32 where
  "QMI_LOC_INJECT_SUPL_CERTIFICATE_REQ_V02 \<equiv> 0x005C"

abbreviation (input) QMI_LOC_DELETE_SUPL_CERTIFICATE_REQ_V02 :: u32 where
  "QMI_LOC_DELETE_SUPL_CERTIFICATE_REQ_V02 \<equiv> 0x005D"

abbreviation (input) QMI_LOC_SET_POSITION_ENGINE_CONFIG_PARAMETERS_REQ_V02 :: u32 where
  "QMI_LOC_SET_POSITION_ENGINE_CONFIG_PARAMETERS_REQ_V02 \<equiv> 0x005E"

abbreviation (input) QMI_LOC_GET_POSITION_ENGINE_CONFIG_PARAMETERS_REQ_V02 :: u32 where
  "QMI_LOC_GET_POSITION_ENGINE_CONFIG_PARAMETERS_REQ_V02 \<equiv> 0x005F"

abbreviation (input) QMI_LOC_ADD_CIRCULAR_GEOFENCE_REQ_V02 :: u32 where
  "QMI_LOC_ADD_CIRCULAR_GEOFENCE_REQ_V02 \<equiv> 0x0063"

abbreviation (input) QMI_LOC_DELETE_GEOFENCE_REQ_V02 :: u32 where
  "QMI_LOC_DELETE_GEOFENCE_REQ_V02 \<equiv> 0x0064"

abbreviation (input) QMI_LOC_QUERY_GEOFENCE_REQ_V02 :: u32 where
  "QMI_LOC_QUERY_GEOFENCE_REQ_V02 \<equiv> 0x0065"

abbreviation (input) QMI_LOC_EDIT_GEOFENCE_REQ_V02 :: u32 where
  "QMI_LOC_EDIT_GEOFENCE_REQ_V02 \<equiv> 0x0066"

abbreviation (input) QMI_LOC_GET_BEST_AVAILABLE_POSITION_REQ_V02 :: u32 where
  "QMI_LOC_GET_BEST_AVAILABLE_POSITION_REQ_V02 \<equiv> 0x0067"

abbreviation (input) QMI_LOC_SECURE_GET_AVAILABLE_POSITION_REQ_V02 :: u32 where
  "QMI_LOC_SECURE_GET_AVAILABLE_POSITION_REQ_V02 \<equiv> 0x0096"

abbreviation (input) QMI_LOC_INJECT_MOTION_DATA_REQ_V02 :: u32 where
  "QMI_LOC_INJECT_MOTION_DATA_REQ_V02 \<equiv> 0x0068"

abbreviation (input) QMI_LOC_GET_NI_GEOFENCE_ID_LIST_REQ_V02 :: u32 where
  "QMI_LOC_GET_NI_GEOFENCE_ID_LIST_REQ_V02 \<equiv> 0x0069"

abbreviation (input) QMI_LOC_INJECT_GSM_CELL_INFO_REQ_V02 :: u32 where
  "QMI_LOC_INJECT_GSM_CELL_INFO_REQ_V02 \<equiv> 0x006A"

abbreviation (input) QMI_LOC_INJECT_NETWORK_INITIATED_MESSAGE_REQ_V02 :: u32 where
  "QMI_LOC_INJECT_NETWORK_INITIATED_MESSAGE_REQ_V02 \<equiv> 0x006B"

abbreviation (input) QMI_LOC_PEDOMETER_REPORT_REQ_V02 :: u32 where
  "QMI_LOC_PEDOMETER_REPORT_REQ_V02 \<equiv> 0x006F"

abbreviation (input) QMI_LOC_INJECT_WCDMA_CELL_INFO_REQ_V02 :: u32 where
  "QMI_LOC_INJECT_WCDMA_CELL_INFO_REQ_V02 \<equiv> 0x0070"

abbreviation (input) QMI_LOC_INJECT_TDSCDMA_CELL_INFO_REQ_V02 :: u32 where
  "QMI_LOC_INJECT_TDSCDMA_CELL_INFO_REQ_V02 \<equiv> 0x0071"

abbreviation (input) QMI_LOC_INJECT_WIFI_AP_DATA_REQ_V02 :: u32 where
  "QMI_LOC_INJECT_WIFI_AP_DATA_REQ_V02 \<equiv> 0x007D"

abbreviation (input) QMI_LOC_GET_BATCH_SIZE_REQ_V02 :: u32 where
  "QMI_LOC_GET_BATCH_SIZE_REQ_V02 \<equiv> 0x0075"

abbreviation (input) QMI_LOC_START_BATCHING_REQ_V02 :: u32 where
  "QMI_LOC_START_BATCHING_REQ_V02 \<equiv> 0x0076"

abbreviation (input) QMI_LOC_READ_FROM_BATCH_REQ_V02 :: u32 where
  "QMI_LOC_READ_FROM_BATCH_REQ_V02 \<equiv> 0x0079"

abbreviation (input) QMI_LOC_STOP_BATCHING_REQ_V02 :: u32 where
  "QMI_LOC_STOP_BATCHING_REQ_V02 \<equiv> 0x007A"

abbreviation (input) QMI_LOC_RELEASE_BATCH_REQ_V02 :: u32 where
  "QMI_LOC_RELEASE_BATCH_REQ_V02 \<equiv> 0x007B"

abbreviation (input) QMI_LOC_SET_XTRA_VERSION_CHECK_REQ_V02 :: u32 where
  "QMI_LOC_SET_XTRA_VERSION_CHECK_REQ_V02 \<equiv> 0x0085"

abbreviation (input) QMI_LOC_INJECT_VEHICLE_SENSOR_DATA_REQ_V02 :: u32 where
  "QMI_LOC_INJECT_VEHICLE_SENSOR_DATA_REQ_V02 \<equiv> 0x0082"

abbreviation (input) QMI_LOC_NOTIFY_WIFI_ATTACHMENT_STATUS_REQ_V02 :: u32 where
  "QMI_LOC_NOTIFY_WIFI_ATTACHMENT_STATUS_REQ_V02 \<equiv> 0x007E"

abbreviation (input) QMI_LOC_NOTIFY_WIFI_ENABLED_STATUS_REQ_V02 :: u32 where
  "QMI_LOC_NOTIFY_WIFI_ENABLED_STATUS_REQ_V02 \<equiv> 0x007F"

abbreviation (input) QMI_LOC_SET_PREMIUM_SERVICES_CONFIG_REQ_V02 :: u32 where
  "QMI_LOC_SET_PREMIUM_SERVICES_CONFIG_REQ_V02 \<equiv> 0x0084"

abbreviation (input) QMI_LOC_GET_AVAILABLE_WWAN_POSITION_REQ_V02 :: u32 where
  "QMI_LOC_GET_AVAILABLE_WWAN_POSITION_REQ_V02 \<equiv> 0x0083"

abbreviation (input) QMI_LOC_INJECT_GTP_CLIENT_DOWNLOADED_DATA_REQ_V02 :: u32 where
  "QMI_LOC_INJECT_GTP_CLIENT_DOWNLOADED_DATA_REQ_V02 \<equiv> 0x008D"

abbreviation (input) QMI_LOC_GDT_UPLOAD_BEGIN_STATUS_REQ_V02 :: u32 where
  "QMI_LOC_GDT_UPLOAD_BEGIN_STATUS_REQ_V02 \<equiv> 0x008E"

abbreviation (input) QMI_LOC_GDT_UPLOAD_END_REQ_V02 :: u32 where
  "QMI_LOC_GDT_UPLOAD_END_REQ_V02 \<equiv> 0x008F"

abbreviation (input) QMI_LOC_SET_GNSS_CONSTELL_REPORT_CONFIG_V02 :: u32 where
  "QMI_LOC_SET_GNSS_CONSTELL_REPORT_CONFIG_V02 \<equiv> 0x0088"

abbreviation (input) QMI_LOC_START_DBT_REQ_V02 :: u32 where
  "QMI_LOC_START_DBT_REQ_V02 \<equiv> 0x0092"

abbreviation (input) QMI_LOC_STOP_DBT_REQ_V02 :: u32 where
  "QMI_LOC_STOP_DBT_REQ_V02 \<equiv> 0x0095"

abbreviation (input) QMI_LOC_INJECT_TIME_ZONE_INFO_REQ_V02 :: u32 where
  "QMI_LOC_INJECT_TIME_ZONE_INFO_REQ_V02 \<equiv> 0x0099"

abbreviation (input) QMI_LOC_QUERY_AON_CONFIG_REQ_V02 :: u32 where
  "QMI_LOC_QUERY_AON_CONFIG_REQ_V02 \<equiv> 0x009D"

abbreviation (input) QMI_LOC_GTP_AP_STATUS_REQ_V02 :: u32 where
  "QMI_LOC_GTP_AP_STATUS_REQ_V02 \<equiv> 0x009E"

abbreviation (input) QMI_LOC_GDT_DOWNLOAD_BEGIN_STATUS_REQ_V02 :: u32 where
  "QMI_LOC_GDT_DOWNLOAD_BEGIN_STATUS_REQ_V02 \<equiv> 0x009F"

abbreviation (input) QMI_LOC_GDT_DOWNLOAD_READY_STATUS_REQ_V02 :: u32 where
  "QMI_LOC_GDT_DOWNLOAD_READY_STATUS_REQ_V02 \<equiv> 0x00A0"

abbreviation (input) QMI_LOC_GDT_RECEIVE_DONE_STATUS_REQ_V02 :: u32 where
  "QMI_LOC_GDT_RECEIVE_DONE_STATUS_REQ_V02 \<equiv> 0x00A1"

abbreviation (input) QMI_LOC_GDT_DOWNLOAD_END_STATUS_REQ_V02 :: u32 where
  "QMI_LOC_GDT_DOWNLOAD_END_STATUS_REQ_V02 \<equiv> 0x00A2"

abbreviation (input) QMI_LOC_GET_SERVICE_REVISION_REQ_V02 :: u32 where
  "QMI_LOC_GET_SERVICE_REVISION_REQ_V02 \<equiv> 0x0032"

abbreviation (input) QMI_LOC_GET_FIX_CRITERIA_REQ_V02 :: u32 where
  "QMI_LOC_GET_FIX_CRITERIA_REQ_V02 \<equiv> 0x0033"

abbreviation (input) QMI_LOC_GET_PREDICTED_ORBITS_DATA_SOURCE_REQ_V02 :: u32 where
  "QMI_LOC_GET_PREDICTED_ORBITS_DATA_SOURCE_REQ_V02 \<equiv> 0x0036"

abbreviation (input) QMI_LOC_GET_PREDICTED_ORBITS_DATA_VALIDITY_REQ_V02 :: u32 where
  "QMI_LOC_GET_PREDICTED_ORBITS_DATA_VALIDITY_REQ_V02 \<equiv> 0x0037"

abbreviation (input) QMI_LOC_GET_ENGINE_LOCK_REQ_V02 :: u32 where
  "QMI_LOC_GET_ENGINE_LOCK_REQ_V02 \<equiv> 0x003B"

abbreviation (input) QMI_LOC_GET_SBAS_CONFIG_REQ_V02 :: u32 where
  "QMI_LOC_GET_SBAS_CONFIG_REQ_V02 \<equiv> 0x003D"

abbreviation (input) QMI_LOC_GET_NMEA_TYPES_REQ_V02 :: u32 where
  "QMI_LOC_GET_NMEA_TYPES_REQ_V02 \<equiv> 0x003F"

abbreviation (input) QMI_LOC_GET_LOW_POWER_MODE_REQ_V02 :: u32 where
  "QMI_LOC_GET_LOW_POWER_MODE_REQ_V02 \<equiv> 0x0041"

abbreviation (input) QMI_LOC_GET_SERVER_REQ_V02 :: u32 where
  "QMI_LOC_GET_SERVER_REQ_V02 \<equiv> 0x0043"

abbreviation (input) QMI_LOC_GET_XTRA_T_SESSION_CONTROL_REQ_V02 :: u32 where
  "QMI_LOC_GET_XTRA_T_SESSION_CONTROL_REQ_V02 \<equiv> 0x0046"

abbreviation (input) QMI_LOC_GET_REGISTERED_EVENTS_REQ_V02 :: u32 where
  "QMI_LOC_GET_REGISTERED_EVENTS_REQ_V02 \<equiv> 0x0049"

abbreviation (input) QMI_LOC_GET_OPERATION_MODE_REQ_V02 :: u32 where
  "QMI_LOC_GET_OPERATION_MODE_REQ_V02 \<equiv> 0x004B"

abbreviation (input) QMI_LOC_GET_CRADLE_MOUNT_CONFIG_REQ_V02 :: u32 where
  "QMI_LOC_GET_CRADLE_MOUNT_CONFIG_REQ_V02 \<equiv> 0x0050"

abbreviation (input) QMI_LOC_GET_EXTERNAL_POWER_CONFIG_REQ_V02 :: u32 where
  "QMI_LOC_GET_EXTERNAL_POWER_CONFIG_REQ_V02 \<equiv> 0x0052"

abbreviation (input) QMI_LOC_GET_SENSOR_CONTROL_CONFIG_REQ_V02 :: u32 where
  "QMI_LOC_GET_SENSOR_CONTROL_CONFIG_REQ_V02 \<equiv> 0x0057"

abbreviation (input) QMI_LOC_GET_SENSOR_PERFORMANCE_CONTROL_CONFIGURATION_REQ_V02 :: u32 where
  "QMI_LOC_GET_SENSOR_PERFORMANCE_CONTROL_CONFIGURATION_REQ_V02 \<equiv> 0x005B"

abbreviation (input) QMI_LOC_WWAN_OUT_OF_SERVICE_NOTIFICATION_REQ_V02 :: u32 where
  "QMI_LOC_WWAN_OUT_OF_SERVICE_NOTIFICATION_REQ_V02 \<equiv> 0x006C"

abbreviation (input) QMI_LOC_GET_SUPPORTED_MSGS_REQ_V02 :: u32 where
  "QMI_LOC_GET_SUPPORTED_MSGS_REQ_V02 \<equiv> 0x001E"

abbreviation (input) QMI_LOC_GET_SUPPORTED_FIELDS_REQ_V02 :: u32 where
  "QMI_LOC_GET_SUPPORTED_FIELDS_REQ_V02 \<equiv> 0x001F"

subsection \<open>Event masks\<close>

abbreviation (input) QMI_LOC_EVENT_MASK_POSITION_REPORT_V02 :: u64 where
  "QMI_LOC_EVENT_MASK_POSITION_REPORT_V02 \<equiv> 0x00000001"

abbreviation (input) QMI_LOC_EVENT_MASK_GNSS_SV_INFO_V02 :: u64 where
  "QMI_LOC_EVENT_MASK_GNSS_SV_INFO_V02 \<equiv> 0x00000002"

abbreviation (input) QMI_LOC_EVENT_MASK_NMEA_V02 :: u64 where
  "QMI_LOC_EVENT_MASK_NMEA_V02 \<equiv> 0x00000004"

abbreviation (input) QMI_LOC_EVENT_MASK_NI_NOTIFY_VERIFY_REQ_V02 :: u64 where
  "QMI_LOC_EVENT_MASK_NI_NOTIFY_VERIFY_REQ_V02 \<equiv> 0x00000008"

abbreviation (input) QMI_LOC_EVENT_MASK_INJECT_TIME_REQ_V02 :: u64 where
  "QMI_LOC_EVENT_MASK_INJECT_TIME_REQ_V02 \<equiv> 0x00000010"

abbreviation (input) QMI_LOC_EVENT_MASK_INJECT_PREDICTED_ORBITS_REQ_V02 :: u64 where
  "QMI_LOC_EVENT_MASK_INJECT_PREDICTED_ORBITS_REQ_V02 \<equiv> 0x00000020"

abbreviation (input) QMI_LOC_EVENT_MASK_INJECT_POSITION_REQ_V02 :: u64 where
  "QMI_LOC_EVENT_MASK_INJECT_POSITION_REQ_V02 \<equiv> 0x00000040"

abbreviation (input) QMI_LOC_EVENT_MASK_ENGINE_STATE_V02 :: u64 where
  "QMI_LOC_EVENT_MASK_ENGINE_STATE_V02 \<equiv> 0x00000080"

abbreviation (input) QMI_LOC_EVENT_MASK_FIX_SESSION_STATE_V02 :: u64 where
  "QMI_LOC_EVENT_MASK_FIX_SESSION_STATE_V02 \<equiv> 0x00000100"

abbreviation (input) QMI_LOC_EVENT_MASK_WIFI_REQ_V02 :: u64 where
  "QMI_LOC_EVENT_MASK_WIFI_REQ_V02 \<equiv> 0x00000200"

abbreviation (input) QMI_LOC_EVENT_MASK_SENSOR_STREAMING_READY_STATUS_V02 :: u64 where
  "QMI_LOC_EVENT_MASK_SENSOR_STREAMING_READY_STATUS_V02 \<equiv> 0x00000400"

abbreviation (input) QMI_LOC_EVENT_MASK_TIME_SYNC_REQ_V02 :: u64 where
  "QMI_LOC_EVENT_MASK_TIME_SYNC_REQ_V02 \<equiv> 0x00000800"

abbreviation (input) QMI_LOC_EVENT_MASK_SET_SPI_STREAMING_REPORT_V02 :: u64 where
  "QMI_LOC_EVENT_MASK_SET_SPI_STREAMING_REPORT_V02 \<equiv> 0x00001000"

abbreviation (input) QMI_LOC_EVENT_MASK_LOCATION_SERVER_CONNECTION_REQ_V02 :: u64 where
  "QMI_LOC_EVENT_MASK_LOCATION_SERVER_CONNECTION_REQ_V02 \<equiv> 0x00002000"

abbreviation (input) QMI_LOC_EVENT_MASK_NI_GEOFENCE_NOTIFICATION_V02 :: u64 where
  "QMI_LOC_EVENT_MASK_NI_GEOFENCE_NOTIFICATION_V02 \<equiv> 0x00004000"

abbreviation (input) QMI_LOC_EVENT_MASK_GEOFENCE_GEN_ALERT_V02 :: u64 where
  "QMI_LOC_EVENT_MASK_GEOFENCE_GEN_ALERT_V02 \<equiv> 0x00008000"

abbreviation (input) QMI_LOC_EVENT_MASK_GEOFENCE_BREACH_NOTIFICATION_V02 :: u64 where
  "QMI_LOC_EVENT_MASK_GEOFENCE_BREACH_NOTIFICATION_V02 \<equiv> 0x00010000"

abbreviation (input) QMI_LOC_EVENT_MASK_GEOFENCE_BATCH_BREACH_NOTIFICATION_V02 :: u64 where
  "QMI_LOC_EVENT_MASK_GEOFENCE_BATCH_BREACH_NOTIFICATION_V02 \<equiv> 0x00400000"

abbreviation (input) QMI_LOC_EVENT_MASK_PEDOMETER_CONTROL_V02 :: u64 where
  "QMI_LOC_EVENT_MASK_PEDOMETER_CONTROL_V02 \<equiv> 0x00020000"

abbreviation (input) QMI_LOC_EVENT_MASK_MOTION_DATA_CONTROL_V02 :: u64 where
  "QMI_LOC_EVENT_MASK_MOTION_DATA_CONTROL_V02 \<equiv> 0x00040000"

abbreviation (input) QMI_LOC_EVENT_MASK_INJECT_WIFI_AP_DATA_REQ_V02 :: u64 where
  "QMI_LOC_EVENT_MASK_INJECT_WIFI_AP_DATA_REQ_V02 \<equiv> 0x00200000"

abbreviation (input) QMI_LOC_EVENT_MASK_LIVE_BATCHED_POSITION_REPORT_V02 :: u64 where
  "QMI_LOC_EVENT_MASK_LIVE_BATCHED_POSITION_REPORT_V02 \<equiv> 0x00100000"

abbreviation (input) QMI_LOC_EVENT_MASK_BATCH_FULL_NOTIFICATION_V02 :: u64 where
  "QMI_LOC_EVENT_MASK_BATCH_FULL_NOTIFICATION_V02 \<equiv> 0x00080000"

abbreviation (input) QMI_LOC_EVENT_MASK_VEHICLE_DATA_READY_STATUS_V02 :: u64 where
  "QMI_LOC_EVENT_MASK_VEHICLE_DATA_READY_STATUS_V02 \<equiv> 0x00800000"

abbreviation (input) QMI_LOC_EVENT_MASK_GEOFENCE_PROXIMITY_NOTIFICATION_V02 :: u64 where
  "QMI_LOC_EVENT_MASK_GEOFENCE_PROXIMITY_NOTIFICATION_V02 \<equiv> 0x04000000"

abbreviation (input) QMI_LOC_EVENT_MASK_GDT_UPLOAD_BEGIN_REQ_V02 :: u64 where
  "QMI_LOC_EVENT_MASK_GDT_UPLOAD_BEGIN_REQ_V02 \<equiv> 0x08000000"

abbreviation (input) QMI_LOC_EVENT_MASK_GDT_UPLOAD_END_REQ_V02 :: u64 where
  "QMI_LOC_EVENT_MASK_GDT_UPLOAD_END_REQ_V02 \<equiv> 0x10000000"

abbreviation (input) QMI_LOC_EVENT_MASK_GNSS_MEASUREMENT_REPORT_V02 :: u64 where
  "QMI_LOC_EVENT_MASK_GNSS_MEASUREMENT_REPORT_V02 \<equiv> 0x01000000"

abbreviation (input) QMI_LOC_EVENT_MASK_GEOFENCE_BATCH_DWELL_NOTIFICATION_V02 :: u64 where
  "QMI_LOC_EVENT_MASK_GEOFENCE_BATCH_DWELL_NOTIFICATION_V02 \<equiv> 0x20000000"

abbreviation (input) QMI_LOC_EVENT_MASK_GET_TIME_ZONE_REQ_V02 :: u64 where
  "QMI_LOC_EVENT_MASK_GET_TIME_ZONE_REQ_V02 \<equiv> 0x40000000"

abbreviation (input) QMI_LOC_EVENT_MASK_BATCHING_STATUS_V02 :: u64 where
  "QMI_LOC_EVENT_MASK_BATCHING_STATUS_V02 \<equiv> 0x80000000"

end
