(* ===== verification/Loc_Tables.thy ===== *)
theory Loc_Tables
  imports Loc_Ids
begin

text \<open>
  The constant tables of the location client (\<^verbatim>\<open>gps/loc_api/loc_api_v02/loc_api_v02_client.c\<close>):
  the indications it can decode, split into events and answers to requests, the requests it is
  ready to send, and the searches through them. The size of a message structure is what the
  compiler lays out, so \<^verbatim>\<open>sizeof\<close> is the parameter \<open>size_of\<close>, applied to the name of the
  structure. Long tables are cut into parts that are concatenated in source order.
\<close>

subsection \<open>Event indications\<close>

record locClientEventIndTableStructT =
  eventId :: u32
  eventSize :: nat
  eventMask :: u64

type_synonym size_of = "string \<Rightarrow> nat"

definition locClientEventIndTable_1 :: "size_of \<Rightarrow> locClientEventIndTableStructT list" where
  "locClientEventIndTable_1 size_of =
     [\<lparr>eventId = QMI_LOC_EVENT_POSITION_REPORT_IND_V02,
        eventSize = size_of ''qmiLocEventPositionReportIndMsgT_v02'',
        eventMask = QMI_LOC_EVENT_MASK_POSITION_REPORT_V02\<rparr>,
      \<lparr>eventId = QMI_LOC_EVENT_GNSS_SV_INFO_IND_V02,
        eventSize = size_of ''qmiLocEventGnssSvInfoIndMsgT_v02'',
        eventMask = QMI_LOC_EVENT_MASK_GNSS_SV_INFO_V02\<rparr>,
      \<lparr>eventId = QMI_LOC_EVENT_NMEA_IND_V02,
        eventSize = size_of ''qmiLocEventNmeaIndMsgT_v02'',
        eventMask = QMI_LOC_EVENT_MASK_NMEA_V02\<rparr>,
      \<lparr>eventId = QMI_LOC_EVENT_NI_NOTIFY_VERIFY_REQ_IND_V02,
        eventSize = size_of ''qmiLocEventNiNotifyVerifyReqIndMsgT_v02'',
        eventMask = QMI_LOC_EVENT_MASK_NI_NOTIFY_VERIFY_REQ_V02\<rparr>,
      \<lparr>eventId = QMI_LOC_EVENT_INJECT_TIME_REQ_IND_V02,
        eventSize = size_of ''qmiLocEventInjectTimeReqIndMsgT_v02'',
        eventMask = QMI_LOC_EVENT_MASK_INJECT_TIME_REQ_V02\<rparr>,
      \<lparr>eventId = QMI_LOC_EVENT_INJECT_PREDICTED_ORBITS_REQ_IND_V02,
        eventSize = size_of ''qmiLocEventInjectPredictedOrbitsReqIndMsgT_v02'',
        eventMask = QMI_LOC_EVENT_MASK_INJECT_PREDICTED_ORBITS_REQ_V02\<rparr>,
      \<lparr>eventId = QMI_LOC_EVENT_INJECT_POSITION_REQ_IND_V02,
        eventSize = size_of ''qmiLocEventInjectPositionReqIndMsgT_v02'',
        eventMask = QMI_LOC_EVENT_MASK_INJECT_POSITION_REQ_V02\<rparr>,
      \<lparr>eventId = QMI_LOC_EVENT_ENGINE_STATE_IND_V02,
        eventSize = size_of ''qmiLocEventEngineStateIndMsgT_v02'',
        eventMask = QMI_LOC_EVENT_MASK_ENGINE_STATE_V02\<rparr>,
      \<lparr>eventId = QMI_LOC_EVENT_FIX_SESSION_STATE_IND_V02,
        eventSize = size_of ''qmiLocEventFixSessionStateIndMsgT_v02'',
        eventMask = QMI_LOC_EVENT_MASK_FIX_SESSION_STATE_V02\<rparr>,
      \<lparr>eventId = QMI_LOC_EVENT_WIFI_REQ_IND_V02,
        eventSize = size_of ''qmiLocEventWifiReqIndMsgT_v02'',
        eventMask = QMI_LOC_EVENT_MASK_WIFI_REQ_V02\<rparr>,
      \<lparr>eventId = QMI_LOC_EVENT_SENSOR_STREAMING_READY_STATUS_IND_V02,
        eventSize = size_of ''qmiLocEventSensorStreamingReadyStatusIndMsgT_v02'',
        eventMask = QMI_LOC_EVENT_MASK_SENSOR_STREAMING_READY_STATUS_V02\<rparr>,
      \<lparr>eventId = QMI_LOC_EVENT_TIME_SYNC_REQ_IND_V02,
        eventSize = size_of ''qmiLocEventTimeSyncReqIndMsgT_v02'',
        eventMask = QMI_LOC_EVENT_MASK_TIME_SYNC_REQ_V02\<rparr>,
      \<lparr>eventId = QMI_LOC_EVENT_SET_SPI_STREAMING_REPORT_IND_V02,
        eventSize = size_of ''qmiLocEventSetSpiStreamingReportIndMsgT_v02'',
        eventMask = QMI_LOC_EVENT_MASK_SET_SPI_STREAMING_REPORT_V02\<rparr>,
      \<lparr>eventId = QMI_LOC_EVENT_LOCATION_SERVER_CONNECTION_REQ_IND_V02,
        eventSize = size_of ''qmiLocEventLocationServerConnectionReqIndMsgT_v02'',
        eventMask = QMI_LOC_EVENT_MASK_LOCATION_SERVER_CONNECTION_REQ_V02\<rparr>,
      \<lparr>eventId = QMI_LOC_EVENT_NI_GEOFENCE_NOTIFICATION_IND_V02,
        eventSize = size_of ''qmiLocEventNiGeofenceNotificationIndMsgT_v02'',
        eventMask = QMI_LOC_EVENT_MASK_NI_GEOFENCE_NOTIFICATION_V02\<rparr>,
      \<lparr>eventId = QMI_LOC_EVENT_GEOFENCE_GEN_ALERT_IND_V02,
        eventSize = size_of ''qmiLocEventGeofenceGenAlertIndMsgT_v02'',
        eventMask = QMI_LOC_EVENT_MASK_GEOFENCE_GEN_ALERT_V02\<rparr>,
      \<lparr>eventId = QMI_LOC_EVENT_GEOFENCE_BREACH_NOTIFICATION_IND_V02,
        eventSize = size_of ''qmiLocEventGeofenceBreachIndMsgT_v02'',
        eventMask = QMI_LOC_EVENT_MASK_GEOFENCE_BREACH_NOTIFICATION_V02\<rparr>,
      \<lparr>eventId = QMI_LOC_EVENT_GEOFENCE_BATCHED_BREACH_NOTIFICATION_IND_V02,
        eventSize = size_of ''qmiLocEventGeofenceBatchedBreachIndMsgT_v02'',
        eventMask = QMI_LOC_EVENT_MASK_GEOFENCE_BATCH_BREACH_NOTIFICATION_V02\<rparr>]"

definition locClientEventIndTable_2 :: "size_of \<Rightarrow> locClientEventIndTableStructT list" where
  "locClientEventIndTable_2 size_of =
     [\<lparr>eventId = QMI_LOC_EVENT_PEDOMETER_CONTROL_IND_V02,
        eventSize = size_of ''qmiLocEventPedometerControlIndMsgT_v02'',
        eventMask = QMI_LOC_EVENT_MASK_PEDOMETER_CONTROL_V02\<rparr>,
      \<lparr>eventId = QMI_LOC_EVENT_MOTION_DATA_CONTROL_IND_V02,
        eventSize = size_of ''qmiLocEventMotionDataControlIndMsgT_v02'',
        eventMask = QMI_LOC_EVENT_MASK_MOTION_DATA_CONTROL_V02\<rparr>,
      \<lparr>eventId = QMI_LOC_EVENT_INJECT_WIFI_AP_DATA_REQ_IND_V02,
        eventSize = size_of ''qmiLocEventInjectWifiApDataReqIndMsgT_v02'',
        eventMask = QMI_LOC_EVENT_MASK_INJECT_WIFI_AP_DATA_REQ_V02\<rparr>,
      \<lparr>eventId = QMI_LOC_EVENT_LIVE_BATCHED_POSITION_REPORT_IND_V02,
        eventSize = size_of ''qmiLocEventLiveBatchedPositionReportIndMsgT_v02'',
        eventMask = QMI_LOC_EVENT_MASK_LIVE_BATCHED_POSITION_REPORT_V02\<rparr>,
      \<lparr>eventId = QMI_LOC_EVENT_BATCH_FULL_NOTIFICATION_IND_V02,
        eventSize = size_of ''qmiLocEventBatchFullIndMsgT_v02'',
        eventMask = QMI_LOC_EVENT_MASK_BATCH_FULL_NOTIFICATION_V02\<rparr>,
      \<lparr>eventId = QMI_LOC_EVENT_VEHICLE_DATA_READY_STATUS_IND_V02,
        eventSize = size_of ''qmiLocEventVehicleDataReadyIndMsgT_v02'',
        eventMask = QMI_LOC_EVENT_MASK_VEHICLE_DATA_READY_STATUS_V02\<rparr>,
      \<lparr>eventId = QMI_LOC_EVENT_GEOFENCE_PROXIMITY_NOTIFICATION_IND_V02,
        eventSize = size_of ''qmiLocEventGeofenceProximityIndMsgT_v02'',
        eventMask = QMI_LOC_EVENT_MASK_GEOFENCE_PROXIMITY_NOTIFICATION_V02\<rparr>,
      \<lparr>eventId = QMI_LOC_EVENT_GDT_UPLOAD_BEGIN_STATUS_REQ_IND_V02,
        eventSize = size_of ''qmiLocEventGdtUploadBeginStatusReqIndMsgT_v02'',
        eventMask = QMI_LOC_EVENT_MASK_GDT_UPLOAD_BEGIN_REQ_V02\<rparr>,
      \<lparr>eventId = QMI_LOC_EVENT_GDT_UPLOAD_END_REQ_IND_V02,
        eventSize = size_of ''qmiLocEventGdtUploadEndReqIndMsgT_v02'',
        eventMask = QMI_LOC_EVENT_MASK_GDT_UPLOAD_END_REQ_V02\<rparr>,
      \<lparr>eventId = QMI_LOC_EVENT_GNSS_MEASUREMENT_REPORT_IND_V02,
        eventSize = size_of ''qmiLocEventGnssSvMeasInfoIndMsgT_v02'',
        eventMask = QMI_LOC_EVENT_MASK_GNSS_MEASUREMENT_REPORT_V02\<rparr>,
      \<lparr>eventId = QMI_LOC_EVENT_DBT_POSITION_REPORT_IND_V02,
        eventSize = size_of ''qmiLocEventDbtPositionReportIndMsgT_v02'',
        eventMask = 0\<rparr>,
      \<lparr>eventId = QMI_LOC_EVENT_GEOFENCE_BATCHED_DWELL_NOTIFICATION_IND_V02,
        eventSize = size_of ''qmiLocEventGeofenceBatchedDwellIndMsgT_v02'',
        eventMask = QMI_LOC_EVENT_MASK_GEOFENCE_BATCH_DWELL_NOTIFICATION_V02\<rparr>,
      \<lparr>eventId = QMI_LOC_EVENT_GET_TIME_ZONE_INFO_IND_V02,
        eventSize = size_of ''qmiLocEventGetTimeZoneReqIndMsgT_v02'',
        eventMask = QMI_LOC_EVENT_MASK_GET_TIME_ZONE_REQ_V02\<rparr>,
      \<lparr>eventId = QMI_LOC_EVENT_BATCHING_STATUS_IND_V02,
        eventSize = size_of ''qmiLocEventBatchingStatusIndMsgT_v02'',
        eventMask = QMI_LOC_EVENT_MASK_BATCHING_STATUS_V02\<rparr>,
      \<lparr>eventId = QMI_LOC_EVENT_GDT_DOWNLOAD_BEGIN_REQ_IND_V02,
        eventSize = size_of ''qmiLocEventGdtDownloadBeginReqIndMsgT_v02'',
        eventMask = 0\<rparr>,
      \<lparr>eventId = QMI_LOC_EVENT_GDT_RECEIVE_DONE_IND_V02,
        eventSize = size_of ''qmiLocEventGdtReceiveDoneIndMsgT_v02'',
        eventMask = 0\<rparr>,
      \<lparr>eventId = QMI_LOC_EVENT_GDT_DOWNLOAD_END_REQ_IND_V02,
        eventSize = size_of ''qmiLocEventGdtDownloadEndReqIndMsgT_v02'',
        eventMask = 0\<rparr>]"

definition locClientEventIndTable :: "size_of \<Rightarrow> locClientEventIndTableStructT list" where
  "locClientEventIndTable size_of = locClientEventIndTable_1 size_of @ locClientEventIndTable_2 size_of"

subsection \<open>Response indications\<close>

record locClientRespIndTableStructT =
  respIndId :: u32
  respIndSize :: nat

definition locClientRespIndTable_1 :: "size_of \<Rightarrow> locClientRespIndTableStructT list" where
  "locClientRespIndTable_1 size_of =
     [\<lparr>respIndId = QMI_LOC_GET_SERVICE_REVISION_IND_V02,
        respIndSize = size_of ''qmiLocGetServiceRevisionIndMsgT_v02''\<rparr>,
      \<lparr>respIndId = QMI_LOC_GET_FIX_CRITERIA_IND_V02,
        respIndSize = size_of ''qmiLocGetFixCriteriaIndMsgT_v02''\<rparr>,
      \<lparr>respIndId = QMI_LOC_NI_USER_RESPONSE_IND_V02,
        respIndSize = size_of ''qmiLocNiUserRespIndMsgT_v02''\<rparr>,
      \<lparr>respIndId = QMI_LOC_INJECT_PREDICTED_ORBITS_DATA_IND_V02,
        respIndSize = size_of ''qmiLocInjectPredictedOrbitsDataIndMsgT_v02''\<rparr>,
      \<lparr>respIndId = QMI_LOC_GET_PREDICTED_ORBITS_DATA_SOURCE_IND_V02,
        respIndSize = size_of ''qmiLocGetPredictedOrbitsDataSourceIndMsgT_v02''\<rparr>,
      \<lparr>respIndId = QMI_LOC_GET_PREDICTED_ORBITS_DATA_VALIDITY_IND_V02,
        respIndSize = size_of ''qmiLocGetPredictedOrbitsDataValidityIndMsgT_v02''\<rparr>,
      \<lparr>respIndId = QMI_LOC_INJECT_UTC_TIME_IND_V02,
        respIndSize = size_of ''qmiLocInjectUtcTimeIndMsgT_v02''\<rparr>,
      \<lparr>respIndId = QMI_LOC_INJECT_POSITION_IND_V02,
        respIndSize = size_of ''qmiLocInjectPositionIndMsgT_v02''\<rparr>,
      \<lparr>respIndId = QMI_LOC_SET_ENGINE_LOCK_IND_V02,
        respIndSize = size_of ''qmiLocSetEngineLockIndMsgT_v02''\<rparr>,
      \<lparr>respIndId = QMI_LOC_GET_ENGINE_LOCK_IND_V02,
        respIndSize = size_of ''qmiLocGetEngineLockIndMsgT_v02''\<rparr>,
      \<lparr>respIndId = QMI_LOC_SET_SBAS_CONFIG_IND_V02,
        respIndSize = size_of ''qmiLocSetSbasConfigIndMsgT_v02''\<rparr>,
      \<lparr>respIndId = QMI_LOC_GET_SBAS_CONFIG_IND_V02,
        respIndSize = size_of ''qmiLocGetSbasConfigIndMsgT_v02''\<rparr>,
      \<lparr>respIndId = QMI_LOC_SET_NMEA_TYPES_IND_V02,
        respIndSize = size_of ''qmiLocSetNmeaTypesIndMsgT_v02''\<rparr>,
      \<lparr>respIndId = QMI_LOC_GET_NMEA_TYPES_IND_V02,
        respIndSize = size_of ''qmiLocGetNmeaTypesIndMsgT_v02''\<rparr>,
      \<lparr>respIndId = QMI_LOC_SET_LOW_POWER_MODE_IND_V02,
        respIndSize = size_of ''qmiLocSetLowPowerModeIndMsgT_v02''\<rparr>,
      \<lparr>respIndId = QMI_LOC_GET_LOW_POWER_MODE_IND_V02,
        respIndSize = size_of ''qmiLocGetLowPowerModeIndMsgT_v02''\<rparr>,
      \<lparr>respIndId = QMI_LOC_SET_SERVER_IND_V02,
        respIndSize = size_of ''qmiLocSetServerIndMsgT_v02''\<rparr>,
      \<lparr>respIndId = QMI_LOC_GET_SERVER_IND_V02,
        respIndSize = size_of ''qmiLocGetServerIndMsgT_v02''\<rparr>,
      \<lparr>respIndId = QMI_LOC_DELETE_ASSIST_DATA_IND_V02,
        respIndSize = size_of ''qmiLocDeleteAssistDataIndMsgT_v02''\<rparr>,
      \<lparr>respIndId = QMI_LOC_INJECT_APCACHE_DATA_IND_V02,
        respIndSize = size_of ''qmiLocInjectApCacheDataIndMsgT_v02''\<rparr>,
      \<lparr>respIndId = QMI_LOC_INJECT_APDONOTCACHE_DATA_IND_V02,
        respIndSize = size_of ''qmiLocInjectApDoNotCacheDataIndMsgT_v02''\<rparr>,
      \<lparr>respIndId = QMI_LOC_SET_XTRA_T_SESSION_CONTROL_IND_V02,
        respIndSize = size_of ''qmiLocSetXtraTSessionControlIndMsgT_v02''\<rparr>,
      \<lparr>respIndId = QMI_LOC_GET_XTRA_T_SESSION_CONTROL_IND_V02,
        respIndSize = size_of ''qmiLocGetXtraTSessionControlIndMsgT_v02''\<rparr>,
      \<lparr>respIndId = QMI_LOC_INJECT_WIFI_POSITION_IND_V02,
        respIndSize = size_of ''qmiLocInjectWifiPositionIndMsgT_v02''\<rparr>,
      \<lparr>respIndId = QMI_LOC_NOTIFY_WIFI_STATUS_IND_V02,
        respIndSize = size_of ''qmiLocNotifyWifiStatusIndMsgT_v02''\<rparr>,
      \<lparr>respIndId = QMI_LOC_GET_REGISTERED_EVENTS_IND_V02,
        respIndSize = size_of ''qmiLocGetRegisteredEventsIndMsgT_v02''\<rparr>,
      \<lparr>respIndId = QMI_LOC_SET_OPERATION_MODE_IND_V02,
        respIndSize = size_of ''qmiLocSetOperationModeIndMsgT_v02''\<rparr>,
      \<lparr>respIndId = QMI_LOC_GET_OPERATION_MODE_IND_V02,
        respIndSize = size_of ''qmiLocGetOperationModeIndMsgT_v02''\<rparr>,
      \<lparr>respIndId = QMI_LOC_SET_SPI_STATUS_IND_V02,
        respIndSize = size_of ''qmiLocSetSpiStatusIndMsgT_v02''\<rparr>,
      \<lparr>respIndId = QMI_LOC_INJECT_SENSOR_DATA_IND_V02,
        respIndSize = size_of ''qmiLocInjectSensorDataIndMsgT_v02''\<rparr>]"

definition locClientRespIndTable_2 :: "size_of \<Rightarrow> locClientRespIndTableStructT list" where
  "locClientRespIndTable_2 size_of =
     [\<lparr>respIndId = QMI_LOC_INJECT_TIME_SYNC_DATA_IND_V02,
        respIndSize = size_of ''qmiLocInjectTimeSyncDataIndMsgT_v02''\<rparr>,
      \<lparr>respIndId = QMI_LOC_SET_CRADLE_MOUNT_CONFIG_IND_V02,
        respIndSize = size_of ''qmiLocSetCradleMountConfigIndMsgT_v02''\<rparr>,
      \<lparr>respIndId = QMI_LOC_GET_CRADLE_MOUNT_CONFIG_IND_V02,
        respIndSize = size_of ''qmiLocGetCradleMountConfigIndMsgT_v02''\<rparr>,
      \<lparr>respIndId = QMI_LOC_SET_EXTERNAL_POWER_CONFIG_IND_V02,
        respIndSize = size_of ''qmiLocSetExternalPowerConfigIndMsgT_v02''\<rparr>,
      \<lparr>respIndId = QMI_LOC_GET_EXTERNAL_POWER_CONFIG_IND_V02,
        respIndSize = size_of ''qmiLocGetExternalPowerConfigIndMsgT_v02''\<rparr>,
      \<lparr>respIndId = QMI_LOC_INFORM_LOCATION_SERVER_CONN_STATUS_IND_V02,
        respIndSize = size_of ''qmiLocInformLocationServerConnStatusIndMsgT_v02''\<rparr>,
      \<lparr>respIndId = QMI_LOC_SET_PROTOCOL_CONFIG_PARAMETERS_IND_V02,
        respIndSize = size_of ''qmiLocSetProtocolConfigParametersIndMsgT_v02''\<rparr>,
      \<lparr>respIndId = QMI_LOC_GET_PROTOCOL_CONFIG_PARAMETERS_IND_V02,
        respIndSize = size_of ''qmiLocGetProtocolConfigParametersIndMsgT_v02''\<rparr>,
      \<lparr>respIndId = QMI_LOC_SET_SENSOR_CONTROL_CONFIG_IND_V02,
        respIndSize = size_of ''qmiLocSetSensorControlConfigIndMsgT_v02''\<rparr>,
      \<lparr>respIndId = QMI_LOC_GET_SENSOR_CONTROL_CONFIG_IND_V02,
        respIndSize = size_of ''qmiLocGetSensorControlConfigIndMsgT_v02''\<rparr>,
      \<lparr>respIndId = QMI_LOC_SET_SENSOR_PROPERTIES_IND_V02,
        respIndSize = size_of ''qmiLocSetSensorPropertiesIndMsgT_v02''\<rparr>,
      \<lparr>respIndId = QMI_LOC_GET_SENSOR_PROPERTIES_IND_V02,
        respIndSize = size_of ''qmiLocGetSensorPropertiesIndMsgT_v02''\<rparr>,
      \<lparr>respIndId = QMI_LOC_SET_SENSOR_PERFORMANCE_CONTROL_CONFIGURATION_IND_V02,
        respIndSize = size_of ''qmiLocSetSensorPerformanceControlConfigIndMsgT_v02''\<rparr>,
      \<lparr>respIndId = QMI_LOC_GET_SENSOR_PERFORMANCE_CONTROL_CONFIGURATION_IND_V02,
        respIndSize = size_of ''qmiLocGetSensorPerformanceControlConfigIndMsgT_v02''\<rparr>,
      \<lparr>respIndId = QMI_LOC_INJECT_SUPL_CERTIFICATE_IND_V02,
        respIndSize = size_of ''qmiLocInjectSuplCertificateIndMsgT_v02''\<rparr>,
      \<lparr>respIndId = QMI_LOC_DELETE_SUPL_CERTIFICATE_IND_V02,
        respIndSize = size_of ''qmiLocDeleteSuplCertificateIndMsgT_v02''\<rparr>,
      \<lparr>respIndId = QMI_LOC_SET_POSITION_ENGINE_CONFIG_PARAMETERS_IND_V02,
        respIndSize = size_of ''qmiLocSetPositionEngineConfigParametersIndMsgT_v02''\<rparr>,
      \<lparr>respIndId = QMI_LOC_GET_POSITION_ENGINE_CONFIG_PARAMETERS_IND_V02,
        respIndSize = size_of ''qmiLocGetPositionEngineConfigParametersIndMsgT_v02''\<rparr>,
      \<lparr>respIndId = QMI_LOC_ADD_CIRCULAR_GEOFENCE_IND_V02,
        respIndSize = size_of ''qmiLocAddCircularGeofenceIndMsgT_v02''\<rparr>,
      \<lparr>respIndId = QMI_LOC_DELETE_GEOFENCE_IND_V02,
        respIndSize = size_of ''qmiLocDeleteGeofenceIndMsgT_v02''\<rparr>,
      \<lparr>respIndId = QMI_LOC_QUERY_GEOFENCE_IND_V02,
        respIndSize = size_of ''qmiLocQueryGeofenceIndMsgT_v02''\<rparr>,
      \<lparr>respIndId = QMI_LOC_EDIT_GEOFENCE_IND_V02,
        respIndSize = size_of ''qmiLocEditGeofenceIndMsgT_v02''\<rparr>,
      \<lparr>respIndId = QMI_LOC_GET_BEST_AVAILABLE_POSITION_IND_V02,
        respIndSize = size_of ''qmiLocGetBestAvailablePositionIndMsgT_v02''\<rparr>,
      \<lparr>respIndId = QMI_LOC_SECURE_GET_AVAILABLE_POSITION_IND_V02,
        respIndSize = size_of ''qmiLocSecureGetAvailablePositionIndMsgT_v02''\<rparr>,
      \<lparr>respIndId = QMI_LOC_INJECT_MOTION_DATA_IND_V02,
        respIndSize = size_of ''qmiLocInjectMotionDataIndMsgT_v02''\<rparr>,
      \<lparr>respIndId = QMI_LOC_GET_NI_GEOFENCE_ID_LIST_IND_V02,
        respIndSize = size_of ''qmiLocGetNiGeofenceIdListIndMsgT_v02''\<rparr>,
      \<lparr>respIndId = QMI_LOC_INJECT_GSM_CELL_INFO_IND_V02,
        respIndSize = size_of ''qmiLocInjectGSMCellInfoIndMsgT_v02''\<rparr>,
      \<lparr>respIndId = QMI_LOC_INJECT_NETWORK_INITIATED_MESSAGE_IND_V02,
        respIndSize = size_of ''qmiLocInjectNetworkInitiatedMessageIndMsgT_v02''\<rparr>,
      \<lparr>respIndId = QMI_LOC_WWAN_OUT_OF_SERVICE_NOTIFICATION_IND_V02,
        respIndSize = size_of ''qmiLocWWANOutOfServiceNotificationIndMsgT_v02''\<rparr>,
      \<lparr>respIndId = QMI_LOC_PEDOMETER_REPORT_IND_V02,
        respIndSize = size_of ''qmiLocPedometerReportIndMsgT_v02''\<rparr>]"

definition locClientRespIndTable_3 :: "size_of \<Rightarrow> locClientRespIndTableStructT list" where
  "locClientRespIndTable_3 size_of =
     [\<lparr>respIndId = QMI_LOC_INJECT_WCDMA_CELL_INFO_IND_V02,
        respIndSize = size_of ''qmiLocInjectWCDMACellInfoIndMsgT_v02''\<rparr>,
      \<lparr>respIndId = QMI_LOC_INJECT_TDSCDMA_CELL_INFO_IND_V02,
        respIndSize = size_of ''qmiLocInjectTDSCDMACellInfoIndMsgT_v02''\<rparr>,
      \<lparr>respIndId = QMI_LOC_INJECT_SUBSCRIBER_ID_IND_V02,
        respIndSize = size_of ''qmiLocInjectSubscriberIDIndMsgT_v02''\<rparr>,
      \<lparr>respIndId = QMI_LOC_INJECT_WIFI_AP_DATA_IND_V02,
        respIndSize = size_of ''qmiLocInjectWifiApDataIndMsgT_v02''\<rparr>,
      \<lparr>respIndId = QMI_LOC_START_BATCHING_IND_V02,
        respIndSize = size_of ''qmiLocStartBatchingIndMsgT_v02''\<rparr>,
      \<lparr>respIndId = QMI_LOC_STOP_BATCHING_IND_V02,
        respIndSize = size_of ''qmiLocStopBatchingIndMsgT_v02''\<rparr>,
      \<lparr>respIndId = QMI_LOC_GET_BATCH_SIZE_IND_V02,
        respIndSize = size_of ''qmiLocGetBatchSizeIndMsgT_v02''\<rparr>,
      \<lparr>respIndId = QMI_LOC_EVENT_LIVE_BATCHED_POSITION_REPORT_IND_V02,
        respIndSize = size_of ''qmiLocEventPositionReportIndMsgT_v02''\<rparr>,
      \<lparr>respIndId = QMI_LOC_EVENT_BATCH_FULL_NOTIFICATION_IND_V02,
        respIndSize = size_of ''qmiLocEventBatchFullIndMsgT_v02''\<rparr>,
      \<lparr>respIndId = QMI_LOC_READ_FROM_BATCH_IND_V02,
        respIndSize = size_of ''qmiLocReadFromBatchIndMsgT_v02''\<rparr>,
      \<lparr>respIndId = QMI_LOC_RELEASE_BATCH_IND_V02,
        respIndSize = size_of ''qmiLocReleaseBatchIndMsgT_v02''\<rparr>,
      \<lparr>respIndId = QMI_LOC_SET_XTRA_VERSION_CHECK_IND_V02,
        respIndSize = size_of ''qmiLocSetXtraVersionCheckIndMsgT_v02''\<rparr>,
      \<lparr>respIndId = QMI_LOC_INJECT_VEHICLE_SENSOR_DATA_IND_V02,
        respIndSize = size_of ''qmiLocInjectVehicleSensorDataIndMsgT_v02''\<rparr>,
      \<lparr>respIndId = QMI_LOC_NOTIFY_WIFI_ATTACHMENT_STATUS_IND_V02,
        respIndSize = size_of ''qmiLocNotifyWifiAttachmentStatusIndMsgT_v02''\<rparr>,
      \<lparr>respIndId = QMI_LOC_NOTIFY_WIFI_ENABLED_STATUS_IND_V02,
        respIndSize = size_of ''qmiLocNotifyWifiEnabledStatusIndMsgT_v02''\<rparr>,
      \<lparr>respIndId = QMI_LOC_SET_PREMIUM_SERVICES_CONFIG_IND_V02,
        respIndSize = size_of ''qmiLocSetPremiumServicesCfgReqMsgT_v02''\<rparr>,
      \<lparr>respIndId = QMI_LOC_GET_AVAILABLE_WWAN_POSITION_IND_V02,
        respIndSize = size_of ''qmiLocGetAvailWwanPositionIndMsgT_v02''\<rparr>,
      \<lparr>respIndId = QMI_LOC_INJECT_GTP_CLIENT_DOWNLOADED_DATA_IND_V02,
        respIndSize = size_of ''qmiLocInjectGtpClientDownloadedDataIndMsgT_v02''\<rparr>,
      \<lparr>respIndId = QMI_LOC_GDT_UPLOAD_BEGIN_STATUS_IND_V02,
        respIndSize = size_of ''qmiLocGdtUploadBeginStatusIndMsgT_v02''\<rparr>,
      \<lparr>respIndId = QMI_LOC_GDT_UPLOAD_END_IND_V02,
        respIndSize = size_of ''qmiLocGdtUploadEndIndMsgT_v02''\<rparr>,
      \<lparr>respIndId = QMI_LOC_SET_GNSS_CONSTELL_REPORT_CONFIG_IND_V02,
        respIndSize = size_of ''qmiLocSetGNSSConstRepConfigIndMsgT_v02''\<rparr>,
      \<lparr>respIndId = QMI_LOC_START_DBT_IND_V02,
        respIndSize = size_of ''qmiLocStartDbtIndMsgT_v02''\<rparr>,
      \<lparr>respIndId = QMI_LOC_STOP_DBT_IND_V02,
        respIndSize = size_of ''qmiLocStopDbtIndMsgT_v02''\<rparr>,
      \<lparr>respIndId = QMI_LOC_INJECT_TIME_ZONE_INFO_IND_V02,
        respIndSize = size_of ''qmiLocInjectTimeZoneInfoIndMsgT_v02''\<rparr>,
      \<lparr>respIndId = QMI_LOC_QUERY_AON_CONFIG_IND_V02,
        respIndSize = size_of ''qmiLocQueryAonConfigIndMsgT_v02''\<rparr>,
      \<lparr>respIndId = QMI_LOC_GTP_AP_STATUS_IND_V02,
        respIndSize = size_of ''qmiLocGtpApStatusIndMsgT_v02''\<rparr>,
      \<lparr>respIndId = QMI_LOC_GDT_DOWNLOAD_BEGIN_STATUS_IND_V02,
        respIndSize = size_of ''qmiLocGdtDownloadBeginStatusIndMsgT_v02''\<rparr>,
      \<lparr>respIndId = QMI_LOC_GDT_DOWNLOAD_READY_STATUS_IND_V02,
        respIndSize = size_of ''qmiLocGdtDownloadReadyStatusIndMsgT_v02''\<rparr>,
      \<lparr>respIndId = QMI_LOC_GDT_RECEIVE_DONE_STATUS_IND_V02,
        respIndSize = size_of ''qmiLocGdtReceiveDoneStatusIndMsgT_v02''\<rparr>,
      \<lparr>respIndId = QMI_LOC_GDT_DOWNLOAD_END_STATUS_IND_V02,
        respIndSize = size_of ''qmiLocGdtDownloadEndStatusIndMsgT_v02''\<rparr>]"

definition locClientRespIndTable :: "size_of \<Rightarrow> locClientRespIndTableStructT list" where
  "locClientRespIndTable size_of =
     locClientRespIndTable_1 size_of @ locClientRespIndTable_2 size_of @ locClientRespIndTable_3 size_of"

subsection \<open>Requests\<close>

text \<open>
  The cases of the \<^verbatim>\<open>switch\<close> in \<^verbatim>\<open>validateRequest\<close>: the requests with the size of their payload,
  and the requests without payload.
\<close>

definition validateRequest_payload_1 :: "size_of \<Rightarrow> (u32 \<times> nat) list" where
  "validateRequest_payload_1 size_of =
     [(QMI_LOC_INFORM_CLIENT_REVISION_REQ_V02,
        size_of ''qmiLocInformClientRevisionReqMsgT_v02''),
      (QMI_LOC_REG_EVENTS_REQ_V02,
        size_of ''qmiLocRegEventsReqMsgT_v02''),
      (QMI_LOC_START_REQ_V02,
        size_of ''qmiLocStartReqMsgT_v02''),
      (QMI_LOC_STOP_REQ_V02,
        size_of ''qmiLocStopReqMsgT_v02''),
      (QMI_LOC_NI_USER_RESPONSE_REQ_V02,
        size_of ''qmiLocNiUserRespReqMsgT_v02''),
      (QMI_LOC_INJECT_PREDICTED_ORBITS_DATA_REQ_V02,
        size_of ''qmiLocInjectPredictedOrbitsDataReqMsgT_v02''),
      (QMI_LOC_INJECT_UTC_TIME_REQ_V02,
        size_of ''qmiLocInjectUtcTimeReqMsgT_v02''),
      (QMI_LOC_INJECT_POSITION_REQ_V02,
        size_of ''qmiLocInjectPositionReqMsgT_v02''),
      (QMI_LOC_SET_ENGINE_LOCK_REQ_V02,
        size_of ''qmiLocSetEngineLockReqMsgT_v02''),
      (QMI_LOC_SET_SBAS_CONFIG_REQ_V02,
        size_of ''qmiLocSetSbasConfigReqMsgT_v02''),
      (QMI_LOC_SET_NMEA_TYPES_REQ_V02,
        size_of ''qmiLocSetNmeaTypesReqMsgT_v02''),
      (QMI_LOC_SET_LOW_POWER_MODE_REQ_V02,
        size_of ''qmiLocSetLowPowerModeReqMsgT_v02''),
      (QMI_LOC_SET_SERVER_REQ_V02,
        size_of ''qmiLocSetServerReqMsgT_v02''),
      (QMI_LOC_DELETE_ASSIST_DATA_REQ_V02,
        size_of ''qmiLocDeleteAssistDataReqMsgT_v02''),
      (QMI_LOC_INJECT_APCACHE_DATA_REQ_V02,
        size_of ''qmiLocInjectApCacheDataReqMsgT_v02''),
      (QMI_LOC_INJECT_APDONOTCACHE_DATA_REQ_V02,
        size_of ''qmiLocInjectApDoNotCacheDataReqMsgT_v02''),
      (QMI_LOC_SET_XTRA_T_SESSION_CONTROL_REQ_V02,
        size_of ''qmiLocSetXtraTSessionControlReqMsgT_v02''),
      (QMI_LOC_INJECT_WIFI_POSITION_REQ_V02,
        size_of ''qmiLocInjectWifiPositionReqMsgT_v02''),
      (QMI_LOC_NOTIFY_WIFI_STATUS_REQ_V02,
        size_of ''qmiLocNotifyWifiStatusReqMsgT_v02'')]"

definition validateRequest_payload_2 :: "size_of \<Rightarrow> (u32 \<times> nat) list" where
  "validateRequest_payload_2 size_of =
     [(QMI_LOC_SET_OPERATION_MODE_REQ_V02,
        size_of ''qmiLocSetOperationModeReqMsgT_v02''),
      (QMI_LOC_SET_SPI_STATUS_REQ_V02,
        size_of ''qmiLocSetSpiStatusReqMsgT_v02''),
      (QMI_LOC_INJECT_SENSOR_DATA_REQ_V02,
        size_of ''qmiLocInjectSensorDataReqMsgT_v02''),
      (QMI_LOC_INJECT_TIME_SYNC_DATA_REQ_V02,
        size_of ''qmiLocInjectTimeSyncDataReqMsgT_v02''),
      (QMI_LOC_SET_CRADLE_MOUNT_CONFIG_REQ_V02,
        size_of ''qmiLocSetCradleMountConfigReqMsgT_v02''),
      (QMI_LOC_SET_EXTERNAL_POWER_CONFIG_REQ_V02,
        size_of ''qmiLocSetExternalPowerConfigReqMsgT_v02''),
      (QMI_LOC_INFORM_LOCATION_SERVER_CONN_STATUS_REQ_V02,
        size_of ''qmiLocInformLocationServerConnStatusReqMsgT_v02''),
      (QMI_LOC_SET_PROTOCOL_CONFIG_PARAMETERS_REQ_V02,
        size_of ''qmiLocSetProtocolConfigParametersReqMsgT_v02''),
      (QMI_LOC_GET_PROTOCOL_CONFIG_PARAMETERS_REQ_V02,
        size_of ''qmiLocGetProtocolConfigParametersReqMsgT_v02''),
      (QMI_LOC_SET_SENSOR_CONTROL_CONFIG_REQ_V02,
        size_of ''qmiLocSetSensorControlConfigReqMsgT_v02''),
      (QMI_LOC_GET_SENSOR_PROPERTIES_REQ_V02,
        size_of ''qmiLocGetSensorPropertiesReqMsgT_v02''),
      (QMI_LOC_SET_SENSOR_PROPERTIES_REQ_V02,
        size_of ''qmiLocSetSensorPropertiesReqMsgT_v02''),
      (QMI_LOC_SET_SENSOR_PERFORMANCE_CONTROL_CONFIGURATION_REQ_V02,
        size_of ''qmiLocSetSensorPerformanceControlConfigReqMsgT_v02''),
      (QMI_LOC_INJECT_SUPL_CERTIFICATE_REQ_V02,
        size_of ''qmiLocInjectSuplCertificateReqMsgT_v02''),
      (QMI_LOC_DELETE_SUPL_CERTIFICATE_REQ_V02,
        size_of ''qmiLocDeleteSuplCertificateReqMsgT_v02''),
      (QMI_LOC_SET_POSITION_ENGINE_CONFIG_PARAMETERS_REQ_V02,
        size_of ''qmiLocSetPositionEngineConfigParametersReqMsgT_v02''),
      (QMI_LOC_GET_POSITION_ENGINE_CONFIG_PARAMETERS_REQ_V02,
        size_of ''qmiLocGetPositionEngineConfigParametersReqMsgT_v02''),
      (QMI_LOC_ADD_CIRCULAR_GEOFENCE_REQ_V02,
        size_of ''qmiLocAddCircularGeofenceReqMsgT_v02''),
      (QMI_LOC_DELETE_GEOFENCE_REQ_V02,
        size_of ''qmiLocDeleteGeofenceReqMsgT_v02'')]"

definition validateRequest_payload_3 :: "size_of \<Rightarrow> (u32 \<times> nat) list" where
  "validateRequest_payload_3 size_of =
     [(QMI_LOC_QUERY_GEOFENCE_REQ_V02,
        size_of ''qmiLocQueryGeofenceReqMsgT_v02''),
      (QMI_LOC_EDIT_GEOFENCE_REQ_V02,
        size_of ''qmiLocEditGeofenceReqMsgT_v02''),
      (QMI_LOC_GET_BEST_AVAILABLE_POSITION_REQ_V02,
        size_of ''qmiLocGetBestAvailablePositionReqMsgT_v02''),
      (QMI_LOC_SECURE_GET_AVAILABLE_POSITION_REQ_V02,
        size_of ''qmiLocSecureGetAvailablePositionReqMsgT_v02''),
      (QMI_LOC_INJECT_MOTION_DATA_REQ_V02,
        size_of ''qmiLocInjectMotionDataReqMsgT_v02''),
      (QMI_LOC_GET_NI_GEOFENCE_ID_LIST_REQ_V02,
        size_of ''qmiLocGetNiGeofenceIdListReqMsgT_v02''),
      (QMI_LOC_INJECT_GSM_CELL_INFO_REQ_V02,
        size_of ''qmiLocInjectGSMCellInfoReqMsgT_v02''),
      (QMI_LOC_INJECT_NETWORK_INITIATED_MESSAGE_REQ_V02,
        size_of ''qmiLocInjectNetworkInitiatedMessageReqMsgT_v02''),
      (QMI_LOC_PEDOMETER_REPORT_REQ_V02,
        size_of ''qmiLocPedometerReportReqMsgT_v02''),
      (QMI_LOC_INJECT_WCDMA_CELL_INFO_REQ_V02,
        size_of ''qmiLocInjectWCDMACellInfoReqMsgT_v02''),
      (QMI_LOC_INJECT_TDSCDMA_CELL_INFO_REQ_V02,
        size_of ''qmiLocInjectTDSCDMACellInfoReqMsgT_v02''),
      (QMI_LOC_INJECT_SUBSCRIBER_ID_IND_V02,
        size_of ''qmiLocInjectSubscriberIDReqMsgT_v02''),
      (QMI_LOC_INJECT_WIFI_AP_DATA_REQ_V02,
        size_of ''qmiLocInjectWifiApDataReqMsgT_v02''),
      (QMI_LOC_GET_BATCH_SIZE_REQ_V02,
        size_of ''qmiLocGetBatchSizeReqMsgT_v02''),
      (QMI_LOC_START_BATCHING_REQ_V02,
        size_of ''qmiLocStartBatchingReqMsgT_v02''),
      (QMI_LOC_READ_FROM_BATCH_REQ_V02,
        size_of ''qmiLocReadFromBatchReqMsgT_v02''),
      (QMI_LOC_STOP_BATCHING_REQ_V02,
        size_of ''qmiLocStopBatchingReqMsgT_v02''),
      (QMI_LOC_RELEASE_BATCH_REQ_V02,
        size_of ''qmiLocReleaseBatchReqMsgT_v02''),
      (QMI_LOC_SET_XTRA_VERSION_CHECK_REQ_V02,
        size_of ''qmiLocSetXtraVersionCheckReqMsgT_v02'')]"

definition validateRequest_payload_4 :: "size_of \<Rightarrow> (u32 \<times> nat) list" where
  "validateRequest_payload_4 size_of =
     [(QMI_LOC_INJECT_VEHICLE_SENSOR_DATA_REQ_V02,
        size_of ''qmiLocInjectVehicleSensorDataReqMsgT_v02''),
      (QMI_LOC_NOTIFY_WIFI_ATTACHMENT_STATUS_REQ_V02,
        size_of ''qmiLocNotifyWifiAttachmentStatusReqMsgT_v02''),
      (QMI_LOC_NOTIFY_WIFI_ENABLED_STATUS_REQ_V02,
        size_of ''qmiLocNotifyWifiEnabledStatusReqMsgT_v02''),
      (QMI_LOC_SET_PREMIUM_SERVICES_CONFIG_REQ_V02,
        size_of ''qmiLocSetPremiumServicesCfgReqMsgT_v02''),
      (QMI_LOC_GET_AVAILABLE_WWAN_POSITION_REQ_V02,
        size_of ''qmiLocGetAvailWwanPositionReqMsgT_v02''),
      (QMI_LOC_INJECT_GTP_CLIENT_DOWNLOADED_DATA_REQ_V02,
        size_of ''qmiLocInjectGtpClientDownloadedDataReqMsgT_v02''),
      (QMI_LOC_GDT_UPLOAD_BEGIN_STATUS_REQ_V02,
        size_of ''qmiLocGdtUploadBeginStatusReqMsgT_v02''),
      (QMI_LOC_GDT_UPLOAD_END_REQ_V02,
        size_of ''qmiLocGdtUploadEndReqMsgT_v02''),
      (QMI_LOC_SET_GNSS_CONSTELL_REPORT_CONFIG_V02,
        size_of ''qmiLocSetGNSSConstRepConfigReqMsgT_v02''),
      (QMI_LOC_START_DBT_REQ_V02,
        size_of ''qmiLocStartDbtReqMsgT_v02''),
      (QMI_LOC_STOP_DBT_REQ_V02,
        size_of ''qmiLocStopDbtReqMsgT_v02''),
      (QMI_LOC_INJECT_TIME_ZONE_INFO_REQ_V02,
        size_of ''qmiLocInjectTimeZoneInfoReqMsgT_v02''),
      (QMI_LOC_QUERY_AON_CONFIG_REQ_V02,
        size_of ''qmiLocQueryAonConfigReqMsgT_v02''),
      (QMI_LOC_GTP_AP_STATUS_REQ_V02,
        size_of ''qmiLocGtpApStatusReqMsgT_v02''),
      (QMI_LOC_GDT_DOWNLOAD_BEGIN_STATUS_REQ_V02,
        size_of ''qmiLocGdtDownloadBeginStatusReqMsgT_v02''),
      (QMI_LOC_GDT_DOWNLOAD_READY_STATUS_REQ_V02,
        size_of ''qmiLocGdtDownloadReadyStatusReqMsgT_v02''),
      (QMI_LOC_GDT_RECEIVE_DONE_STATUS_REQ_V02,
        size_of ''qmiLocGdtReceiveDoneStatusReqMsgT_v02''),
      (QMI_LOC_GDT_DOWNLOAD_END_STATUS_REQ_V02,
        size_of ''qmiLocGdtDownloadEndStatusReqMsgT_v02'')]"

definition validateRequest_no_payload :: "u32 list" where
  "validateRequest_no_payload =
     [QMI_LOC_GET_SERVICE_REVISION_REQ_V02,
      QMI_LOC_GET_FIX_CRITERIA_REQ_V02,
      QMI_LOC_GET_PREDICTED_ORBITS_DATA_SOURCE_REQ_V02,
      QMI_LOC_GET_PREDICTED_ORBITS_DATA_VALIDITY_REQ_V02,
      QMI_LOC_GET_ENGINE_LOCK_REQ_V02,
      QMI_LOC_GET_SBAS_CONFIG_REQ_V02,
      QMI_LOC_GET_NMEA_TYPES_REQ_V02,
      QMI_LOC_GET_LOW_POWER_MODE_REQ_V02,
      QMI_LOC_GET_SERVER_REQ_V02,
      QMI_LOC_GET_XTRA_T_SESSION_CONTROL_REQ_V02,
      QMI_LOC_GET_REGISTERED_EVENTS_REQ_V02,
      QMI_LOC_GET_OPERATION_MODE_REQ_V02,
      QMI_LOC_GET_CRADLE_MOUNT_CONFIG_REQ_V02,
      QMI_LOC_GET_EXTERNAL_POWER_CONFIG_REQ_V02,
      QMI_LOC_GET_SENSOR_CONTROL_CONFIG_REQ_V02,
      QMI_LOC_GET_SENSOR_PERFORMANCE_CONTROL_CONFIGURATION_REQ_V02,
      QMI_LOC_WWAN_OUT_OF_SERVICE_NOTIFICATION_REQ_V02,
      QMI_LOC_GET_SUPPORTED_MSGS_REQ_V02,
      QMI_LOC_GET_SUPPORTED_FIELDS_REQ_V02]"

definition validateRequest_payload :: "size_of \<Rightarrow> (u32 \<times> nat) list" where
  "validateRequest_payload size_of =
     validateRequest_payload_1 size_of @ validateRequest_payload_2 size_of @
     validateRequest_payload_3 size_of @ validateRequest_payload_4 size_of"

text \<open>
  The result is the truth value, the payload pointer and the length; the request union holds one
  pointer. An unknown request leaves the two output arguments as they were.
\<close>

definition validateRequest :: "size_of \<Rightarrow> u32 \<Rightarrow> ptr \<Rightarrow> ptr \<Rightarrow> u32 \<Rightarrow> bool \<times> ptr \<times> u32" where
  "validateRequest size_of reqId reqPayload outData outLen =
     (case map_of (validateRequest_payload size_of) reqId of
        Some n \<Rightarrow> (True, reqPayload, of_nat n)
      | None \<Rightarrow>
          if reqId \<in> set validateRequest_no_payload then (True, NULL, 0)
          else (False, outData, outLen))"

subsection \<open>Searching the tables\<close>

text \<open>
  An output argument is an option: \<open>None\<close> stands for a null pointer, \<open>Some v\<close> for a variable that
  holds \<open>v\<close>.
\<close>

fun event_loop :: "u32 \<Rightarrow> locClientEventIndTableStructT list \<Rightarrow> nat \<Rightarrow> bool \<times> nat" where
  "event_loop eventIndId [] old = (False, old)"
| "event_loop eventIndId (e # es) old =
     (if eventIndId = eventId e then (True, eventSize e) else event_loop eventIndId es old)"

definition locClientGetSizeByEventIndId :: "size_of \<Rightarrow> u32 \<Rightarrow> nat option \<Rightarrow> bool \<times> nat option" where
  "locClientGetSizeByEventIndId size_of eventIndId pEventIndSize =
     (case pEventIndSize of
        None \<Rightarrow> (False, None)
      | Some old \<Rightarrow> map_prod id Some (event_loop eventIndId (locClientEventIndTable size_of) old))"

fun resp_loop :: "u32 \<Rightarrow> locClientRespIndTableStructT list \<Rightarrow> nat \<Rightarrow> bool \<times> nat" where
  "resp_loop rId [] old = (False, old)"
| "resp_loop rId (e # es) old =
     (if rId = respIndId e then (True, respIndSize e) else resp_loop rId es old)"

definition locClientGetSizeByRespIndId :: "size_of \<Rightarrow> u32 \<Rightarrow> nat option \<Rightarrow> bool \<times> nat option" where
  "locClientGetSizeByRespIndId size_of rId pRespIndSize =
     (case pRespIndSize of
        None \<Rightarrow> (False, None)
      | Some old \<Rightarrow> map_prod id Some (resp_loop rId (locClientRespIndTable size_of) old))"

datatype locClientIndEnumT = eventIndType | respIndType

definition locClientGetSizeAndTypeByIndId ::
  "size_of \<Rightarrow> u32 \<Rightarrow> nat option \<Rightarrow> locClientIndEnumT option \<Rightarrow> bool \<times> nat option \<times> locClientIndEnumT option" where
  "locClientGetSizeAndTypeByIndId size_of indId pIndSize pIndType =
     (case locClientGetSizeByEventIndId size_of indId pIndSize of
        (True, n) \<Rightarrow> (True, n, Some eventIndType)
      | (False, n) \<Rightarrow>
          (case locClientGetSizeByRespIndId size_of indId n of
             (True, n') \<Rightarrow> (True, n', Some respIndType)
           | (False, n') \<Rightarrow> (False, n', pIndType)))"

subsection \<open>The identifiers in the tables\<close>

lemmas event_table_defs = locClientEventIndTable_def locClientEventIndTable_1_def locClientEventIndTable_2_def
lemmas resp_table_defs = locClientRespIndTable_def locClientRespIndTable_1_def
  locClientRespIndTable_2_def locClientRespIndTable_3_def
lemmas request_table_defs = validateRequest_payload_def validateRequest_payload_1_def
  validateRequest_payload_2_def validateRequest_payload_3_def validateRequest_payload_4_def

definition event_ids :: "u32 list" where
  "event_ids = map eventId (locClientEventIndTable (\<lambda>_. 0))"

definition resp_ids :: "u32 list" where
  "resp_ids = map respIndId (locClientRespIndTable (\<lambda>_. 0))"

definition request_ids :: "u32 list" where
  "request_ids = map fst (validateRequest_payload (\<lambda>_. 0)) @ validateRequest_no_payload"

lemma event_ids_eq: "map eventId (locClientEventIndTable size_of) = event_ids"
  by (simp add: event_ids_def event_table_defs)

lemma resp_ids_eq: "map respIndId (locClientRespIndTable size_of) = resp_ids"
  by (simp add: resp_ids_def resp_table_defs)

lemma request_ids_eq: "map fst (validateRequest_payload size_of) @ validateRequest_no_payload = request_ids"
  by (simp add: request_ids_def request_table_defs)

text \<open>
  The identifiers as plain numbers, on which the comparisons between the tables are evaluated.
\<close>

definition event_nums :: "nat list" where
  "event_nums =
     [0x24, 0x25, 0x26, 0x27, 0x28, 0x29, 0x2A, 0x2B, 0x2C, 0x2D, 0x2E, 0x2F, 0x30, 0x31, 0x60,
      0x61, 0x62, 0x80, 0x6D, 0x6E, 0x7C, 0x78, 0x77, 0x81, 0x8C, 0x90, 0x91, 0x86, 0x93, 0x97,
      0x98, 0x9C, 0xA3, 0xA4, 0xA5]"

definition resp_nums :: "nat list" where
  "resp_nums =
     [0x32, 0x33, 0x34, 0x35, 0x36, 0x37, 0x38, 0x39, 0x3A, 0x3B, 0x3C, 0x3D, 0x3E, 0x3F, 0x40,
      0x41, 0x42, 0x43, 0x44, 0x9A, 0x9B, 0x45, 0x46, 0x47, 0x48, 0x49, 0x4A, 0x4B, 0x4C, 0x4D,
      0x4E, 0x4F, 0x50, 0x51, 0x52, 0x53, 0x54, 0x55, 0x56, 0x57, 0x58, 0x59, 0x5A, 0x5B, 0x5C,
      0x5D, 0x5E, 0x5F, 0x63, 0x64, 0x65, 0x66, 0x67, 0x96, 0x68, 0x69, 0x6A, 0x6B, 0x6C, 0x6F,
      0x70, 0x71, 0x72, 0x7D, 0x76, 0x7A, 0x75, 0x78, 0x77, 0x79, 0x7B, 0x85, 0x82, 0x7E, 0x7F,
      0x84, 0x83, 0x8D, 0x8E, 0x8F, 0x88, 0x92, 0x95, 0x99, 0x9D, 0x9E, 0x9F, 0xA0, 0xA1, 0xA2]"

definition request_nums :: "nat list" where
  "request_nums =
     [0x20, 0x21, 0x22, 0x23, 0x34, 0x35, 0x38, 0x39, 0x3A, 0x3C, 0x3E, 0x40, 0x42, 0x44, 0x9A,
      0x9B, 0x45, 0x47, 0x48, 0x4A, 0x4C, 0x4D, 0x4E, 0x4F, 0x51, 0x53, 0x54, 0x55, 0x56, 0x59,
      0x58, 0x5A, 0x5C, 0x5D, 0x5E, 0x5F, 0x63, 0x64, 0x65, 0x66, 0x67, 0x96, 0x68, 0x69, 0x6A,
      0x6B, 0x6F, 0x70, 0x71, 0x72, 0x7D, 0x75, 0x76, 0x79, 0x7A, 0x7B, 0x85, 0x82, 0x7E, 0x7F,
      0x84, 0x83, 0x8D, 0x8E, 0x8F, 0x88, 0x92, 0x95, 0x99, 0x9D, 0x9E, 0x9F, 0xA0, 0xA1, 0xA2,
      0x32, 0x33, 0x36, 0x37, 0x3B, 0x3D, 0x3F, 0x41, 0x43, 0x46, 0x49, 0x4B, 0x50, 0x52, 0x57,
      0x5B, 0x6C, 0x1E, 0x1F]"

lemma event_ids_nums: "event_ids = map of_nat event_nums"
  by (simp add: event_ids_def event_table_defs event_nums_def)

lemma resp_ids_nums: "resp_ids = map of_nat resp_nums"
  by (simp add: resp_ids_def resp_table_defs resp_nums_def)

lemma request_ids_nums: "request_ids = map of_nat request_nums"
  by (simp add: request_ids_def request_table_defs validateRequest_no_payload_def request_nums_def)

lemma nums_small: "set event_nums \<union> set resp_nums \<union> set request_nums \<subseteq> {..<2 ^ 32}"
  by (simp add: event_nums_def resp_nums_def request_nums_def)

lemma inj_on_of_nat_u32: "inj_on (of_nat :: nat \<Rightarrow> u32) {..<2 ^ 32}"
  by (rule inj_onI) (simp add: word_of_nat_eq_iff take_bit_nat_eq_self)

lemma u32_image_Int:
  "A \<union> B \<subseteq> {..<2 ^ 32} \<Longrightarrow> (of_nat ` A :: u32 set) \<inter> of_nat ` B = of_nat ` (A \<inter> B)"
  using inj_on_image_Int [OF inj_on_of_nat_u32, of A B] by simp

lemma u32_image_diff:
  "A \<union> B \<subseteq> {..<2 ^ 32} \<Longrightarrow> (of_nat ` A :: u32 set) - of_nat ` B = of_nat ` (A - B)"
  using inj_on_image_set_diff [OF inj_on_of_nat_u32, of A B] by auto

lemma event_ids_distinct: "distinct event_ids"
proof -
  have "distinct event_nums"
    by (simp add: event_nums_def)
  then show ?thesis
    unfolding event_ids_nums distinct_map using nums_small inj_on_of_nat_u32 by (meson inj_on_subset le_sup_iff)
qed

lemma resp_ids_distinct: "distinct resp_ids"
proof -
  have "distinct resp_nums"
    by (simp add: resp_nums_def)
  then show ?thesis
    unfolding resp_ids_nums distinct_map using nums_small inj_on_of_nat_u32 by (meson inj_on_subset le_sup_iff)
qed

lemma request_ids_distinct: "distinct request_ids"
proof -
  have "distinct request_nums"
    by (simp add: request_nums_def)
  then show ?thesis
    unfolding request_ids_nums distinct_map using nums_small inj_on_of_nat_u32 by (meson inj_on_subset le_sup_iff)
qed

subsection \<open>Searches are lookups\<close>

text \<open>
  Both searches run through an array and stop at the first entry with the wanted key. Over an
  array whose keys are distinct such a search finds every entry, and reports failure exactly for
  the keys that are not there.
\<close>

locale first_match =
  fixes key :: "'e \<Rightarrow> u32" and val :: "'e \<Rightarrow> nat"
    and search :: "u32 \<Rightarrow> 'e list \<Rightarrow> nat \<Rightarrow> bool \<times> nat"
  assumes search_Nil: "search k [] old = (False, old)"
    and search_Cons: "search k (e # es) old = (if k = key e then (True, val e) else search k es old)"
begin

lemma search_hit: "distinct (map key es) \<Longrightarrow> e \<in> set es \<Longrightarrow> search (key e) es old = (True, val e)"
  by (induction es) (auto simp: search_Cons dest: sym intro: rev_image_eqI)

lemma search_miss: "k \<notin> key ` set es \<Longrightarrow> search k es old = (False, old)"
  by (induction es) (auto simp: search_Nil search_Cons)

lemma search_found: "fst (search k es old) \<longleftrightarrow> k \<in> key ` set es"
  by (induction es) (auto simp: search_Nil search_Cons)

end

interpretation ev: first_match eventId eventSize event_loop
  by unfold_locales simp_all

interpretation rs: first_match respIndId respIndSize resp_loop
  by unfold_locales simp_all

lemma event_keys: "eventId ` set (locClientEventIndTable size_of) = set event_ids"
  by (metis event_ids_eq set_map)

lemma resp_keys: "respIndId ` set (locClientRespIndTable size_of) = set resp_ids"
  by (metis resp_ids_eq set_map)

lemma event_lookup_hit:
  "e \<in> set (locClientEventIndTable size_of) \<Longrightarrow>
   locClientGetSizeByEventIndId size_of (eventId e) (Some old) = (True, Some (eventSize e))"
  by (simp add: locClientGetSizeByEventIndId_def ev.search_hit event_ids_eq event_ids_distinct)

lemma event_lookup_miss:
  "k \<notin> set event_ids \<Longrightarrow> locClientGetSizeByEventIndId size_of k (Some old) = (False, Some old)"
  by (simp add: locClientGetSizeByEventIndId_def ev.search_miss event_keys)

lemma resp_lookup_hit:
  "e \<in> set (locClientRespIndTable size_of) \<Longrightarrow>
   locClientGetSizeByRespIndId size_of (respIndId e) (Some old) = (True, Some (respIndSize e))"
  by (simp add: locClientGetSizeByRespIndId_def rs.search_hit resp_ids_eq resp_ids_distinct)

lemma resp_lookup_miss:
  "k \<notin> set resp_ids \<Longrightarrow> locClientGetSizeByRespIndId size_of k (Some old) = (False, Some old)"
  by (simp add: locClientGetSizeByRespIndId_def rs.search_miss resp_keys)

lemma resp_lookup_found: "fst (locClientGetSizeByRespIndId size_of k (Some old)) \<longleftrightarrow> k \<in> set resp_ids"
  by (simp add: locClientGetSizeByRespIndId_def rs.search_found resp_keys)

text \<open>The two batching indications stand in both tables; the search takes them for events.\<close>

lemma ids_in_both:
  "set event_ids \<inter> set resp_ids =
     {QMI_LOC_EVENT_LIVE_BATCHED_POSITION_REPORT_IND_V02, QMI_LOC_EVENT_BATCH_FULL_NOTIFICATION_IND_V02}"
proof -
  have "set event_nums \<inter> set resp_nums = {0x78, 0x77}"
    by (simp add: event_nums_def resp_nums_def insert_commute)
  then show ?thesis
    using u32_image_Int [of "set event_nums" "set resp_nums"] nums_small
    by (simp add: event_ids_nums resp_ids_nums)
qed

subsection \<open>Which requests are answered\<close>

definition unanswered_requests :: "u32 list" where
  "unanswered_requests =
     [QMI_LOC_INFORM_CLIENT_REVISION_REQ_V02, QMI_LOC_REG_EVENTS_REQ_V02, QMI_LOC_START_REQ_V02,
      QMI_LOC_STOP_REQ_V02, QMI_LOC_GET_SUPPORTED_MSGS_REQ_V02, QMI_LOC_GET_SUPPORTED_FIELDS_REQ_V02]"

definition unanswered_nums :: "nat list" where
  "unanswered_nums = [0x20, 0x21, 0x22, 0x23, 0x1E, 0x1F]"

lemma unanswered_requests_nums: "unanswered_requests = map of_nat unanswered_nums"
  by (simp add: unanswered_requests_def unanswered_nums_def)

lemma requests_and_answers:
  "set request_ids = (set resp_ids - set event_ids) \<union> set unanswered_requests"
proof -
  have "\<forall>k \<in> set request_nums. k \<in> set resp_nums \<and> k \<notin> set event_nums \<or> k \<in> set unanswered_nums"
    by (simp add: event_nums_def resp_nums_def request_nums_def unanswered_nums_def)
  moreover have "\<forall>k \<in> set resp_nums. k \<in> set event_nums \<or> k \<in> set request_nums"
    by (simp add: event_nums_def resp_nums_def request_nums_def)
  moreover have "set unanswered_nums \<subseteq> set request_nums"
    by (simp add: request_nums_def unanswered_nums_def)
  ultimately have "set request_nums = (set resp_nums - set event_nums) \<union> set unanswered_nums"
    by blast
  then show ?thesis
    using u32_image_diff [of "set resp_nums" "set event_nums"] nums_small
    by (simp add: event_ids_nums resp_ids_nums request_ids_nums unanswered_requests_nums image_Un)
qed

lemma unanswered_disjoint: "set resp_ids \<inter> set unanswered_requests = {}"
proof -
  have "set resp_nums \<inter> set unanswered_nums = {}"
    by (simp add: resp_nums_def unanswered_nums_def)
  moreover have "set unanswered_nums \<subseteq> {..<2 ^ 32}"
    by (simp add: unanswered_nums_def)
  ultimately show ?thesis
    using u32_image_Int [of "set resp_nums" "set unanswered_nums"] nums_small
    by (simp add: resp_ids_nums unanswered_requests_nums)
qed

lemma validateRequest_accepts:
  "fst (validateRequest size_of reqId reqPayload outData outLen) \<longleftrightarrow> reqId \<in> set request_ids"
proof -
  have "reqId \<in> set request_ids \<longleftrightarrow>
      reqId \<in> fst ` set (validateRequest_payload size_of) \<or> reqId \<in> set validateRequest_no_payload"
    using request_ids_eq [of size_of] by (metis UnCI UnE image_set set_append)
  then show ?thesis
    by (auto simp: validateRequest_def map_of_eq_None_iff split: option.splits dest: map_of_SomeD
        intro: rev_image_eqI)
qed

lemma validateRequest_len:
  assumes "(reqId, n) \<in> set (validateRequest_payload size_of)"
  shows "validateRequest size_of reqId reqPayload outData outLen = (True, reqPayload, of_nat n)"
proof -
  have "distinct (map fst (validateRequest_payload size_of))"
    using request_ids_distinct request_ids_eq [of size_of] by (metis distinct_append)
  then show ?thesis
    using assms by (simp add: validateRequest_def)
qed

subsection \<open>Properties\<close>

text \<open>
  C24. An indication is decoded with the size and kind of its table entry: every entry of the event
  table is found as an event, every entry of the response table as a response, except the two
  batching indications that are listed twice and count as events, and an identifier in neither
  table is refused with the output arguments unchanged.
\<close>

theorem ind_dispatch_exact:
  "(\<forall>e \<in> set (locClientEventIndTable size_of).
      locClientGetSizeAndTypeByIndId size_of (eventId e) (Some old) ty =
        (True, Some (eventSize e), Some eventIndType)) \<and>
   (\<forall>e \<in> set (locClientRespIndTable size_of).
      if respIndId e \<in> {QMI_LOC_EVENT_LIVE_BATCHED_POSITION_REPORT_IND_V02,
                        QMI_LOC_EVENT_BATCH_FULL_NOTIFICATION_IND_V02}
      then \<exists>n. locClientGetSizeAndTypeByIndId size_of (respIndId e) (Some old) ty =
               (True, Some n, Some eventIndType)
      else locClientGetSizeAndTypeByIndId size_of (respIndId e) (Some old) ty =
             (True, Some (respIndSize e), Some respIndType)) \<and>
   (\<forall>k. k \<notin> set event_ids \<and> k \<notin> set resp_ids \<longrightarrow>
      locClientGetSizeAndTypeByIndId size_of k (Some old) ty = (False, Some old, ty))"
proof (intro conjI ballI allI impI)
  show ev_case: "locClientGetSizeAndTypeByIndId size_of (eventId e) (Some old) ty =
      (True, Some (eventSize e), Some eventIndType)"
    if "e \<in> set (locClientEventIndTable size_of)" for e
    using that by (simp add: locClientGetSizeAndTypeByIndId_def event_lookup_hit)
next
  fix e assume e: "e \<in> set (locClientRespIndTable size_of)"
  then have r: "respIndId e \<in> set resp_ids"
    using resp_keys by blast
  show "if respIndId e \<in> {QMI_LOC_EVENT_LIVE_BATCHED_POSITION_REPORT_IND_V02,
                        QMI_LOC_EVENT_BATCH_FULL_NOTIFICATION_IND_V02}
      then \<exists>n. locClientGetSizeAndTypeByIndId size_of (respIndId e) (Some old) ty =
               (True, Some n, Some eventIndType)
      else locClientGetSizeAndTypeByIndId size_of (respIndId e) (Some old) ty =
             (True, Some (respIndSize e), Some respIndType)"
  proof (cases "respIndId e \<in> set event_ids")
    case True
    then obtain e' where "e' \<in> set (locClientEventIndTable size_of)" "respIndId e = eventId e'"
      using event_keys [of size_of] by (metis imageE)
    then have "locClientGetSizeAndTypeByIndId size_of (respIndId e) (Some old) ty =
        (True, Some (eventSize e'), Some eventIndType)"
      by (simp add: locClientGetSizeAndTypeByIndId_def event_lookup_hit)
    moreover have "respIndId e \<in> set event_ids \<inter> set resp_ids"
      using True r by blast
    ultimately show ?thesis
      unfolding ids_in_both by simp
  next
    case False
    then have "respIndId e \<notin> set event_ids \<inter> set resp_ids"
      by blast
    then show ?thesis
      using False e unfolding ids_in_both
      by (simp add: locClientGetSizeAndTypeByIndId_def event_lookup_miss resp_lookup_hit)
  qed
next
  fix k assume "k \<notin> set event_ids \<and> k \<notin> set resp_ids"
  then show "locClientGetSizeAndTypeByIndId size_of k (Some old) ty = (False, Some old, ty)"
    by (simp add: locClientGetSizeAndTypeByIndId_def event_lookup_miss resp_lookup_miss)
qed

theorem ind_dispatch_exact_witness:
  "locClientGetSizeAndTypeByIndId length QMI_LOC_EVENT_NMEA_IND_V02 (Some 0) None =
     (True, Some 26, Some eventIndType) \<and>
   locClientGetSizeAndTypeByIndId length 0xFFFF (Some 0) None = (False, Some 0, None)"
proof
  have "\<lparr>eventId = QMI_LOC_EVENT_NMEA_IND_V02, eventSize = 26, eventMask = QMI_LOC_EVENT_MASK_NMEA_V02\<rparr>
      \<in> set (locClientEventIndTable length)"
    by (simp add: event_table_defs)
  from bspec [OF conjunct1 [OF ind_dispatch_exact] this]
  show "locClientGetSizeAndTypeByIndId length QMI_LOC_EVENT_NMEA_IND_V02 (Some 0) None =
     (True, Some 26, Some eventIndType)"
    by simp
next
  have "0xFFFF \<notin> set event_ids \<and> 0xFFFF \<notin> set resp_ids"
    by (simp add: event_ids_nums resp_ids_nums event_nums_def resp_nums_def)
  then show "locClientGetSizeAndTypeByIndId length 0xFFFF (Some 0) None = (False, Some 0, None)"
    using ind_dispatch_exact [of length 0 None] by blast
qed

text \<open>
  C25. The tables agree with each other: a request is accepted exactly when the response table has
  an entry for its answer or it is one of the six requests that are not answered by an indication;
  the two lists do not overlap. So a caller that waits for the answer of an accepted request always
  has a size for the payload, unless the request is one of the six.
\<close>

theorem accepted_requests_answered:
  "fst (validateRequest size_of reqId reqPayload outData outLen) \<longleftrightarrow>
     (fst (locClientGetSizeByRespIndId size_of reqId (Some old)) \<and>
      snd (snd (locClientGetSizeAndTypeByIndId size_of reqId (Some old) ty)) = Some respIndType)
     \<noteq> (reqId \<in> set unanswered_requests)"
proof -
  have kind: "snd (snd (locClientGetSizeAndTypeByIndId size_of reqId (Some old) ty)) = Some respIndType
      \<longleftrightarrow> reqId \<notin> set event_ids" if "reqId \<in> set resp_ids"
  proof (cases "reqId \<in> set event_ids")
    case True
    then obtain e where "e \<in> set (locClientEventIndTable size_of)" "reqId = eventId e"
      using event_keys [of size_of] by (metis imageE)
    then show ?thesis
      using True by (simp add: locClientGetSizeAndTypeByIndId_def event_lookup_hit)
  next
    case False
    obtain e where "e \<in> set (locClientRespIndTable size_of)" "reqId = respIndId e"
      using \<open>reqId \<in> set resp_ids\<close> resp_keys [of size_of] by (metis imageE)
    then show ?thesis
      using False by (simp add: locClientGetSizeAndTypeByIndId_def event_lookup_miss resp_lookup_hit)
  qed
  show ?thesis
    using kind requests_and_answers unanswered_disjoint
    by (auto simp: validateRequest_accepts resp_lookup_found)
qed

end
