(* ===== verification/Loc_Client.thy ===== *)
theory Loc_Client
  imports Loc_Tables
begin

text \<open>
  The client side of the location service (\<^verbatim>\<open>gps/loc_api/loc_api_v02/loc_api_v02_client.c\<close>):
  opening and closing a connection, sending requests, and the two callbacks the QMI framework
  runs. The blocks of callback data are a store of records, and what the code asks of the QMI
  framework is kept as a sequence of calls. The framework itself is not part of the repository:
  what its functions return is an argument of the operations (\<open>open_env\<close>, return codes and
  responses), and what is relied on is stated where it is used. An operation that touches memory
  that is not live, or that never returns, is \<open>None\<close>. Log output is left out.
\<close>

subsection \<open>Status values and QMI results\<close>

datatype locClientStatusEnumType =
    eLOC_CLIENT_SUCCESS
  | eLOC_CLIENT_FAILURE_GENERAL
  | eLOC_CLIENT_FAILURE_UNSUPPORTED
  | eLOC_CLIENT_FAILURE_INVALID_PARAMETER
  | eLOC_CLIENT_FAILURE_ENGINE_BUSY
  | eLOC_CLIENT_FAILURE_PHONE_OFFLINE
  | eLOC_CLIENT_FAILURE_TIMEOUT
  | eLOC_CLIENT_FAILURE_SERVICE_NOT_PRESENT
  | eLOC_CLIENT_FAILURE_SERVICE_VERSION_UNSUPPORTED
  | eLOC_CLIENT_FAILURE_CLIENT_VERSION_UNSUPPORTED
  | eLOC_CLIENT_FAILURE_INVALID_HANDLE
  | eLOC_CLIENT_FAILURE_INTERNAL
  | eLOC_CLIENT_FAILURE_NOT_INITIALIZED
  | eLOC_CLIENT_FAILURE_NOT_ENOUGH_MEMORY

datatype locClientErrorEnumType = eLOC_CLIENT_ERROR_SERVICE_UNAVAILABLE

text \<open>
  Return codes of the framework and the result part of a response. The code names some of the
  values; the others keep a number.
\<close>

datatype qmi_rc = QMI_NO_ERR | QMI_SERVICE_ERR | QMI_RC int

datatype qmi_error =
    QMI_ERR_MALFORMED_MSG_V01
  | QMI_ERR_INVALID_ARG_V01
  | QMI_ERR_DEVICE_IN_USE_V01
  | QMI_ERR_NOT_SUPPORTED_V01
  | QMI_ERR int

record qmi_resp =
  result_ok :: bool
  error :: qmi_error

record supported_msgs_resp =
  resp :: qmi_resp
  supported_msgs_valid :: bool
  supported_msgs_len :: u32
  supported_msgs :: "u8 list"

definition convertQmiResponseToLocStatus :: "qmi_resp \<Rightarrow> locClientStatusEnumType" where
  "convertQmiResponseToLocStatus r =
     (if result_ok r then eLOC_CLIENT_SUCCESS
      else (case error r of
              QMI_ERR_MALFORMED_MSG_V01 \<Rightarrow> eLOC_CLIENT_FAILURE_INVALID_PARAMETER
            | QMI_ERR_INVALID_ARG_V01 \<Rightarrow> eLOC_CLIENT_FAILURE_INVALID_PARAMETER
            | QMI_ERR_DEVICE_IN_USE_V01 \<Rightarrow> eLOC_CLIENT_FAILURE_ENGINE_BUSY
            | QMI_ERR_NOT_SUPPORTED_V01 \<Rightarrow> eLOC_CLIENT_FAILURE_UNSUPPORTED
            | QMI_ERR _ \<Rightarrow> eLOC_CLIENT_FAILURE_INTERNAL))"

fun convertQmiErrorToLocError :: "qmi_rc \<Rightarrow> locClientErrorEnumType" where
  "convertQmiErrorToLocError QMI_SERVICE_ERR = eLOC_CLIENT_ERROR_SERVICE_UNAVAILABLE"
| "convertQmiErrorToLocError _ = eLOC_CLIENT_ERROR_SERVICE_UNAVAILABLE"

subsection \<open>Supported messages\<close>

text \<open>
  The service reports the messages it knows as a bit field. An array read beyond the end and the
  shift \<^verbatim>\<open>1 << idx\<close> of an \<^verbatim>\<open>int\<close> by 31 or more are undefined and have no result.
\<close>

primrec check_loop :: "u32 list \<Rightarrow> supported_msgs_resp \<Rightarrow> nat list \<Rightarrow> u64 \<Rightarrow> u64 option" where
  "check_loop reqIdArray r [] res = Some res"
| "check_loop reqIdArray r (idx # js) res =
     (if idx \<ge> length reqIdArray then None
      else
        (let reqId = reqIdArray ! idx; len = drop_bit 3 reqId in
         if supported_msgs_len r > len then
           (if unat len \<ge> length (supported_msgs r) then None
            else if bit (supported_msgs r ! unat len) (unat (reqId AND 7)) then
              (if idx \<ge> 31 then None else check_loop reqIdArray r js (res OR push_bit idx 1))
            else check_loop reqIdArray r js res)
         else check_loop reqIdArray r js res))"

definition check_loop_size :: "u32 \<Rightarrow> supported_msgs_resp \<Rightarrow> u32" where
  "check_loop_size n r =
     (let loopSize = (if n < supported_msgs_len r then n else supported_msgs_len r)
      in if loopSize < 64 then loopSize else 64)"

definition checkQmiMsgsSupported :: "u32 list \<Rightarrow> u32 \<Rightarrow> supported_msgs_resp \<Rightarrow> u64 option" where
  "checkQmiMsgsSupported reqIdArray reqIdArrayLength r =
     (if supported_msgs_valid r
      then check_loop reqIdArray r [0..<unat (check_loop_size reqIdArrayLength r)] 0
      else Some 0)"

subsection \<open>Callback data and the framework\<close>

record locClientCbDataStructT =
  pClientCookie :: ptr
  userHandle :: ptr
  eventCallback :: ptr
  respCallback :: ptr
  errorCallback :: ptr
  eventRegMask :: u64
  pMe :: ptr

definition zero_cb :: locClientCbDataStructT where
  "zero_cb = \<lparr>pClientCookie = NULL, userHandle = NULL, eventCallback = NULL, respCallback = NULL,
              errorCallback = NULL, eventRegMask = 0, pMe = NULL\<rparr>"

datatype qmi_call =
    GetServiceInstance int
  | GetAnyService
  | ClientInit ptr ptr qmi_rc
  | RegisterErrorCb ptr ptr qmi_rc
  | SendMsgSync ptr u32 ptr u32 qmi_rc
  | ClientRelease ptr qmi_rc

record loc_mem =
  cbs :: "ptr \<rightharpoonup> locClientCbDataStructT"
  calls :: "qmi_call list"
  isCheckedAlready :: bool
  supportedMsgChecked :: u64

definition qcall :: "qmi_call \<Rightarrow> loc_mem \<Rightarrow> loc_mem" where
  "qcall c m = m\<lparr>calls := calls m @ [c]\<rparr>"

definition LOC_CLIENT_INVALID_HANDLE_VALUE :: ptr where
  "LOC_CLIENT_INVALID_HANDLE_VALUE = NULL"

text \<open>The sanity check of a handle that closing and sending share.\<close>

definition valid_handle :: "loc_mem \<Rightarrow> ptr \<Rightarrow> bool option" where
  "valid_handle m h =
     (if h = NULL then Some False
      else do {
        d \<leftarrow> rd (cbs m) h;
        Some (userHandle d \<noteq> NULL \<and> h = pMe d) })"

subsection \<open>Callbacks from the framework\<close>

text \<open>
  What a callback does is at most one call of a function of the client. The contents of the
  indication buffer is \<open>None\<close> while nothing has been decoded into it: the buffer is then as
  \<^verbatim>\<open>malloc\<close> returned it.
\<close>

datatype upcall =
    ErrorUpcall ptr ptr locClientErrorEnumType ptr
  | EventUpcall ptr ptr u32 "u8 list option" ptr
  | RespUpcall ptr ptr u32 "u8 list option" ptr

definition locClientErrorCb :: "ptr \<Rightarrow> qmi_rc \<Rightarrow> ptr \<Rightarrow> loc_mem \<Rightarrow> upcall option option" where
  "locClientErrorCb user_handle err pCallbackData m =
     (if pCallbackData = NULL then Some None
      else do {
        d \<leftarrow> rd (cbs m) pCallbackData;
        let localErrorCallback = errorCallback d;
        Some (if localErrorCallback \<noteq> NULL \<and> errorCallback d \<noteq> NULL \<and> pCallbackData = pMe d
              then Some (ErrorUpcall localErrorCallback pCallbackData (convertQmiErrorToLocError err)
                           (pClientCookie d))
              else None) })"

text \<open>
  \<open>decode\<close> is \<^verbatim>\<open>qmi_client_message_decode\<close> for indications: its return code and the contents of
  the buffer of the given size.
\<close>

definition locClientIndCb ::
  "size_of \<Rightarrow> (u32 \<Rightarrow> u8 list \<Rightarrow> nat \<Rightarrow> qmi_rc \<times> u8 list) \<Rightarrow> bool \<Rightarrow>
   ptr \<Rightarrow> u32 \<Rightarrow> u8 list \<Rightarrow> ptr \<Rightarrow> loc_mem \<Rightarrow> upcall option option" where
  "locClientIndCb size_of decode malloc_ok user_handle msg_id ind_buf pCallbackData m =
     (if pCallbackData = NULL then Some None
      else do {
        d \<leftarrow> rd (cbs m) pCallbackData;
        Some
          (if pCallbackData \<noteq> pMe d then None
           else if userHandle d \<noteq> user_handle then None
           else
             (case locClientGetSizeAndTypeByIndId size_of msg_id (Some 0) None of
                (True, Some indSize, Some indType) \<Rightarrow>
                  if \<not> malloc_ok then None
                  else
                    (let (rc, buf) =
                       (if length ind_buf > 0 then map_prod id Some (decode msg_id ind_buf indSize)
                        else (QMI_NO_ERR, None))
                     in if rc \<noteq> QMI_NO_ERR then None
                        else
                          (case indType of
                             eventIndType \<Rightarrow>
                               if eventCallback d \<noteq> NULL
                               then Some (EventUpcall (eventCallback d) pCallbackData msg_id buf (pClientCookie d))
                               else None
                           | respIndType \<Rightarrow>
                               if respCallback d \<noteq> NULL
                               then Some (RespUpcall (respCallback d) pCallbackData msg_id buf (pClientCookie d))
                               else None))
              | _ \<Rightarrow> None)) })"

subsection \<open>Closing and sending\<close>

text \<open>
  A pointer to the caller's handle is an option, \<open>None\<close> for a null pointer. The argument \<open>rc\<close> is
  what \<^verbatim>\<open>qmi_client_release\<close> returns.
\<close>

definition locClientClose :: "ptr option \<Rightarrow> qmi_rc \<Rightarrow> loc_mem \<Rightarrow>
    (locClientStatusEnumType \<times> ptr option \<times> loc_mem) option" where
  "locClientClose pLocClientHandle rc m =
     (case pLocClientHandle of
        None \<Rightarrow> Some (eLOC_CLIENT_FAILURE_INVALID_PARAMETER, None, m)
      | Some h \<Rightarrow> do {
          ok \<leftarrow> valid_handle m h;
          if \<not> ok then Some (eLOC_CLIENT_FAILURE_INVALID_HANDLE, Some h, m)
          else do {
            d \<leftarrow> rd (cbs m) h;
            let m1 = qcall (ClientRelease (userHandle d) rc) m;
            if rc \<noteq> QMI_NO_ERR then Some (eLOC_CLIENT_FAILURE_INTERNAL, Some h, m1)
            else do {
              c \<leftarrow> upd (cbs m1) h (\<lambda>_. zero_cb);
              c' \<leftarrow> free_at c h;
              Some (eLOC_CLIENT_SUCCESS, Some LOC_CLIENT_INVALID_HANDLE_VALUE, m1\<lparr>cbs := c'\<rparr>) } } })"

text \<open>
  \<open>req_mask\<close> gives the mask in the event registration request at an address; \<open>rc\<close> and \<open>r\<close> are the
  return code and the response of \<^verbatim>\<open>qmi_client_send_msg_sync\<close>.
\<close>

definition locClientSendReq ::
  "size_of \<Rightarrow> ptr \<Rightarrow> u32 \<Rightarrow> ptr \<Rightarrow> (ptr \<rightharpoonup> u64) \<Rightarrow> qmi_rc \<Rightarrow> qmi_resp \<Rightarrow> loc_mem \<Rightarrow>
   (locClientStatusEnumType \<times> loc_mem) option" where
  "locClientSendReq size_of handle reqId reqPayload req_mask rc r m = do {
     ok \<leftarrow> valid_handle m handle;
     if \<not> ok then Some (eLOC_CLIENT_FAILURE_INVALID_HANDLE, m)
     else
       (case validateRequest size_of reqId reqPayload NULL 0 of
          (False, _, _) \<Rightarrow> Some (eLOC_CLIENT_FAILURE_INVALID_PARAMETER, m)
        | (True, pReqData, reqLen) \<Rightarrow> do {
            d \<leftarrow> rd (cbs m) handle;
            let m1 = qcall (SendMsgSync (userHandle d) reqId pReqData reqLen rc) m;
            if rc = QMI_SERVICE_ERR then Some (eLOC_CLIENT_FAILURE_PHONE_OFFLINE, m1)
            else if rc \<noteq> QMI_NO_ERR then Some (eLOC_CLIENT_FAILURE_INTERNAL, m1)
            else
              (let status = convertQmiResponseToLocStatus r in
               if status = eLOC_CLIENT_SUCCESS \<and> QMI_LOC_REG_EVENTS_REQ_V02 = reqId \<and> reqPayload \<noteq> NULL
               then do {
                 evMask \<leftarrow> req_mask reqPayload;
                 c \<leftarrow> upd (cbs m1) handle (\<lambda>d. d\<lparr>eventRegMask := evMask\<rparr>);
                 Some (status, m1\<lparr>cbs := c\<rparr>) }
               else Some (status, m1)) }) }"

text \<open>The request of \<^verbatim>\<open>locClientRegisterEventMask\<close> is a local variable, at the address \<open>loc\<close>.\<close>

definition locClientRegisterEventMask ::
  "size_of \<Rightarrow> ptr \<Rightarrow> u64 \<Rightarrow> ptr \<Rightarrow> qmi_rc \<Rightarrow> qmi_resp \<Rightarrow> loc_mem \<Rightarrow> (bool \<times> loc_mem) option" where
  "locClientRegisterEventMask size_of clientHandle evMask loc rc r m = do {
     (status, m') \<leftarrow> locClientSendReq size_of clientHandle QMI_LOC_REG_EVENTS_REQ_V02 loc [loc \<mapsto> evMask] rc r m;
     Some (status = eLOC_CLIENT_SUCCESS, m') }"

subsection \<open>Opening\<close>

text \<open>
  What the environment answers during one attempt to open: the block \<^verbatim>\<open>calloc\<close> returns, the
  service object, the notifier and the return code of its initialisation, the return codes of the
  successive lookups of the service, the return code and the client of \<^verbatim>\<open>qmi_client_init\<close>, the
  return code of \<^verbatim>\<open>qmi_client_register_error_cb\<close>, the address of the local request and the return
  code and response of the registration message, and the return codes of the releases of the
  notifier and of the client.
\<close>

record open_env =
  calloc_ptr :: ptr
  service_object :: ptr
  notifier_rc :: qmi_rc
  notifier :: ptr
  lookups :: "nat \<Rightarrow> qmi_rc"
  init_rc :: qmi_rc
  init_clnt :: ptr
  error_cb_rc :: qmi_rc
  local_req :: ptr
  reg_rc :: qmi_rc
  reg_resp :: qmi_resp
  notifier_release_rc :: qmi_rc
  close_rc :: qmi_rc

text \<open>The lookup is repeated, with a wait in between, until the service is there.\<close>

partial_function (option) lookup_loop :: "int \<Rightarrow> (nat \<Rightarrow> qmi_rc) \<Rightarrow> nat \<Rightarrow> loc_mem \<Rightarrow> loc_mem option" where
  "lookup_loop instanceId rcs k m =
     (let m1 = qcall (if instanceId \<ge> 0 then GetServiceInstance instanceId else GetAnyService) m
      in if rcs k = QMI_NO_ERR then Some m1 else lookup_loop instanceId rcs (Suc k) m1)"

definition release_notifier :: "open_env \<Rightarrow> loc_mem \<Rightarrow> loc_mem" where
  "release_notifier env m =
     (if notifier env \<noteq> NULL then qcall (ClientRelease (notifier env) (notifier_release_rc env)) m else m)"

definition locClientQmiCtrlPointInit ::
  "ptr \<Rightarrow> int \<Rightarrow> open_env \<Rightarrow> loc_mem \<Rightarrow> (locClientStatusEnumType \<times> loc_mem) option" where
  "locClientQmiCtrlPointInit pLocClientCbData instanceId env m =
     (if service_object env = NULL then Some (eLOC_CLIENT_FAILURE_INTERNAL, m)
      else if notifier_rc env \<noteq> QMI_NO_ERR then Some (eLOC_CLIENT_FAILURE_INTERNAL, release_notifier env m)
      else do {
        m1 \<leftarrow> lookup_loop instanceId (lookups env) 0 m;
        let m2 = qcall (ClientInit pLocClientCbData (init_clnt env) (init_rc env)) m1;
        if init_rc env \<noteq> QMI_NO_ERR then Some (eLOC_CLIENT_FAILURE_INTERNAL, release_notifier env m2)
        else do {
          let m3 = qcall (RegisterErrorCb (init_clnt env) pLocClientCbData (error_cb_rc env)) m2;
          if error_cb_rc env \<noteq> QMI_NO_ERR then Some (eLOC_CLIENT_FAILURE_INTERNAL, release_notifier env m3)
          else do {
            c \<leftarrow> upd (cbs m3) pLocClientCbData (\<lambda>d. d\<lparr>userHandle := init_clnt env\<rparr>);
            Some (eLOC_CLIENT_SUCCESS, release_notifier env (m3\<lparr>cbs := c\<rparr>)) } } })"

record locClientCallbacksType =
  cb_size :: nat
  eventIndCb :: ptr
  respIndCb :: ptr
  errorCb :: ptr

text \<open>The fields that are filled in once the connection has been made.\<close>

definition fill_cb ::
  "locClientCallbacksType \<Rightarrow> u64 \<Rightarrow> ptr \<Rightarrow> locClientCbDataStructT \<Rightarrow> locClientCbDataStructT" where
  "fill_cb cb evMask cookie d =
     d\<lparr>eventCallback := eventIndCb cb, respCallback := respIndCb cb, errorCallback := errorCb cb,
       eventRegMask := evMask, pClientCookie := cookie\<rparr>"

definition locClientOpenInstance ::
  "size_of \<Rightarrow> u64 \<Rightarrow> int \<Rightarrow> locClientCallbacksType option \<Rightarrow> ptr option \<Rightarrow> ptr \<Rightarrow> open_env \<Rightarrow> loc_mem \<Rightarrow>
   (locClientStatusEnumType \<times> ptr option \<times> loc_mem) option" where
  "locClientOpenInstance size_of evMask instanceId pLocClientCallbacks pLocClientHandle cookie env m =
     (case (pLocClientCallbacks, pLocClientHandle) of
        (Some cb, Some _) \<Rightarrow>
          if respIndCb cb = NULL \<or> cb_size cb \<noteq> size_of ''locClientCallbacksType''
          then Some (eLOC_CLIENT_FAILURE_INVALID_PARAMETER, pLocClientHandle, m)
          else if calloc_ptr env = NULL
          then Some (eLOC_CLIENT_FAILURE_INTERNAL, Some LOC_CLIENT_INVALID_HANDLE_VALUE, m)
          else do {
            let p = calloc_ptr env;
            (status, m1) \<leftarrow> locClientQmiCtrlPointInit p instanceId env (m\<lparr>cbs := (cbs m)(p \<mapsto> zero_cb)\<rparr>);
            if status \<noteq> eLOC_CLIENT_SUCCESS then do {
              c \<leftarrow> free_at (cbs m1) p;
              Some (status, Some LOC_CLIENT_INVALID_HANDLE_VALUE, m1\<lparr>cbs := c\<rparr>) }
            else do {
              c1 \<leftarrow> upd (cbs m1) p (\<lambda>d. d\<lparr>pMe := p\<rparr>);
              (registered, m2) \<leftarrow> locClientRegisterEventMask size_of p evMask (local_req env)
                 (reg_rc env) (reg_resp env) (m1\<lparr>cbs := c1\<rparr>);
              if \<not> registered then do {
                (_, _, m3) \<leftarrow> locClientClose (Some p) (close_rc env) m2;
                Some (eLOC_CLIENT_FAILURE_INTERNAL, Some LOC_CLIENT_INVALID_HANDLE_VALUE, m3) }
              else do {
                c2 \<leftarrow> upd (cbs m2) p (fill_cb cb evMask cookie);
                Some (eLOC_CLIENT_SUCCESS, Some p, m2\<lparr>cbs := c2\<rparr>) } } }
      | _ \<Rightarrow> Some (eLOC_CLIENT_FAILURE_INVALID_PARAMETER, pLocClientHandle, m))"

datatype GNSS_TARGET = GNSS_NONE | GNSS_MSM | GNSS_GSS | GNSS_MDM | GNSS_QCA1530 | GNSS_AUTO | GNSS_UNKNOWN

fun instance_id :: "GNSS_TARGET \<Rightarrow> int" where
  "instance_id GNSS_GSS = - 1"
| "instance_id GNSS_QCA1530 = 1"
| "instance_id GNSS_MSM = - 1"
| "instance_id GNSS_MDM = - 1"
| "instance_id GNSS_AUTO = 0"
| "instance_id _ = - 1"

definition LOC_CLIENT_MAX_OPEN_RETRIES :: nat where
  "LOC_CLIENT_MAX_OPEN_RETRIES = 20"

text \<open>
  The retry loop; \<open>attempt tries h m\<close> is one call of \<^verbatim>\<open>locClientOpenInstance\<close>, in the environment of
  that try.
\<close>

function open_loop ::
  "(nat \<Rightarrow> ptr option \<Rightarrow> loc_mem \<Rightarrow> (locClientStatusEnumType \<times> ptr option \<times> loc_mem) option) \<Rightarrow>
   nat \<Rightarrow> ptr option \<Rightarrow> loc_mem \<Rightarrow> (locClientStatusEnumType \<times> ptr option \<times> loc_mem) option" where
  "open_loop attempt tries h m =
     (case attempt tries h m of
        None \<Rightarrow> None
      | Some (status, h', m') \<Rightarrow>
          if status \<noteq> eLOC_CLIENT_SUCCESS \<and> tries \<le> LOC_CLIENT_MAX_OPEN_RETRIES
          then open_loop attempt (Suc tries) h' m'
          else Some (status, h', m'))"
  by pat_completeness auto
termination
  by (relation "measure (\<lambda>(_, tries, _). Suc LOC_CLIENT_MAX_OPEN_RETRIES - tries)") auto

declare open_loop.simps [simp del]

definition locClientOpen ::
  "size_of \<Rightarrow> GNSS_TARGET \<Rightarrow> u64 \<Rightarrow> locClientCallbacksType option \<Rightarrow> ptr option \<Rightarrow> ptr \<Rightarrow>
   (nat \<Rightarrow> open_env) \<Rightarrow> loc_mem \<Rightarrow> (locClientStatusEnumType \<times> ptr option \<times> loc_mem) option" where
  "locClientOpen size_of target evMask pLocClientCallbacks pLocClientHandle cookie envs m =
     open_loop (\<lambda>tries h. locClientOpenInstance size_of evMask (instance_id target) pLocClientCallbacks h
                            cookie (envs tries)) 1 pLocClientHandle m"

subsection \<open>Asking for supported messages\<close>

definition locClientSupportMsgCheck ::
  "ptr \<Rightarrow> u32 list option \<Rightarrow> u32 \<Rightarrow> u64 option \<Rightarrow> qmi_rc \<Rightarrow> supported_msgs_resp \<Rightarrow> loc_mem \<Rightarrow>
   (locClientStatusEnumType \<times> u64 option \<times> loc_mem) option" where
  "locClientSupportMsgCheck handle msgArray msgArrayLength supportedMsg rc r m =
     (case (msgArray, supportedMsg) of
        (Some ids, Some _) \<Rightarrow>
          if isCheckedAlready m then Some (eLOC_CLIENT_SUCCESS, Some (supportedMsgChecked m), m)
          else do {
            ok \<leftarrow> valid_handle m handle;
            if \<not> ok then Some (eLOC_CLIENT_FAILURE_GENERAL, supportedMsg, m)
            else do {
              d \<leftarrow> rd (cbs m) handle;
              let m1 = qcall (SendMsgSync (userHandle d) QMI_LOC_GET_SUPPORTED_MSGS_REQ_V02 NULL 0 rc) m;
              if rc \<noteq> QMI_NO_ERR then Some (eLOC_CLIENT_FAILURE_GENERAL, supportedMsg, m1)
              else if convertQmiResponseToLocStatus (resp r) = eLOC_CLIENT_SUCCESS then do {
                res \<leftarrow> checkQmiMsgsSupported ids msgArrayLength r;
                Some (eLOC_CLIENT_SUCCESS, Some res,
                      m1\<lparr>supportedMsgChecked := res, isCheckedAlready := True\<rparr>) }
              else Some (eLOC_CLIENT_FAILURE_GENERAL, supportedMsg, m1) } }
      | _ \<Rightarrow> Some (eLOC_CLIENT_FAILURE_INVALID_PARAMETER, supportedMsg, m))"

subsection \<open>Clients the framework serves\<close>

text \<open>
  The clients the framework may still call back, read off the calls made so far: a successful
  \<^verbatim>\<open>qmi_client_init\<close> adds the client with its callback data, a successful release removes it.
\<close>

fun live_step :: "(ptr \<times> ptr) list \<Rightarrow> qmi_call \<Rightarrow> (ptr \<times> ptr) list" where
  "live_step s (ClientInit p c QMI_NO_ERR) = (c, p) # s"
| "live_step s (ClientRelease c QMI_NO_ERR) = filter (\<lambda>x. fst x \<noteq> c) s"
| "live_step s _ = s"

definition live :: "loc_mem \<Rightarrow> (ptr \<times> ptr) list" where
  "live m = foldl live_step [] (calls m)"

named_theorems frame_simps \<open>what the bookkeeping leaves unchanged\<close>

lemma live_qcall [frame_simps]: "live (qcall c m) = live_step (live m) c"
  by (simp add: live_def qcall_def)

lemma cbs_qcall [frame_simps]: "cbs (qcall c m) = cbs m"
  by (simp add: qcall_def)

lemma live_updates [frame_simps]:
  "live (m\<lparr>cbs := c\<rparr>) = live m"
  "live (m\<lparr>supportedMsgChecked := r\<rparr>) = live m"
  "live (m\<lparr>isCheckedAlready := b\<rparr>) = live m"
  by (simp_all add: live_def)

lemma live_step_release_other: "c \<notin> fst ` set s \<Longrightarrow> live_step s (ClientRelease c rc) = s"
  by (cases rc) (auto simp: filter_id_conv image_iff)

text \<open>
  The invariant compares that list with the blocks: the self pointer and the client of each block.
\<close>

definition handles :: "loc_mem \<Rightarrow> ptr \<rightharpoonup> ptr \<times> ptr" where
  "handles m p = map_option (\<lambda>d. (pMe d, userHandle d)) (cbs m p)"

definition loc_inv :: "loc_mem \<Rightarrow> bool" where
  "loc_inv m \<longleftrightarrow>
     (\<forall>p q c. handles m p = Some (q, c) \<longleftrightarrow> q = p \<and> (c, p) \<in> set (live m)) \<and>
     (\<forall>(c, p) \<in> set (live m). c \<noteq> NULL \<and> p \<noteq> NULL) \<and>
     distinct (map fst (live m))"

lemma loc_inv_cong: "live m' = live m \<Longrightarrow> handles m' = handles m \<Longrightarrow> loc_inv m' = loc_inv m"
  by (simp add: loc_inv_def)

lemma handles_cbs: "cbs m' = cbs m \<Longrightarrow> handles m' = handles m"
  by (simp add: handles_def fun_eq_iff)

lemma loc_inv_block:
  assumes "loc_inv m" "cbs m p = Some d"
  shows "p \<noteq> NULL" "pMe d = p" "userHandle d \<noteq> NULL" "(userHandle d, p) \<in> set (live m)"
proof -
  have "handles m p = Some (pMe d, userHandle d)"
    using assms(2) by (simp add: handles_def)
  then have "pMe d = p \<and> (userHandle d, p) \<in> set (live m)"
    using assms(1) unfolding loc_inv_def by blast
  then show "pMe d = p" "(userHandle d, p) \<in> set (live m)" "p \<noteq> NULL" "userHandle d \<noteq> NULL"
    using assms(1) unfolding loc_inv_def by auto
qed

lemma loc_inv_live:
  assumes "loc_inv m" "(c, p) \<in> set (live m)"
  shows "p \<noteq> NULL" "c \<noteq> NULL" "\<exists>d. cbs m p = Some d \<and> userHandle d = c \<and> pMe d = p"
proof -
  have "handles m p = Some (p, c)"
    using assms unfolding loc_inv_def by blast
  then show "\<exists>d. cbs m p = Some d \<and> userHandle d = c \<and> pMe d = p"
    by (auto simp: handles_def)
  show "p \<noteq> NULL" "c \<noteq> NULL"
    using assms unfolding loc_inv_def by auto
qed

text \<open>
  What the code relies on: a fresh block from \<^verbatim>\<open>calloc\<close>, and handles from the framework that are
  not null and differ from the handles in use.
\<close>

definition env_ok :: "open_env \<Rightarrow> loc_mem \<Rightarrow> bool" where
  "env_ok env m \<longleftrightarrow>
     calloc_ptr env \<notin> dom (cbs m) \<and>
     init_clnt env \<noteq> NULL \<and> init_clnt env \<notin> fst ` set (live m) \<and>
     notifier env \<noteq> init_clnt env \<and> notifier env \<notin> fst ` set (live m)"

definition loc_init :: loc_mem where
  "loc_init = \<lparr>cbs = Map.empty, calls = [], isCheckedAlready = False, supportedMsgChecked = 0\<rparr>"

lemma loc_inv_init: "loc_inv loc_init"
  by (simp add: loc_inv_def loc_init_def live_def handles_def)

subsection \<open>Effect of each operation\<close>

lemma handles_frame [frame_simps]:
  "handles (qcall c m) = handles m"
  "cbs m h = Some d \<Longrightarrow> handles (n\<lparr>cbs := (cbs m)(h \<mapsto> d\<lparr>eventRegMask := k\<rparr>)\<rparr>) = handles m"
  by (auto simp: handles_def qcall_def)

lemma locClientSendReq_effect:
  assumes "locClientSendReq size_of h reqId pl req_mask rc r m = Some (st, m')"
  shows "live m' = live m" "handles m' = handles m"
  using assms
  by (auto simp: locClientSendReq_def Let_def frame_simps upd_def rd_def
      split: bind_splits if_splits prod.splits bool.splits option.splits)

lemma loc_inv_send:
  assumes "loc_inv m" "locClientSendReq size_of h reqId pl req_mask rc r m = Some (st, m')"
  shows "loc_inv m'"
  using locClientSendReq_effect [OF assms(2)] assms(1) loc_inv_cong by blast

lemma locClientClose_eq:
  assumes "h \<noteq> NULL" "cbs m h = Some d"
  shows "locClientClose (Some h) rc m =
     (if userHandle d = NULL \<or> pMe d \<noteq> h then Some (eLOC_CLIENT_FAILURE_INVALID_HANDLE, Some h, m)
      else if rc \<noteq> QMI_NO_ERR
      then Some (eLOC_CLIENT_FAILURE_INTERNAL, Some h, qcall (ClientRelease (userHandle d) rc) m)
      else Some (eLOC_CLIENT_SUCCESS, Some NULL,
                 (qcall (ClientRelease (userHandle d) rc) m)\<lparr>cbs := (cbs m)(h := None)\<rparr>))"
  using assms
  by (auto simp: locClientClose_def valid_handle_def frame_simps LOC_CLIENT_INVALID_HANDLE_VALUE_def)

lemma locClientClose_invalid:
  "locClientClose (Some NULL) rc m = Some (eLOC_CLIENT_FAILURE_INVALID_HANDLE, Some NULL, m)"
  "h \<noteq> NULL \<Longrightarrow> cbs m h = None \<Longrightarrow> locClientClose (Some h) rc m = None"
  by (simp_all add: locClientClose_def valid_handle_def)

lemma live_step_release_failed: "rc \<noteq> QMI_NO_ERR \<Longrightarrow> live_step s (ClientRelease c rc) = s"
  by (cases rc) auto

lemma locClientClose_effect:
  assumes "locClientClose (Some h) rc m = Some (st, h', m')"
  obtains (refused) "st \<noteq> eLOC_CLIENT_SUCCESS" "h' = Some h" "cbs m' = cbs m" "live m' = live m"
  | (closed) d where "st = eLOC_CLIENT_SUCCESS" "h' = Some NULL" "rc = QMI_NO_ERR" "h \<noteq> NULL"
      "cbs m h = Some d" "pMe d = h" "cbs m' = (cbs m)(h := None)"
      "live m' = filter (\<lambda>x. fst x \<noteq> userHandle d) (live m)"
proof -
  show ?thesis
  proof (cases "h = NULL \<or> cbs m h = None")
    case True
    then show ?thesis
      using assms refused locClientClose_invalid by (cases "h = NULL") auto
  next
    case False
    then obtain d where "h \<noteq> NULL" "cbs m h = Some d"
      by auto
    note eq = locClientClose_eq [OF this, of rc]
    show ?thesis
      using assms refused closed [of d] \<open>h \<noteq> NULL\<close> \<open>cbs m h = Some d\<close> unfolding eq
      by (auto simp: frame_simps live_step_release_failed split: if_splits)
  qed
qed

lemma loc_inv_close_block:
  assumes inv: "loc_inv m" and blk: "cbs m h = Some d"
    and cbs': "cbs m' = (cbs m)(h := None)"
    and live': "live m' = filter (\<lambda>x. fst x \<noteq> userHandle d) (live m)"
  shows "loc_inv m'"
proof -
  have handles': "handles m' = (handles m)(h := None)"
    using cbs' by (simp add: handles_def fun_eq_iff)
  have key: "c = userHandle d \<longleftrightarrow> p = h" if "(c, p) \<in> set (live m)" for c p
  proof
    show "p = h" if "c = userHandle d"
      using inv loc_inv_block(4) [OF inv blk] \<open>(c, p) \<in> set (live m)\<close> that
      unfolding loc_inv_def by (metis eq_key_imp_eq_value)
    show "c = userHandle d" if "p = h"
      using loc_inv_live(3) [OF inv \<open>(c, p) \<in> set (live m)\<close>] blk that by auto
  qed
  have "handles m' p = Some (q, c) \<longleftrightarrow> q = p \<and> (c, p) \<in> set (live m')" for p q c
    using inv key [of c p] unfolding loc_inv_def handles' live' by auto
  then show ?thesis
    using inv unfolding loc_inv_def live' by (auto simp: distinct_map_filter)
qed

lemma loc_inv_close:
  assumes "loc_inv m" "locClientClose ph rc m = Some (st, h', m')"
  shows "loc_inv m'"
proof (cases ph)
  case None
  then show ?thesis
    using assms by (simp add: locClientClose_def)
next
  case (Some h)
  show ?thesis
    using assms(2) [unfolded Some]
  proof (cases rule: locClientClose_effect)
    case refused
    then show ?thesis
      using assms(1) loc_inv_cong handles_cbs by blast
  next
    case (closed d)
    then show ?thesis
      using loc_inv_close_block assms(1) by blast
  qed
qed

lemma loc_inv_support:
  assumes "loc_inv m" "locClientSupportMsgCheck h ids n out rc r m = Some (st, out', m')"
  shows "loc_inv m'"
proof -
  have "live m' = live m" "cbs m' = cbs m"
    using assms(2)
    by (auto simp: locClientSupportMsgCheck_def Let_def frame_simps
        split: bind_splits if_splits prod.splits option.splits)
  then show ?thesis
    using assms(1) loc_inv_cong handles_cbs by blast
qed


text \<open>Opening.\<close>

lemma lookup_loop_effect:
  "lookup_loop instanceId rcs k m = Some m' \<Longrightarrow> live m' = live m \<and> cbs m' = cbs m"
proof (erule lookup_loop.raw_induct [rotated, where P = "\<lambda>i rcs k m m'. live m' = live m \<and> cbs m' = cbs m"])
  show "live m' = live m \<and> cbs m' = cbs m"
    if "\<And>i rcs k m m'. f i rcs k m = Some m' \<Longrightarrow> live m' = live m \<and> cbs m' = cbs m"
      and "(let m1 = qcall (if i \<ge> 0 then GetServiceInstance i else GetAnyService) m
            in if rcs k = QMI_NO_ERR then Some m1 else f i rcs (Suc k) m1) = Some m'"
    for f i rcs k m m'
    using that(2) by (auto simp: Let_def frame_simps split: if_splits dest!: that(1))
qed

lemma lookup_loop_returns:
  assumes "rcs k = QMI_NO_ERR" "j \<le> k"
  shows "\<exists>m'. lookup_loop instanceId rcs j m = Some m'"
  using assms(2)
proof (induction j arbitrary: m rule: inc_induct)
  case base
  then show ?case
    using assms(1) by (subst lookup_loop.simps) (simp add: Let_def)
next
  case (step j)
  then show ?case
    by (subst lookup_loop.simps) (simp add: Let_def)
qed

lemma live_release_notifier:
  "notifier env \<notin> fst ` set (live m) \<Longrightarrow> live (release_notifier env m) = live m"
  by (simp add: release_notifier_def frame_simps live_step_release_other)

lemma cbs_release_notifier [frame_simps]: "cbs (release_notifier env m) = cbs m"
  by (simp add: release_notifier_def frame_simps)

lemma live_step_init_failed: "rc \<noteq> QMI_NO_ERR \<Longrightarrow> live_step s (ClientInit p c rc) = s"
  by (cases rc) auto

lemma ctrl_init_effect:
  assumes "locClientQmiCtrlPointInit p instanceId env m = Some (st, m')"
    and "p \<noteq> NULL" "cbs m p = Some d"
    and "notifier env \<notin> fst ` set (live m)" "notifier env \<noteq> init_clnt env"
  obtains (failed) "st \<noteq> eLOC_CLIENT_SUCCESS" "cbs m' = cbs m"
      "live m' = live m \<or>
       error_cb_rc env \<noteq> QMI_NO_ERR \<and> init_rc env = QMI_NO_ERR \<and> live m' = (init_clnt env, p) # live m"
  | (connected) "st = eLOC_CLIENT_SUCCESS" "cbs m' = (cbs m)(p \<mapsto> d\<lparr>userHandle := init_clnt env\<rparr>)"
      "live m' = (init_clnt env, p) # live m"
  using assms
  by (auto simp: locClientQmiCtrlPointInit_def Let_def frame_simps live_release_notifier
      live_step_init_failed dest!: lookup_loop_effect split: if_splits bind_splits)

text \<open>
  One attempt to open, in the terms of the invariant. A failed registration of the error callback
  leaves a client that the framework still serves, while its callback data has been freed.
\<close>

lemma register_effect:
  assumes "locClientRegisterEventMask size_of p evMask loc rc r m = Some (ok, m')"
  shows "live m' = live m" "handles m' = handles m"
  using assms locClientSendReq_effect
  by (auto simp: locClientRegisterEventMask_def split: bind_splits prod.splits)

lemma open_cases:
  assumes res: "locClientOpenInstance size_of evMask instanceId cb h cookie env m = Some (st, h', m')"
    and env: "env_ok env m"
  obtains (unchanged) "st \<noteq> eLOC_CLIENT_SUCCESS" "cbs m' = cbs m" "live m' = live m"
  | (dangling) "st \<noteq> eLOC_CLIENT_SUCCESS" "error_cb_rc env \<noteq> QMI_NO_ERR" "cbs m' = cbs m"
      "live m' = (init_clnt env, calloc_ptr env) # live m"
  | (connected) m2 where "calloc_ptr env \<noteq> NULL"
      "handles m2 = (handles m)(calloc_ptr env \<mapsto> (calloc_ptr env, init_clnt env))"
      "live m2 = (init_clnt env, calloc_ptr env) # live m"
      "st = eLOC_CLIENT_SUCCESS \<and> h' = Some (calloc_ptr env) \<and>
         (\<exists>c d. cb = Some c \<and> respIndCb c \<noteq> NULL \<and> cbs m2 (calloc_ptr env) = Some d \<and>
                m' = m2\<lparr>cbs := (cbs m2)(calloc_ptr env \<mapsto> fill_cb c evMask cookie d)\<rparr>) \<or>
       st \<noteq> eLOC_CLIENT_SUCCESS \<and>
         (\<exists>st2 h2. locClientClose (Some (calloc_ptr env)) (close_rc env) m2 = Some (st2, h2, m'))"
proof (cases "cbs m' = cbs m \<and> live m' = live m \<and> st \<noteq> eLOC_CLIENT_SUCCESS")
  case True
  then show thesis
    using unchanged by blast
next
  case changed: False
  let ?p = "calloc_ptr env"
  have fresh: "cbs m ?p = None" and nnot: "notifier env \<notin> fst ` set (live m)" "notifier env \<noteq> init_clnt env"
    using env by (auto simp: env_ok_def)
  obtain c where cb: "cb = Some c" and good: "respIndCb c \<noteq> NULL" "cb_size c = size_of ''locClientCallbacksType''"
    and nz: "?p \<noteq> NULL" and hn: "h \<noteq> None"
    using res changed by (auto simp: locClientOpenInstance_def split: option.splits if_splits)
  define m0 where "m0 = m\<lparr>cbs := (cbs m)(?p \<mapsto> zero_cb)\<rparr>"
  have m0: "cbs m0 ?p = Some zero_cb" "live m0 = live m" "(cbs m0)(?p := None) = cbs m"
    using fresh by (auto simp: m0_def frame_simps fun_upd_idem)
  obtain st1 m1 where init: "locClientQmiCtrlPointInit ?p instanceId env m0 = Some (st1, m1)"
    using res cb good nz hn
    by (auto simp: locClientOpenInstance_def Let_def m0_def split: bind_splits)
  note body = res [unfolded locClientOpenInstance_def cb, simplified]
    and init' = init [unfolded m0_def]
  from init nz m0(1) nnot [folded m0(2)] show thesis
  proof (cases rule: ctrl_init_effect)
    case failed
    then have "m' = m1\<lparr>cbs := cbs m\<rparr>" "st = st1"
      using body good nz hn m0 by (auto simp: Let_def init')
    then show thesis
      using failed unchanged dangling m0 by (auto simp: frame_simps)
  next
    case up: connected
    define c1 where "c1 = (cbs m1)(?p \<mapsto> zero_cb\<lparr>userHandle := init_clnt env, pMe := ?p\<rparr>)"
    obtain ok m2 where reg: "locClientRegisterEventMask size_of ?p evMask (local_req env) (reg_rc env)
        (reg_resp env) (m1\<lparr>cbs := c1\<rparr>) = Some (ok, m2)"
      using body good nz hn up m0(1) by (auto simp: Let_def c1_def init' split: bind_splits)
    have "handles (m1\<lparr>cbs := c1\<rparr>) = (handles m)(?p \<mapsto> (?p, init_clnt env))"
      using up m0 by (auto simp: handles_def c1_def m0_def)
    then have m2: "handles m2 = (handles m)(?p \<mapsto> (?p, init_clnt env))"
        "live m2 = (init_clnt env, ?p) # live m"
      using register_effect [OF reg] up m0 by (simp_all add: frame_simps)
    have "st = eLOC_CLIENT_SUCCESS \<and> h' = Some ?p \<and>
        (\<exists>c d. cb = Some c \<and> respIndCb c \<noteq> NULL \<and> cbs m2 ?p = Some d \<and>
               m' = m2\<lparr>cbs := (cbs m2)(?p \<mapsto> fill_cb c evMask cookie d)\<rparr>) \<or>
        st \<noteq> eLOC_CLIENT_SUCCESS \<and>
          (\<exists>st2 h2. locClientClose (Some ?p) (close_rc env) m2 = Some (st2, h2, m'))"
    proof (cases ok)
      case True
      then obtain d where "cbs m2 ?p = Some d"
        using m2 by (auto simp: handles_def fun_eq_iff split: if_splits)
      then show ?thesis
        using True body good nz hn up m0(1) reg cb by (auto simp: Let_def c1_def init')
    next
      case False
      then show ?thesis
        using body good nz hn up m0(1) reg by (auto simp: Let_def c1_def init' split: bind_splits)
    qed
    then show thesis
      using connected nz m2 by blast
  qed
qed


lemma handles_fill: "cbs m p = Some d \<Longrightarrow> handles (m\<lparr>cbs := (cbs m)(p \<mapsto> fill_cb c k ck d)\<rparr>) = handles m"
  by (simp add: handles_def fun_eq_iff fill_cb_def)

lemma loc_inv_add:
  assumes "loc_inv m" "env_ok env m" "calloc_ptr env \<noteq> NULL"
    and "handles m2 = (handles m)(calloc_ptr env \<mapsto> (calloc_ptr env, init_clnt env))"
    and "live m2 = (init_clnt env, calloc_ptr env) # live m"
  shows "loc_inv m2"
proof -
  have "handles m (calloc_ptr env) = None"
    using assms(2) by (auto simp: env_ok_def handles_def)
  then have "(c, calloc_ptr env) \<notin> set (live m)" for c
    using assms(1) unfolding loc_inv_def by (metis option.distinct(1))
  then show ?thesis
    using assms unfolding loc_inv_def env_ok_def by auto
qed

lemma loc_inv_open:
  assumes "loc_inv m" "env_ok env m" "error_cb_rc env = QMI_NO_ERR"
    and "locClientOpenInstance size_of evMask instanceId cb h cookie env m = Some (st, h', m')"
  shows "loc_inv m'"
  using assms(4,2)
proof (cases rule: open_cases)
  case unchanged
  then show ?thesis
    using assms(1) loc_inv_cong handles_cbs by blast
next
  case dangling
  then show ?thesis
    using assms(3) by simp
next
  case (connected m2)
  then have "loc_inv m2"
    using loc_inv_add assms(1,2) by blast
  then show ?thesis
    using connected(4) loc_inv_close loc_inv_cong [of m' m2] by (auto simp: handles_fill frame_simps)
qed

subsection \<open>Sequences of calls\<close>

text \<open>
  The calls a program can make, in any order and with any handles, each in an environment that
  keeps its promises. The registration of the error callback is taken to succeed.
\<close>

inductive loc_step :: "size_of \<Rightarrow> loc_mem \<Rightarrow> loc_mem \<Rightarrow> bool" for size_of where
  open_instance: "env_ok env m \<Longrightarrow> error_cb_rc env = QMI_NO_ERR \<Longrightarrow>
     locClientOpenInstance size_of evMask instanceId cb h cookie env m = Some (st, h', m') \<Longrightarrow>
     loc_step size_of m m'"
| close: "locClientClose h rc m = Some (st, h', m') \<Longrightarrow> loc_step size_of m m'"
| send: "locClientSendReq size_of h reqId pl req_mask rc r m = Some (st, m') \<Longrightarrow> loc_step size_of m m'"
| support: "locClientSupportMsgCheck h ids n out rc sr m = Some (st, out', m') \<Longrightarrow> loc_step size_of m m'"

inductive loc_reach :: "size_of \<Rightarrow> loc_mem \<Rightarrow> bool" for size_of where
  start: "loc_reach size_of loc_init"
| step: "loc_reach size_of m \<Longrightarrow> loc_step size_of m m' \<Longrightarrow> loc_reach size_of m'"

lemma loc_step_inv: "loc_step size_of m m' \<Longrightarrow> loc_inv m \<Longrightarrow> loc_inv m'"
  by (induction rule: loc_step.induct)
     (auto intro: loc_inv_open loc_inv_close loc_inv_send loc_inv_support)

lemma loc_reach_inv: "loc_reach size_of m \<Longrightarrow> loc_inv m"
  by (induction rule: loc_reach.induct) (auto intro: loc_inv_init loc_step_inv)

end
