(* ===== verification/Loc_Client_Laws.thy ===== *)
theory Loc_Client_Laws
  imports Loc_Client
begin

text \<open>
  What the location client guarantees: the framework never calls into freed memory as long as the
  error callback could be registered, an opened handle delivers its indications, opening ends, a
  closed handle is refused, and the bit field of supported messages is read correctly within the
  limits of the code.
\<close>

subsection \<open>A concrete environment\<close>

definition demo_env :: open_env where
  "demo_env = \<lparr>calloc_ptr = 100, service_object = 7, notifier_rc = QMI_NO_ERR, notifier = 8,
     lookups = (\<lambda>k. if k = 0 then QMI_RC 5 else QMI_NO_ERR), init_rc = QMI_NO_ERR, init_clnt = 9,
     error_cb_rc = QMI_NO_ERR, local_req = 50, reg_rc = QMI_NO_ERR,
     reg_resp = \<lparr>result_ok = True, error = QMI_ERR 0\<rparr>, notifier_release_rc = QMI_NO_ERR,
     close_rc = QMI_NO_ERR\<rparr>"

definition demo_cb :: locClientCallbacksType where
  "demo_cb = \<lparr>cb_size = 22, eventIndCb = 30, respIndCb = 31, errorCb = 32\<rparr>"

definition demo_mem :: loc_mem where
  "demo_mem = \<lparr>cbs = [100 \<mapsto> \<lparr>pClientCookie = 77, userHandle = 9, eventCallback = 30, respCallback = 31,
       errorCallback = 32, eventRegMask = 5, pMe = 100\<rparr>],
     calls = [GetAnyService, GetAnyService, ClientInit 100 9 QMI_NO_ERR, RegisterErrorCb 9 100 QMI_NO_ERR,
       ClientRelease 8 QMI_NO_ERR, SendMsgSync 9 QMI_LOC_REG_EVENTS_REQ_V02 50 26 QMI_NO_ERR],
     isCheckedAlready = False, supportedMsgChecked = 0\<rparr>"

lemmas demo_defs = demo_env_def demo_cb_def demo_mem_def loc_init_def

lemma demo_validate: "validateRequest length QMI_LOC_REG_EVENTS_REQ_V02 50 NULL 0 = (True, 50, 26)"
proof -
  have "(QMI_LOC_REG_EVENTS_REQ_V02, 26) \<in> set (validateRequest_payload length)"
    by (simp add: request_table_defs)
  from validateRequest_len [OF this] show ?thesis
    by simp
qed

lemma demo_lookup:
  "lookup_loop (- 1) (lookups demo_env) 0 m = Some (qcall GetAnyService (qcall GetAnyService m))"
  by (subst lookup_loop.simps, subst lookup_loop.simps) (simp add: demo_env_def)

lemma demo_open:
  "locClientOpenInstance length 5 (- 1) (Some demo_cb) (Some 3) 77 demo_env loc_init =
     Some (eLOC_CLIENT_SUCCESS, Some 100, demo_mem)"
proof -
  have "lookup_loop (- 1) (\<lambda>k. if k = 0 then QMI_RC 5 else QMI_NO_ERR) 0 m =
      Some (qcall GetAnyService (qcall GetAnyService m))" for m
    using demo_lookup by (simp add: demo_env_def)
  then show ?thesis
    by (simp add: locClientOpenInstance_def locClientQmiCtrlPointInit_def locClientRegisterEventMask_def
        locClientSendReq_def valid_handle_def demo_defs release_notifier_def qcall_def zero_cb_def
        demo_validate convertQmiResponseToLocStatus_def fill_cb_def)
qed

lemma demo_env_ok: "env_ok demo_env loc_init"
  by (simp add: env_ok_def demo_defs live_def)

lemma demo_reach: "loc_reach length demo_mem"
proof -
  have "loc_step length loc_init demo_mem"
    by (rule loc_step.open_instance [OF demo_env_ok _ demo_open]) (simp add: demo_env_def)
  then show ?thesis
    by (rule loc_reach.step [OF loc_reach.start])
qed

subsection \<open>Callbacks\<close>



text \<open>
  C33. When the framework refuses the error callback, opening reports an internal error and frees
  the callback data, but the client has been initialised and is never released: an indication that
  arrives for it reads the freed block.
\<close>

theorem error_cb_failure_dangles:
  assumes "env_ok env m" "service_object env \<noteq> NULL" "notifier_rc env = QMI_NO_ERR"
    "lookups env 0 = QMI_NO_ERR" "init_rc env = QMI_NO_ERR" "error_cb_rc env \<noteq> QMI_NO_ERR"
    and "calloc_ptr env \<noteq> NULL" "respIndCb cb \<noteq> NULL" "cb_size cb = size_of ''locClientCallbacksType''"
  shows "\<exists>m'. locClientOpenInstance size_of evMask instanceId (Some cb) (Some h) cookie env m =
             Some (eLOC_CLIENT_FAILURE_INTERNAL, Some NULL, m') \<and>
           (init_clnt env, calloc_ptr env) \<in> set (live m') \<and>
           locClientIndCb size_of decode malloc_ok (init_clnt env) msg_id buf (calloc_ptr env) m' = None"
proof -
  let ?p = "calloc_ptr env"
  have look: "lookup_loop instanceId (lookups env) 0 x =
      Some (qcall (if instanceId \<ge> 0 then GetServiceInstance instanceId else GetAnyService) x)" for x
    using assms(4) by (subst lookup_loop.simps) simp
  define m3 where "m3 = release_notifier env (qcall (RegisterErrorCb (init_clnt env) ?p (error_cb_rc env))
      (qcall (ClientInit ?p (init_clnt env) QMI_NO_ERR)
        (qcall (if instanceId \<ge> 0 then GetServiceInstance instanceId else GetAnyService)
          (m\<lparr>cbs := (cbs m)(?p \<mapsto> zero_cb)\<rparr>))))"
  have "locClientOpenInstance size_of evMask instanceId (Some cb) (Some h) cookie env m =
      Some (eLOC_CLIENT_FAILURE_INTERNAL, Some NULL, m3\<lparr>cbs := (cbs m)(?p := None)\<rparr>)"
    using assms
    by (simp add: locClientOpenInstance_def locClientQmiCtrlPointInit_def look Let_def
        LOC_CLIENT_INVALID_HANDLE_VALUE_def frame_simps m3_def)
  moreover have "live m3 = (init_clnt env, ?p) # live m"
    unfolding m3_def using assms(1)
    by (subst live_release_notifier) (auto simp: frame_simps env_ok_def)
  ultimately show ?thesis
    using assms(7) by (auto simp: frame_simps locClientIndCb_def)
qed

theorem error_cb_failure_dangles_witness:
  "\<exists>m'. locClientOpenInstance length 5 0 (Some demo_cb) (Some 3) 77
           (demo_env\<lparr>lookups := (\<lambda>_. QMI_NO_ERR), error_cb_rc := QMI_RC 2\<rparr>) loc_init =
          Some (eLOC_CLIENT_FAILURE_INTERNAL, Some NULL, m') \<and>
        (9, 100) \<in> set (live m') \<and>
        locClientIndCb length (\<lambda>_ b _. (QMI_NO_ERR, b)) True 9 QMI_LOC_EVENT_NMEA_IND_V02 [1] 100 m' = None"
proof -
  let ?env = "demo_env\<lparr>lookups := (\<lambda>_. QMI_NO_ERR), error_cb_rc := QMI_RC 2\<rparr>"
  have "env_ok ?env loc_init"
    by (simp add: env_ok_def demo_defs live_def)
  from error_cb_failure_dangles [OF this, of demo_cb length 5 0 3 77] show ?thesis
    by (simp add: demo_env_def demo_cb_def)
qed

text \<open>
  C17. A successful open yields a handle that works: the block behind it carries the client, the
  mask, the cookie and the three callbacks, and every response indication the service sends to it
  that decodes reaches the caller's response callback with the cookie.
\<close>

theorem open_delivers_responses:
  assumes "locClientOpenInstance size_of evMask instanceId (Some cb) h cookie env m =
             Some (eLOC_CLIENT_SUCCESS, h', m')"
    and "env_ok env m"
    and "e \<in> set (locClientRespIndTable size_of)" "respIndId e \<notin> set event_ids"
    and "decode (respIndId e) buf (respIndSize e) = (QMI_NO_ERR, msg)" "buf \<noteq> []"
  shows "h' = Some (calloc_ptr env) \<and>
         cbs m' (calloc_ptr env) = Some \<lparr>pClientCookie = cookie, userHandle = init_clnt env,
           eventCallback = eventIndCb cb, respCallback = respIndCb cb, errorCallback = errorCb cb,
           eventRegMask = evMask, pMe = calloc_ptr env\<rparr> \<and>
         locClientIndCb size_of decode True (init_clnt env) (respIndId e) buf (calloc_ptr env) m' =
           Some (Some (RespUpcall (respIndCb cb) (calloc_ptr env) (respIndId e) (Some msg) cookie))"
  using assms(1,2)
proof (cases rule: open_cases)
  case (connected m2)
  then obtain d where d: "cbs m2 (calloc_ptr env) = Some d" "respIndCb cb \<noteq> NULL"
    and h': "h' = Some (calloc_ptr env)"
    and m': "m' = m2\<lparr>cbs := (cbs m2)(calloc_ptr env \<mapsto> fill_cb cb evMask cookie d)\<rparr>"
    by auto
  have "pMe d = calloc_ptr env" "userHandle d = init_clnt env"
    using connected(2) d(1) by (auto simp: handles_def fun_eq_iff split: if_splits)
  then have blk: "cbs m' (calloc_ptr env) = Some \<lparr>pClientCookie = cookie, userHandle = init_clnt env,
           eventCallback = eventIndCb cb, respCallback = respIndCb cb, errorCallback = errorCb cb,
           eventRegMask = evMask, pMe = calloc_ptr env\<rparr>"
    by (simp add: m' fill_cb_def)
  have "locClientGetSizeAndTypeByIndId size_of (respIndId e) (Some 0) None =
      (True, Some (respIndSize e), Some respIndType)"
    using assms(3,4) by (simp add: locClientGetSizeAndTypeByIndId_def event_lookup_miss resp_lookup_hit)
  then show ?thesis
    using blk h' d(2) connected(1) assms(5,6) by (simp add: locClientIndCb_def)
qed simp_all


theorem open_delivers_responses_witness:
  "locClientIndCb length (\<lambda>_ b _. (QMI_NO_ERR, b)) True 9 QMI_LOC_GET_SERVICE_REVISION_IND_V02 [1] 100 demo_mem =
     Some (Some (RespUpcall 31 100 QMI_LOC_GET_SERVICE_REVISION_IND_V02 (Some [1]) 77))"
proof -
  let ?e = "\<lparr>respIndId = QMI_LOC_GET_SERVICE_REVISION_IND_V02, respIndSize = 35\<rparr>"
  have e: "?e \<in> set (locClientRespIndTable length)"
    by (simp add: resp_table_defs)
  have ne: "respIndId ?e \<notin> set event_ids"
    by (simp add: event_ids_nums event_nums_def)
  show ?thesis
    using open_delivers_responses [OF demo_open demo_env_ok e ne, of "\<lambda>_ b _. (QMI_NO_ERR, b)" "[1]" "[1]"]
    by (simp add: demo_env_def demo_cb_def)
qed

subsection \<open>Closing\<close>

text \<open>
  C19. Closing a handle of a reachable state whose client the framework releases frees exactly its
  block, takes its client and no other out of service and clears the caller's handle; closing or
  sending through the cleared handle is then refused without any effect. A release that fails
  keeps the handle and the block.
\<close>

theorem close_is_final:
  assumes "loc_reach size_of m" "cbs m h = Some d"
  shows "(\<exists>m'. locClientClose (Some h) QMI_NO_ERR m = Some (eLOC_CLIENT_SUCCESS, Some NULL, m') \<and>
           cbs m' = (cbs m)(h := None) \<and>
           set (live m') = set (live m) - {(userHandle d, h)} \<and>
           (\<forall>rc. locClientClose (Some NULL) rc m' = Some (eLOC_CLIENT_FAILURE_INVALID_HANDLE, Some NULL, m')) \<and>
           (\<forall>reqId pl req_mask rc r. locClientSendReq size_of NULL reqId pl req_mask rc r m' =
              Some (eLOC_CLIENT_FAILURE_INVALID_HANDLE, m'))) \<and>
         (\<forall>k. k \<noteq> QMI_NO_ERR \<longrightarrow>
           (\<exists>m'. locClientClose (Some h) k m = Some (eLOC_CLIENT_FAILURE_INTERNAL, Some h, m') \<and>
              cbs m' = cbs m \<and> live m' = live m))"
proof -
  have inv: "loc_inv m"
    using assms(1) by (rule loc_reach_inv)
  note blk = loc_inv_block [OF inv assms(2)]
  have "set (filter (\<lambda>x. fst x \<noteq> userHandle d) (live m)) = set (live m) - {(userHandle d, h)}"
    using inv blk(4) unfolding loc_inv_def by (auto dest: eq_key_imp_eq_value)
  then show ?thesis
    using blk
    by (simp add: locClientClose_eq [OF blk(1) assms(2)] locClientClose_invalid frame_simps
        locClientSendReq_def valid_handle_def live_step_release_failed)
qed

theorem close_is_final_witness:
  "\<exists>m'. locClientClose (Some 100) QMI_NO_ERR demo_mem = Some (eLOC_CLIENT_SUCCESS, Some NULL, m') \<and>
     cbs m' 100 = None"
proof -
  have "cbs demo_mem 100 = Some \<lparr>pClientCookie = 77, userHandle = 9, eventCallback = 30, respCallback = 31,
       errorCallback = 32, eventRegMask = 5, pMe = 100\<rparr>"
    by (simp add: demo_mem_def)
  from conjunct1 [OF close_is_final [OF demo_reach this]] show ?thesis
    by force
qed

subsection \<open>Sending\<close>




subsection \<open>Opening ends\<close>

lemma register_returns:
  assumes "h \<noteq> NULL" "cbs m h = Some d"
  shows "\<exists>ok m'. locClientRegisterEventMask size_of h evMask loc rc r m = Some (ok, m') \<and> h \<in> dom (cbs m')"
  using assms
  by (auto simp: locClientRegisterEventMask_def locClientSendReq_def valid_handle_def Let_def frame_simps
      split: prod.splits bool.splits)

lemma open_instance_returns:
  assumes "lookups env j = QMI_NO_ERR"
  shows "\<exists>st h' m'. locClientOpenInstance size_of evMask instanceId cb h cookie env m = Some (st, h', m')"
proof (cases "\<exists>c h0. cb = Some c \<and> h = Some h0 \<and> respIndCb c \<noteq> NULL \<and>
    cb_size c = size_of ''locClientCallbacksType'' \<and> calloc_ptr env \<noteq> NULL")
  case False
  then show ?thesis
    by (auto simp: locClientOpenInstance_def split: option.splits)
next
  case True
  then obtain c h0 where cb: "cb = Some c" "h = Some h0" "respIndCb c \<noteq> NULL"
    "cb_size c = size_of ''locClientCallbacksType''" and nz: "calloc_ptr env \<noteq> NULL"
    by blast
  let ?p = "calloc_ptr env"
  let ?m0 = "m\<lparr>cbs := (cbs m)(?p \<mapsto> zero_cb)\<rparr>"
  obtain m1 where look: "lookup_loop instanceId (lookups env) 0 ?m0 = Some m1"
    using lookup_loop_returns [of "lookups env" j 0] assms by blast
  have c1: "cbs m1 = cbs ?m0"
    using lookup_loop_effect [OF look] by simp
  obtain st m2 where init: "locClientQmiCtrlPointInit ?p instanceId env ?m0 = Some (st, m2)"
    and m2: "?p \<in> dom (cbs m2)"
    using nz c1
    by (cases "service_object env = NULL"; cases "notifier_rc env = QMI_NO_ERR"; cases "init_rc env = QMI_NO_ERR";
        cases "error_cb_rc env = QMI_NO_ERR")
       (auto simp: locClientQmiCtrlPointInit_def look Let_def frame_simps)
  show ?thesis
  proof (cases "st = eLOC_CLIENT_SUCCESS")
    case False
    then show ?thesis
      using cb nz m2 init by (auto simp: locClientOpenInstance_def Let_def)
  next
    case up: True
    obtain d where d: "cbs m2 ?p = Some d"
      using m2 by blast
    let ?m3 = "m2\<lparr>cbs := (cbs m2)(?p \<mapsto> d\<lparr>pMe := ?p\<rparr>)\<rparr>"
    obtain ok m4 d4 where reg: "locClientRegisterEventMask size_of ?p evMask (local_req env) (reg_rc env)
        (reg_resp env) ?m3 = Some (ok, m4)" and d4: "cbs m4 ?p = Some d4"
      using register_returns [OF nz, of ?m3 "d\<lparr>pMe := ?p\<rparr>"] by fastforce
    have "\<exists>x y z. locClientClose (Some ?p) (close_rc env) m4 = Some (x, y, z)"
      using locClientClose_eq [OF nz d4] by simp
    then show ?thesis
      using cb nz init up d reg d4 by (cases ok) (auto simp: locClientOpenInstance_def Let_def)
  qed
qed

lemma open_loop_returns:
  assumes "\<And>k h m. tries \<le> k \<Longrightarrow> k \<le> 21 \<Longrightarrow> \<exists>st h' m'. attempt k (Some h) m = Some (st, Some h', m')"
    and "tries \<le> 21"
  shows "\<exists>st h' m'. open_loop attempt tries (Some h) m = Some (st, Some h', m') \<and>
     ((\<exists>k. tries \<le> k \<and> k \<le> 21 \<and>
         (\<forall>h m st h' m'. attempt k (Some h) m = Some (st, h', m') \<longrightarrow> st = eLOC_CLIENT_SUCCESS))
        \<longrightarrow> st = eLOC_CLIENT_SUCCESS)"
  using assms(2,1)
proof (induction tries arbitrary: h m rule: inc_induct)
  case base
  then obtain st h' m' where "attempt 21 (Some h) m = Some (st, Some h', m')"
    by blast
  then show ?case
    by (subst open_loop.simps) (simp add: LOC_CLIENT_MAX_OPEN_RETRIES_def, metis le_antisym)
next
  case (step n)
  obtain st h' m' where a: "attempt n (Some h) m = Some (st, Some h', m')"
    using step.prems step.hyps by (meson le_refl less_imp_le)
  have IH: "\<exists>st h'' m''. open_loop attempt (Suc n) (Some h') m' = Some (st, Some h'', m'') \<and>
     ((\<exists>k. Suc n \<le> k \<and> k \<le> 21 \<and>
         (\<forall>h m st h' m'. attempt k (Some h) m = Some (st, h', m') \<longrightarrow> st = eLOC_CLIENT_SUCCESS))
        \<longrightarrow> st = eLOC_CLIENT_SUCCESS)"
    using step.IH step.prems by (meson Suc_leD)
  show ?case
  proof (cases "st = eLOC_CLIENT_SUCCESS")
    case True
    then show ?thesis
      using a by (subst open_loop.simps) simp
  next
    case False
    have "n \<le> 20"
      using step.hyps by simp
    then have "open_loop attempt n (Some h) m = open_loop attempt (Suc n) (Some h') m'"
      using False a by (subst open_loop.simps) (simp add: LOC_CLIENT_MAX_OPEN_RETRIES_def)
    then show ?thesis
      using IH False a by (metis le_antisym not_less_eq_eq)
  qed
qed

text \<open>An environment in which nothing goes wrong.\<close>

definition env_good :: "open_env \<Rightarrow> bool" where
  "env_good env \<longleftrightarrow>
     calloc_ptr env \<noteq> NULL \<and> service_object env \<noteq> NULL \<and> notifier_rc env = QMI_NO_ERR \<and>
     init_rc env = QMI_NO_ERR \<and> init_clnt env \<noteq> NULL \<and> error_cb_rc env = QMI_NO_ERR \<and>
     reg_rc env = QMI_NO_ERR \<and> result_ok (reg_resp env)"

lemma register_succeeds:
  assumes "h \<noteq> NULL" "cbs m h = Some d" "pMe d = h" "userHandle d \<noteq> NULL" "result_ok r"
  shows "\<exists>m' d'. locClientRegisterEventMask size_of h evMask loc QMI_NO_ERR r m = Some (True, m') \<and>
    cbs m' h = Some d'"
proof -
  have "QMI_LOC_REG_EVENTS_REQ_V02 \<in> set request_ids"
    by (simp add: request_ids_nums request_nums_def)
  then obtain data len where "validateRequest size_of QMI_LOC_REG_EVENTS_REQ_V02 loc NULL 0 = (True, data, len)"
    using validateRequest_accepts [of size_of QMI_LOC_REG_EVENTS_REQ_V02 loc NULL 0] by (metis prod.collapse)
  then show ?thesis
    using assms
    by (auto simp: locClientRegisterEventMask_def locClientSendReq_def valid_handle_def Let_def frame_simps
        convertQmiResponseToLocStatus_def)
qed

lemma open_instance_succeeds:
  assumes "env_good env" "respIndCb c \<noteq> NULL" "cb_size c = size_of ''locClientCallbacksType''"
    and res: "locClientOpenInstance size_of evMask instanceId (Some c) (Some h) cookie env m = Some (st, h', m')"
  shows "st = eLOC_CLIENT_SUCCESS \<and> h' = Some (calloc_ptr env)"
proof -
  let ?p = "calloc_ptr env"
  let ?m0 = "m\<lparr>cbs := (cbs m)(?p \<mapsto> zero_cb)\<rparr>"
  obtain m1 where look: "lookup_loop instanceId (lookups env) 0 ?m0 = Some m1"
    using assms
    by (cases "lookup_loop instanceId (lookups env) 0 ?m0")
       (auto simp: locClientOpenInstance_def locClientQmiCtrlPointInit_def env_good_def Let_def)
  have c1: "cbs m1 = cbs ?m0"
    using lookup_loop_effect [OF look] by simp
  define m2 where "m2 = release_notifier env ((qcall (RegisterErrorCb (init_clnt env) ?p QMI_NO_ERR)
      (qcall (ClientInit ?p (init_clnt env) QMI_NO_ERR) m1))\<lparr>cbs := (cbs m)(?p \<mapsto> zero_cb\<lparr>userHandle := init_clnt env\<rparr>)\<rparr>)"
  have init: "locClientQmiCtrlPointInit ?p instanceId env ?m0 = Some (eLOC_CLIENT_SUCCESS, m2)"
    using assms(1) c1 by (simp add: locClientQmiCtrlPointInit_def env_good_def look frame_simps m2_def)
  let ?d = "zero_cb\<lparr>userHandle := init_clnt env, pMe := ?p\<rparr>"
  let ?m3 = "m2\<lparr>cbs := (cbs m)(?p \<mapsto> ?d)\<rparr>"
  obtain m4 d4 where "locClientRegisterEventMask size_of ?p evMask (local_req env) QMI_NO_ERR
      (reg_resp env) ?m3 = Some (True, m4)" "cbs m4 ?p = Some d4"
    using register_succeeds [of ?p ?m3 ?d "reg_resp env" size_of evMask "local_req env"] assms(1)
    by (auto simp: env_good_def)
  then show ?thesis
    using res assms(1-3) init
    by (simp add: locClientOpenInstance_def env_good_def m2_def frame_simps Let_def)
qed

text \<open>
  C18. Opening a connection ends, provided the service appears in each attempt that is made, and it
  succeeds when one of the 21 attempts meets an environment in which nothing fails.
\<close>

theorem open_terminates:
  assumes "\<forall>k \<in> {1..21}. \<exists>j. lookups (envs k) j = QMI_NO_ERR"
  shows "\<exists>st h' m'. locClientOpen size_of target evMask (Some cb) (Some h) cookie envs m = Some (st, h', m') \<and>
     ((\<exists>k \<in> {1..21}. env_good (envs k)) \<and> respIndCb cb \<noteq> NULL \<and>
      cb_size cb = size_of ''locClientCallbacksType'' \<longrightarrow> st = eLOC_CLIENT_SUCCESS)"
proof -
  let ?att = "\<lambda>tries h. locClientOpenInstance size_of evMask (instance_id target) (Some cb) h cookie (envs tries)"
  have ret: "\<exists>st h' m'. ?att k (Some h) m = Some (st, Some h', m')" if "1 \<le> k" "k \<le> 21" for k h m
  proof -
    obtain st h' m' where "?att k (Some h) m = Some (st, h', m')"
      using open_instance_returns assms \<open>1 \<le> k\<close> \<open>k \<le> 21\<close> by (meson atLeastAtMost_iff)
    moreover from this have "h' \<noteq> None"
      by (auto simp: locClientOpenInstance_def Let_def split: bind_splits prod.splits if_splits)
    ultimately show ?thesis
      by auto
  qed
  have "\<exists>st h' m'. open_loop ?att 1 (Some h) m = Some (st, Some h', m') \<and>
     ((\<exists>k. 1 \<le> k \<and> k \<le> 21 \<and>
         (\<forall>h m st h' m'. ?att k (Some h) m = Some (st, h', m') \<longrightarrow> st = eLOC_CLIENT_SUCCESS))
        \<longrightarrow> st = eLOC_CLIENT_SUCCESS)"
    by (rule open_loop_returns) (use ret in simp_all)
  then obtain st h' m' where res: "open_loop ?att 1 (Some h) m = Some (st, Some h', m')"
    and succ: "(\<exists>k. 1 \<le> k \<and> k \<le> 21 \<and>
         (\<forall>h m st h' m'. ?att k (Some h) m = Some (st, h', m') \<longrightarrow> st = eLOC_CLIENT_SUCCESS))
        \<longrightarrow> st = eLOC_CLIENT_SUCCESS"
    by blast
  have "st = eLOC_CLIENT_SUCCESS" if "k \<in> {1..21}" "env_good (envs k)" "respIndCb cb \<noteq> NULL"
      "cb_size cb = size_of ''locClientCallbacksType''" for k
    using succ open_instance_succeeds that by (meson atLeastAtMost_iff)
  then show ?thesis
    using res unfolding locClientOpen_def by blast
qed

theorem open_terminates_witness:
  "\<exists>h' m'. locClientOpen length GNSS_MSM 5 (Some demo_cb) (Some 3) 77 (\<lambda>_. demo_env) loc_init =
     Some (eLOC_CLIENT_SUCCESS, h', m')"
proof -
  have "\<forall>k \<in> {1..21}. \<exists>j. lookups demo_env j = QMI_NO_ERR"
    by (auto simp: demo_env_def intro: exI [of _ 1])
  moreover have "\<exists>k \<in> {1..21 :: nat}. env_good demo_env"
    by (auto simp: env_good_def demo_env_def)
  ultimately show ?thesis
    using open_terminates [of "\<lambda>_. demo_env" length GNSS_MSM 5 demo_cb 3 77 loc_init]
    by (fastforce simp: demo_cb_def)
qed


subsection \<open>Supported messages\<close>

definition msg_supported :: "supported_msgs_resp \<Rightarrow> u32 \<Rightarrow> bool" where
  "msg_supported r k \<longleftrightarrow>
     unat k div 8 < unat (supported_msgs_len r) \<and> bit (supported_msgs r ! (unat k div 8)) (unat k mod 8)"

lemma reqId_parts: "unat (drop_bit 3 k) = unat k div 8" "unat (k AND 7) = unat k mod 8" for k :: u32
proof -
  show "unat (drop_bit 3 k) = unat k div 8"
    by (simp only: unat_drop_bit_eq) (simp add: drop_bit_eq_div)
  have "(7 :: u32) = mask 3"
    by (simp add: mask_eq_exp_minus_1)
  then have "k AND 7 = take_bit 3 k"
    by (simp add: take_bit_eq_mask)
  then show "unat (k AND 7) = unat k mod 8"
    by (simp only: unsigned_take_bit_eq) (simp add: take_bit_eq_mod)
qed

lemma check_loop_correct:
  assumes "unat (supported_msgs_len r) \<le> length (supported_msgs r)"
    and "\<forall>i \<in> set js. i < length ids \<and> i < 31"
  shows "\<exists>res'. check_loop ids r js res = Some res' \<and>
     (\<forall>i. bit res' i \<longleftrightarrow> bit res i \<or> i \<in> set js \<and> msg_supported r (ids ! i))"
  using assms(2)
proof (induction js arbitrary: res)
  case Nil
  then show ?case
    by simp
next
  case (Cons j js)
  let ?k = "ids ! j"
  have len: "supported_msgs_len r > drop_bit 3 ?k \<longleftrightarrow> unat ?k div 8 < unat (supported_msgs_len r)"
    by (simp add: word_less_nat_alt reqId_parts)
  have bits: "bit (res OR push_bit j (1 :: u64)) i \<longleftrightarrow> bit res i \<or> i = j" for i
    using Cons.prems by (auto simp: bit_simps)
  have "check_loop ids r (j # js) res =
      check_loop ids r js (if msg_supported r ?k then res OR push_bit j 1 else res)"
    using Cons.prems assms(1) by (auto simp: Let_def len reqId_parts msg_supported_def)
  moreover obtain res' where "check_loop ids r js (if msg_supported r ?k then res OR push_bit j 1 else res) = Some res'"
    "\<forall>i. bit res' i \<longleftrightarrow> bit (if msg_supported r ?k then res OR push_bit j 1 else res) i \<or>
       i \<in> set js \<and> msg_supported r (ids ! i)"
    using Cons.IH Cons.prems by (meson list.set_intros(2))
  ultimately show ?case
    using bits by (auto split: if_splits)
qed



text \<open>
  With more requested identifiers than an \<^verbatim>\<open>int\<close> has value bits, a supported message at
  position 31 makes the check shift \<^verbatim>\<open>1\<close> out of the \<^verbatim>\<open>int\<close>: the code has no defined result.
\<close>

theorem support_check_undefined:
  assumes "supported_msgs_valid r" "length ids = 32" "unat (supported_msgs_len r) \<ge> 32"
    and "unat (supported_msgs_len r) \<le> length (supported_msgs r)" "msg_supported r (ids ! 31)"
  shows "checkQmiMsgsSupported ids 32 r = None"
proof -
  have size: "unat (check_loop_size 32 r) = 32"
    using assms(3) by (auto simp: check_loop_size_def Let_def word_less_nat_alt)
  have split: "[0..<32] = [0..<31] @ [31]"
    by (simp add: upt_rec)
  have app: "check_loop ids r (js @ [31]) res = Option.bind (check_loop ids r js res) (check_loop ids r [31])" for js res
    by (induction js arbitrary: res) (simp_all add: Let_def)
  have "check_loop ids r [31] res = None" for res
    using assms by (auto simp: Let_def msg_supported_def word_less_nat_alt reqId_parts)
  then show ?thesis
    using assms(1) by (simp only: checkQmiMsgsSupported_def size split app) (simp split: bind_split)
qed


theorem support_check_undefined_witness:
  "checkQmiMsgsSupported (replicate 32 0) 32
     \<lparr>resp = \<lparr>result_ok = True, error = QMI_ERR 0\<rparr>, supported_msgs_valid = True,
       supported_msgs_len = 32, supported_msgs = replicate 32 1\<rparr> = None"
  by (rule support_check_undefined) (simp_all add: msg_supported_def)

end
