(* ===== verification/Loc_Sync.thy ===== *)
theory Loc_Sync
  imports Loc_Client
begin

text \<open>
  Synchronous requests over the asynchronous location client
  (\<^verbatim>\<open>gps/loc_api/loc_api_v02/loc_api_sync_req.c\<close>): a caller takes one of eight slots, sends its
  request and waits on the slot until the indication handler has copied the answer. Every function
  is cut where it releases a mutex or waits on the slot's condition variable, each part is one
  atomic step, and threads that share the slots are a step relation over these parts. The log
  output and the reading of the configuration file are left out.
\<close>

subsection \<open>Data\<close>

record loc_sync_req_data_s_type =
  client_handle :: ptr
  ind_is_selected :: bool
  ind_is_waiting :: bool
  ind_has_arrived :: bool
  req_id :: u32
  recv_ind_payload_ptr :: ptr
  recv_ind_id :: u32

record loc_sync_req_array_s_type =
  in_use :: bool
  slot_in_use :: "bool list"
  slots :: "loc_sync_req_data_s_type list"

text \<open>
  The state of the module, the buffers of the callers (only what is copied into them matters) and
  the state of the location client below.
\<close>

record sync_mem =
  loc_sync_array :: loc_sync_req_array_s_type
  loc_sync_call_initialized :: bool
  buffers :: "ptr \<Rightarrow> u8 list"
  client :: loc_mem

definition LOC_SYNC_REQ_BUFFER_SIZE :: nat where
  "LOC_SYNC_REQ_BUFFER_SIZE = 8"

definition cleared_slot :: loc_sync_req_data_s_type where
  "cleared_slot = \<lparr>client_handle = LOC_CLIENT_INVALID_HANDLE_VALUE, ind_is_selected = False,
     ind_is_waiting = False, ind_has_arrived = False, req_id = 0, recv_ind_payload_ptr = NULL,
     recv_ind_id = 0\<rparr>"

definition set_array :: "(loc_sync_req_array_s_type \<Rightarrow> loc_sync_req_array_s_type) \<Rightarrow> sync_mem \<Rightarrow> sync_mem" where
  "set_array f s = s\<lparr>loc_sync_array := f (loc_sync_array s)\<rparr>"

definition set_slot :: "nat \<Rightarrow> loc_sync_req_data_s_type \<Rightarrow> sync_mem \<Rightarrow> sync_mem" where
  "set_slot i d = set_array (\<lambda>a. a\<lparr>slots := (slots a)[i := d]\<rparr>)"

abbreviation slot_at :: "sync_mem \<Rightarrow> nat \<Rightarrow> loc_sync_req_data_s_type" where
  "slot_at s i \<equiv> slots (loc_sync_array s) ! i"

abbreviation used :: "sync_mem \<Rightarrow> bool list" where
  "used s \<equiv> slot_in_use (loc_sync_array s)"

definition loc_sync_req_init :: "sync_mem \<Rightarrow> sync_mem" where
  "loc_sync_req_init s =
     (if loc_sync_call_initialized s then s
      else s\<lparr>loc_sync_array := \<lparr>in_use = False, slot_in_use = replicate LOC_SYNC_REQ_BUFFER_SIZE False,
               slots = replicate LOC_SYNC_REQ_BUFFER_SIZE cleared_slot\<rparr>,
             loc_sync_call_initialized := True\<rparr>)"

subsection \<open>The indication handler\<close>

text \<open>
  The handler looks through the slots for one that waits for this indication of this client. The
  loop stops once a payload has been copied. Its results are whether a slot in use was met, the new
  state and the slots whose condition variable was signalled. Copying more bytes than the payload
  has is a fault.
\<close>

definition slot_matches :: "ptr \<Rightarrow> u32 \<Rightarrow> sync_mem \<Rightarrow> nat \<Rightarrow> bool" where
  "slot_matches h ind s i \<longleftrightarrow>
     used s ! i \<and> client_handle (slot_at s i) = h \<and> ind = recv_ind_id (slot_at s i) \<and>
     \<not> ind_has_arrived (slot_at s i)"

definition notify_slot :: "u32 \<Rightarrow> nat \<Rightarrow> sync_mem \<Rightarrow> sync_mem \<times> nat list" where
  "notify_slot ind i s =
     (if ind_is_waiting (slot_at s i) then (set_slot i ((slot_at s i)\<lparr>recv_ind_id := ind\<rparr>) s, [i])
      else (set_slot i ((slot_at s i)\<lparr>ind_has_arrived := True\<rparr>) s, []))"

primrec process_loop ::
  "size_of \<Rightarrow> ptr \<Rightarrow> u32 \<Rightarrow> u8 list option \<Rightarrow> nat list \<Rightarrow> bool \<Rightarrow> sync_mem \<Rightarrow> nat list \<Rightarrow>
   (bool \<times> sync_mem \<times> nat list) option" where
  "process_loop size_of h ind payload [] inuse s sigs = Some (inuse, s, sigs)"
| "process_loop size_of h ind payload (i # js) inuse s sigs =
     (let inuse' = (inuse \<or> used s ! i) in
      if slot_matches h ind s i then
        (case (locClientGetSizeByRespIndId size_of ind (Some 0), payload) of
           ((True, Some n), Some bytes) \<Rightarrow>
             if recv_ind_payload_ptr (slot_at s i) \<noteq> NULL then
               (if length bytes < n then None
                else
                  (let s1 = s\<lparr>buffers := (buffers s)(recv_ind_payload_ptr (slot_at s i) := take n bytes)\<rparr>;
                       (s2, sg) = notify_slot ind i s1
                   in Some (inuse', s2, sigs @ sg)))
             else
               (let (s2, sg) = notify_slot ind i s
                in process_loop size_of h ind payload js inuse' s2 (sigs @ sg))
         | _ \<Rightarrow>
             (let (s2, sg) = notify_slot ind i s
              in process_loop size_of h ind payload js inuse' s2 (sigs @ sg)))
      else process_loop size_of h ind payload js inuse' s sigs)"

definition loc_sync_process_ind ::
  "size_of \<Rightarrow> ptr \<Rightarrow> u32 \<Rightarrow> u8 list option \<Rightarrow> sync_mem \<Rightarrow> (sync_mem \<times> nat list) option" where
  "loc_sync_process_ind size_of h ind payload s =
     (if \<not> in_use (loc_sync_array s) then Some (s, [])
      else do {
        (inuse, s1, sigs) \<leftarrow> process_loop size_of h ind payload [0..<LOC_SYNC_REQ_BUFFER_SIZE] False s [];
        Some (if \<not> inuse then set_array (\<lambda>a. a\<lparr>in_use := False\<rparr>) s1 else s1, sigs) })"

subsection \<open>Slots\<close>

fun alloc_loop :: "nat \<Rightarrow> bool list \<Rightarrow> nat option" where
  "alloc_loop i [] = None"
| "alloc_loop i (b # bs) = (if \<not> b then Some i else alloc_loop (Suc i) bs)"

text \<open>The returned number is \<open>None\<close> for the -1 of the source.\<close>

definition loc_alloc_slot :: "sync_mem \<Rightarrow> nat option \<times> sync_mem" where
  "loc_alloc_slot s =
     (case alloc_loop 0 (used s) of
        None \<Rightarrow> (None, s)
      | Some i \<Rightarrow> (Some i, set_array (\<lambda>a. a\<lparr>slot_in_use := (slot_in_use a)[i := True], in_use := True\<rparr>) s))"

definition loc_free_slot :: "nat \<Rightarrow> sync_mem \<Rightarrow> sync_mem" where
  "loc_free_slot i s =
     (let s1 = set_slot i cleared_slot (set_array (\<lambda>a. a\<lparr>slot_in_use := (slot_in_use a)[i := False]\<rparr>) s)
      in if True \<in> set (used s1) then s1 else set_array (\<lambda>a. a\<lparr>in_use := False\<rparr>) s1)"

text \<open>The second part of \<^verbatim>\<open>loc_sync_select_ind\<close>, under the lock of the slot.\<close>

definition select_slot :: "ptr \<Rightarrow> u32 \<Rightarrow> u32 \<Rightarrow> ptr \<Rightarrow> nat \<Rightarrow> sync_mem \<Rightarrow> sync_mem" where
  "select_slot h ind req buf i =
     set_slot i \<lparr>client_handle = h, ind_is_selected = True, ind_is_waiting = False, ind_has_arrived = False,
                 req_id = req, recv_ind_payload_ptr = buf, recv_ind_id = ind\<rparr>"

definition loc_sync_select_ind :: "ptr \<Rightarrow> u32 \<Rightarrow> u32 \<Rightarrow> ptr \<Rightarrow> sync_mem \<Rightarrow> nat option \<times> sync_mem" where
  "loc_sync_select_ind h ind req buf s =
     (case loc_alloc_slot s of
        (None, s1) \<Rightarrow> (None, s1)
      | (Some i, s1) \<Rightarrow> (Some i, select_slot h ind req buf i s1))"

subsection \<open>Waiting\<close>

text \<open>
  \<^verbatim>\<open>loc_sync_wait_for_ind\<close> either returns at once because the slot number is not valid, or goes on
  to free the slot with a return value, or blocks. The part after the wait gets the return code of
  \<^verbatim>\<open>pthread_cond_timedwait\<close>.
\<close>

abbreviation EINVAL :: int where "EINVAL \<equiv> 22"
abbreviation EBUSY :: int where "EBUSY \<equiv> 16"
abbreviation ETIMEDOUT :: int where "ETIMEDOUT \<equiv> 110"

datatype wait_result = WaitRefused int | WaitOver int | WaitBlocks sync_mem

definition wait_enter :: "nat \<Rightarrow> sync_mem \<Rightarrow> wait_result" where
  "wait_enter i s =
     (if i \<ge> LOC_SYNC_REQ_BUFFER_SIZE \<or> \<not> used s ! i then WaitRefused (- EINVAL)
      else if ind_has_arrived (slot_at s i) then WaitOver 0
      else if ind_is_waiting (slot_at s i) then WaitOver (- EBUSY)
      else WaitBlocks (set_slot i ((slot_at s i)\<lparr>ind_is_waiting := True\<rparr>) s))"

definition wait_leave :: "nat \<Rightarrow> int \<Rightarrow> sync_mem \<Rightarrow> int \<times> sync_mem" where
  "wait_leave i rc s =
     (if rc = ETIMEDOUT then - ETIMEDOUT else 0, set_slot i ((slot_at s i)\<lparr>ind_is_waiting := False\<rparr>) s)"

subsection \<open>A synchronous request\<close>

text \<open>
  Where a thread stands in \<^verbatim>\<open>loc_sync_send_req\<close>: before the allocation, before the slot is filled
  in, before the next send (with the remaining retries), before the wait, blocked, before the slot
  is freed after the wait (with the value the wait returns), before the final free, or done. The
  arguments of the call are kept with it.
\<close>

record sync_args =
  a_handle :: ptr
  a_req :: u32
  a_payload :: ptr
  a_ind :: u32
  a_buf :: ptr

datatype pc =
    PAlloc
  | PFill nat
  | PSend nat nat
  | PWait nat nat
  | PBlocked nat nat
  | PRelease nat nat int
  | PFail nat locClientStatusEnumType
  | PDone locClientStatusEnumType

definition retryable :: "locClientStatusEnumType \<Rightarrow> bool" where
  "retryable st \<longleftrightarrow> st = eLOC_CLIENT_FAILURE_ENGINE_BUSY \<or> st = eLOC_CLIENT_FAILURE_PHONE_OFFLINE \<or>
     st = eLOC_CLIENT_FAILURE_INTERNAL"

text \<open>The condition of the retry loop and what follows it.\<close>

definition after_try :: "nat \<Rightarrow> nat \<Rightarrow> locClientStatusEnumType \<Rightarrow> pc" where
  "after_try i hax st =
     (if retryable st \<and> hax > 0 then PSend i (hax - 1)
      else if st \<noteq> eLOC_CLIENT_SUCCESS then PFail i st
      else PDone eLOC_CLIENT_SUCCESS)"

definition wait_status :: "int \<Rightarrow> locClientStatusEnumType" where
  "wait_status rc =
     (if rc < 0 then (if rc = - ETIMEDOUT then eLOC_CLIENT_FAILURE_TIMEOUT else eLOC_CLIENT_FAILURE_INTERNAL)
      else eLOC_CLIENT_SUCCESS)"

definition after_send :: "nat \<Rightarrow> nat \<Rightarrow> locClientStatusEnumType \<Rightarrow> pc" where
  "after_send i hax st = (if st = eLOC_CLIENT_SUCCESS then PWait i hax else after_try i hax st)"

definition alloc_part :: "sync_mem \<Rightarrow> pc \<times> sync_mem" where
  "alloc_part s =
     (case loc_alloc_slot s of
        (None, s1) \<Rightarrow> (PDone eLOC_CLIENT_SUCCESS, s1)
      | (Some i, s1) \<Rightarrow> (PFill i, s1))"

definition wait_part :: "nat \<Rightarrow> nat \<Rightarrow> sync_mem \<Rightarrow> pc \<times> sync_mem" where
  "wait_part i hax s =
     (case wait_enter i s of
        WaitRefused rc \<Rightarrow> (after_try i hax (wait_status rc), s)
      | WaitOver rc \<Rightarrow> (PRelease i hax rc, s)
      | WaitBlocks s1 \<Rightarrow> (PBlocked i hax, s1))"

definition wake_part :: "nat \<Rightarrow> nat \<Rightarrow> int \<Rightarrow> sync_mem \<Rightarrow> pc \<times> sync_mem" where
  "wake_part i hax rc s = (let (ret, s1) = wait_leave i rc s in (PRelease i hax ret, s1))"

record sync_sys =
  smem :: sync_mem
  pcs :: "nat \<Rightarrow> pc"
  args :: "nat \<Rightarrow> sync_args"

text \<open>
  Threads that share the slots, and the indication handler. A blocked thread may resume at any
  time, with a signal or without one; whether a wait may time out is a parameter of the relation.
\<close>

inductive sync_step :: "size_of \<Rightarrow> bool \<Rightarrow> sync_sys \<Rightarrow> sync_sys \<Rightarrow> bool" for size_of timeouts where
  call: "pcs z t = PDone st \<Longrightarrow>
     sync_step size_of timeouts z (z\<lparr>pcs := (pcs z)(t := PAlloc), args := (args z)(t := a)\<rparr>)"
| alloc: "pcs z t = PAlloc \<Longrightarrow> alloc_part (smem z) = (p, s) \<Longrightarrow>
     sync_step size_of timeouts z (z\<lparr>pcs := (pcs z)(t := p), smem := s\<rparr>)"
| fill: "pcs z t = PFill i \<Longrightarrow>
     s = select_slot (a_handle (args z t)) (a_ind (args z t)) (a_req (args z t)) (a_buf (args z t)) i (smem z) \<Longrightarrow>
     sync_step size_of timeouts z (z\<lparr>pcs := (pcs z)(t := PSend i 5), smem := s\<rparr>)"
| send: "pcs z t = PSend i hax \<Longrightarrow>
     locClientSendReq size_of (a_handle (args z t)) (a_req (args z t)) (a_payload (args z t)) req_mask rc r
       (client (smem z)) = Some (st, c) \<Longrightarrow>
     sync_step size_of timeouts z (z\<lparr>pcs := (pcs z)(t := after_send i hax st), smem := (smem z)\<lparr>client := c\<rparr>\<rparr>)"
| wait: "pcs z t = PWait i hax \<Longrightarrow> wait_part i hax (smem z) = (p, s) \<Longrightarrow>
     sync_step size_of timeouts z (z\<lparr>pcs := (pcs z)(t := p), smem := s\<rparr>)"
| wake: "pcs z t = PBlocked i hax \<Longrightarrow> rc \<noteq> ETIMEDOUT \<or> timeouts \<Longrightarrow> wake_part i hax rc (smem z) = (p, s) \<Longrightarrow>
     sync_step size_of timeouts z (z\<lparr>pcs := (pcs z)(t := p), smem := s\<rparr>)"
| release: "pcs z t = PRelease i hax ret \<Longrightarrow>
     sync_step size_of timeouts z
       (z\<lparr>pcs := (pcs z)(t := after_try i hax (wait_status ret)), smem := loc_free_slot i (smem z)\<rparr>)"
| fail: "pcs z t = PFail i st \<Longrightarrow>
     sync_step size_of timeouts z (z\<lparr>pcs := (pcs z)(t := PDone st), smem := loc_free_slot i (smem z)\<rparr>)"
| indication: "loc_sync_process_ind size_of h ind payload (smem z) = Some (s, sigs) \<Longrightarrow>
     sync_step size_of timeouts z (z\<lparr>smem := s\<rparr>)"

definition sync_start :: "loc_mem \<Rightarrow> sync_sys" where
  "sync_start c = \<lparr>smem = loc_sync_req_init \<lparr>loc_sync_array = \<lparr>in_use = False, slot_in_use = [], slots = []\<rparr>,
       loc_sync_call_initialized = False, buffers = (\<lambda>_. []), client = c\<rparr>,
     pcs = (\<lambda>_. PDone eLOC_CLIENT_SUCCESS), args = (\<lambda>_. \<lparr>a_handle = NULL, a_req = 0, a_payload = NULL, a_ind = 0, a_buf = NULL\<rparr>)\<rparr>"

inductive sync_reach :: "size_of \<Rightarrow> bool \<Rightarrow> sync_sys \<Rightarrow> bool" for size_of timeouts where
  start: "sync_reach size_of timeouts (sync_start c)"
| step: "sync_reach size_of timeouts z \<Longrightarrow> sync_step size_of timeouts z z' \<Longrightarrow> sync_reach size_of timeouts z'"

end
