(* ===== verification/Loc_Sync_Laws.thy ===== *)
theory Loc_Sync_Laws
  imports Loc_Sync Loc_Client_Laws
begin

text \<open>
  Correctness of the synchronous requests: as long as no wait times out, every slot in use belongs
  to exactly one call, from its allocation to its release, and the waits end as the code expects; an
  answer reaches the buffer of the call that waits for it. The ways in which the code departs from
  this are stated as properties too.
\<close>

subsection \<open>Effect of the parts\<close>

named_theorems sync_simps \<open>projections of the updated state\<close>

lemma set_slot_simps [sync_simps]:
  "used (set_slot i d s) = used s"
  "in_use (loc_sync_array (set_slot i d s)) = in_use (loc_sync_array s)"
  "slots (loc_sync_array (set_slot i d s)) = (slots (loc_sync_array s))[i := d]"
  "client (set_slot i d s) = client s"
  "buffers (set_slot i d s) = buffers s"
  by (simp_all add: set_slot_def set_array_def)

lemma alloc_loop_Some: "alloc_loop k bs = Some i \<Longrightarrow> k \<le> i \<and> i < k + length bs \<and> \<not> bs ! (i - k)"
  by (induction k bs rule: alloc_loop.induct) (auto simp: nth_Cons' split: if_splits)

lemma alloc_loop_None: "alloc_loop k bs = None \<longleftrightarrow> False \<notin> set bs"
  by (induction k bs rule: alloc_loop.induct) auto

lemma alloc_effect:
  assumes "loc_alloc_slot s = (Some i, s')"
  shows "i < length (used s)" "\<not> used s ! i" "used s' = (used s)[i := True]"
    "in_use (loc_sync_array s')" "slots (loc_sync_array s') = slots (loc_sync_array s)"
    "buffers s' = buffers s" "client s' = client s"
  using assms alloc_loop_Some [of 0 "used s" i]
  by (auto simp: loc_alloc_slot_def set_array_def split: option.splits)

lemma alloc_full: "loc_alloc_slot s = (None, s') \<longleftrightarrow> s' = s \<and> False \<notin> set (used s)"
  using alloc_loop_None [of 0 "used s"] by (auto simp: loc_alloc_slot_def split: option.splits)

lemma free_effect:
  shows "used (loc_free_slot i s) = (used s)[i := False]"
    "in_use (loc_sync_array (loc_free_slot i s)) \<longleftrightarrow>
       in_use (loc_sync_array s) \<and> True \<in> set ((used s)[i := False])"
    "slots (loc_sync_array (loc_free_slot i s)) = (slots (loc_sync_array s))[i := cleared_slot]"
    "buffers (loc_free_slot i s) = buffers s" "client (loc_free_slot i s) = client s"
  by (simp_all add: loc_free_slot_def set_slot_def set_array_def Let_def)

lemma notify_effect:
  assumes "notify_slot ind i s = (s', sg)" "slot_matches h ind s i"
  shows "used s' = used s" "in_use (loc_sync_array s') = in_use (loc_sync_array s)"
    "client s' = client s" "buffers s' = buffers s"
    "slots (loc_sync_array s') = (if ind_is_waiting (slot_at s i) then slots (loc_sync_array s)
        else (slots (loc_sync_array s))[i := (slot_at s i)\<lparr>ind_has_arrived := True\<rparr>])"
    "sg = (if ind_is_waiting (slot_at s i) then [i] else [])"
proof -
  have "slot_at s i\<lparr>recv_ind_id := ind\<rparr> = slot_at s i"
    using assms(2) by (simp add: slot_matches_def)
  then show "used s' = used s" "in_use (loc_sync_array s') = in_use (loc_sync_array s)"
    "client s' = client s" "buffers s' = buffers s"
    "slots (loc_sync_array s') = (if ind_is_waiting (slot_at s i) then slots (loc_sync_array s)
        else (slots (loc_sync_array s))[i := (slot_at s i)\<lparr>ind_has_arrived := True\<rparr>])"
    "sg = (if ind_is_waiting (slot_at s i) then [i] else [])"
    using assms(1) by (auto simp: notify_slot_def sync_simps list_update_same_conv split: if_splits)
qed

text \<open>What the indication handler can do to the slots: it only marks slots in use as arrived.\<close>

definition marks :: "sync_mem \<Rightarrow> sync_mem \<Rightarrow> bool" where
  "marks s s' \<longleftrightarrow> used s' = used s \<and> client s' = client s \<and>
     length (slots (loc_sync_array s')) = length (slots (loc_sync_array s)) \<and>
     (\<forall>i. slot_at s' i = slot_at s i \<or> used s ! i \<and> slot_at s' i = (slot_at s i)\<lparr>ind_has_arrived := True\<rparr>)"

lemma marks_refl: "marks s s"
  by (simp add: marks_def)

lemma marks_trans:
  assumes "marks s s'" "marks s' s''"
  shows "marks s s''"
proof -
  have "slot_at s'' i = slot_at s i \<or> used s ! i \<and> slot_at s'' i = (slot_at s i)\<lparr>ind_has_arrived := True\<rparr>" for i
  proof -
    have "slot_at s' i = slot_at s i \<or> used s ! i \<and> slot_at s' i = (slot_at s i)\<lparr>ind_has_arrived := True\<rparr>"
      and "slot_at s'' i = slot_at s' i \<or> used s ! i \<and> slot_at s'' i = (slot_at s' i)\<lparr>ind_has_arrived := True\<rparr>"
      using assms unfolding marks_def by metis+
    then show ?thesis
      by auto
  qed
  then show ?thesis
    using assms unfolding marks_def by simp
qed

lemma notify_marks:
  assumes "notify_slot ind i s = (s', sg)" "slot_matches h ind s i"
  shows "marks s s'" "in_use (loc_sync_array s') = in_use (loc_sync_array s)"
proof -
  show "marks s s'"
    unfolding marks_def using notify_effect [OF assms] assms(2)
    by (cases "i < length (slots (loc_sync_array s))") 
       (auto simp: slot_matches_def nth_list_update list_update_beyond)
qed (use notify_effect [OF assms] in simp)

lemma process_loop_effect:
  assumes "process_loop size_of h ind payload js inuse s sigs = Some (inuse', s', sigs')"
  shows "marks s s' \<and> in_use (loc_sync_array s') = in_use (loc_sync_array s) \<and>
    (inuse \<longrightarrow> inuse') \<and> (\<not> inuse' \<longrightarrow> (\<forall>j \<in> set js. \<not> used s ! j))"
  using assms
proof (induction js arbitrary: inuse s sigs)
  case Nil
  then show ?case
    by (simp add: marks_refl)
next
  case (Cons j js)
  show ?case
  proof (cases "slot_matches h ind s j")
    case False
    then show ?thesis
      using Cons.prems Cons.IH by (auto simp: Let_def)
  next
    case hit: True
    then have inu: "used s ! j"
      by (simp add: slot_matches_def)
    obtain s2 sg where nt: "notify_slot ind j s = (s2, sg)"
      by fastforce
    note step = notify_marks [OF nt hit]
    show ?thesis
    proof (cases "process_loop size_of h ind payload js True s2 (sigs @ sg) = Some (inuse', s', sigs')")
      case True
      then show ?thesis
        using Cons.IH [OF True] step marks_trans by auto
    next
      case copied: False
      let ?s1 = "\<lambda>n bytes. s\<lparr>buffers := (buffers s)(recv_ind_payload_ptr (slot_at s j) := take n bytes)\<rparr>"
      obtain n bytes sg' where fin: "inuse'" "notify_slot ind j (?s1 n bytes) = (s', sg')"
        using Cons.prems hit inu nt copied
        by (auto simp: Let_def split: prod.splits bool.splits option.splits if_splits)
      have "slot_matches h ind (?s1 n bytes) j"
        using hit by (simp add: slot_matches_def)
      from notify_marks [OF fin(2) this] show ?thesis
        using fin(1) by (simp add: marks_def)
    qed
  qed
qed

lemma process_ind_effect:
  assumes "loc_sync_process_ind size_of h ind payload s = Some (s', sigs)"
    and "length (used s) = 8" "in_use (loc_sync_array s) \<longleftrightarrow> True \<in> set (used s)"
  shows "marks s s'" "in_use (loc_sync_array s') \<longleftrightarrow> True \<in> set (used s)"
proof -
  have "marks s s' \<and> (in_use (loc_sync_array s') \<longleftrightarrow> True \<in> set (used s))"
  proof (cases "in_use (loc_sync_array s)")
    case False
    then show ?thesis
      using assms by (simp add: loc_sync_process_ind_def marks_refl)
  next
    case True
    then obtain inuse s1 where pl: "process_loop size_of h ind payload [0..<8] False s [] = Some (inuse, s1, sigs)"
      and s': "s' = (if \<not> inuse then set_array (\<lambda>a. a\<lparr>in_use := False\<rparr>) s1 else s1)"
      using assms(1) by (auto simp: loc_sync_process_ind_def LOC_SYNC_REQ_BUFFER_SIZE_def split: bind_splits)
    note eff = process_loop_effect [OF pl]
    obtain j where "j < 8" "used s ! j"
      using True assms(2,3) by (auto simp: in_set_conv_nth)
    then have "inuse"
      using eff by auto
    then show ?thesis
      using eff s' True assms(3) by simp
  qed
  then show "marks s s'" "in_use (loc_sync_array s') \<longleftrightarrow> True \<in> set (used s)"
    by auto
qed


subsection \<open>Ownership of slots\<close>

fun owned :: "pc \<Rightarrow> nat option" where
  "owned PAlloc = None"
| "owned (PFill i) = Some i"
| "owned (PSend i _) = Some i"
| "owned (PWait i _) = Some i"
| "owned (PBlocked i _) = Some i"
| "owned (PRelease i _ _) = Some i"
| "owned (PFail i _) = Some i"
| "owned (PDone _) = None"

definition holds_args :: "sync_args \<Rightarrow> loc_sync_req_data_s_type \<Rightarrow> bool" where
  "holds_args a d \<longleftrightarrow> client_handle d = a_handle a \<and> recv_ind_id d = a_ind a \<and>
     recv_ind_payload_ptr d = a_buf a \<and> req_id d = a_req a"

fun pc_ok :: "sync_args \<Rightarrow> pc \<Rightarrow> (nat \<Rightarrow> loc_sync_req_data_s_type) \<Rightarrow> bool" where
  "pc_ok a (PSend i _) sl \<longleftrightarrow> holds_args a (sl i) \<and> \<not> ind_is_waiting (sl i)"
| "pc_ok a (PWait i _) sl \<longleftrightarrow> holds_args a (sl i) \<and> \<not> ind_is_waiting (sl i)"
| "pc_ok a (PBlocked i _) sl \<longleftrightarrow> holds_args a (sl i) \<and> ind_is_waiting (sl i)"
| "pc_ok a (PRelease i _ ret) sl \<longleftrightarrow> ret = 0"
| "pc_ok a _ sl \<longleftrightarrow> True"

definition array_ok :: "sync_mem \<Rightarrow> bool" where
  "array_ok s \<longleftrightarrow> length (used s) = 8 \<and> length (slots (loc_sync_array s)) = 8 \<and>
     (in_use (loc_sync_array s) \<longleftrightarrow> True \<in> set (used s)) \<and>
     (\<forall>i < 8. \<not> used s ! i \<longrightarrow> slot_at s i = cleared_slot)"

text \<open>Every slot in use has exactly one owner, and only slots in use have one.\<close>

definition own_ok :: "bool list \<Rightarrow> (nat \<Rightarrow> nat option) \<Rightarrow> bool" where
  "own_ok us own \<longleftrightarrow> (\<forall>i. i < 8 \<and> us ! i \<longleftrightarrow> (\<exists>t. own t = Some i)) \<and>
     (\<forall>t u i. own t = Some i \<longrightarrow> own u = Some i \<longrightarrow> t = u)"

definition sync_inv :: "sync_sys \<Rightarrow> bool" where
  "sync_inv z \<longleftrightarrow> array_ok (smem z) \<and> own_ok (used (smem z)) (\<lambda>t. owned (pcs z t)) \<and>
     (\<forall>t. pc_ok (args z t) (pcs z t) (slot_at (smem z)))"

lemma own_ok_alloc:
  assumes ok: "own_ok us own" and none: "own t = None" and i: "i < 8" "length us = 8" "\<not> us ! i"
  shows "own_ok (us[i := True]) (own(t := Some i))"
proof -
  have noone: "own u \<noteq> Some i" for u
    using ok i unfolding own_ok_def by blast
  have "j < 8 \<and> us[i := True] ! j \<longleftrightarrow> (\<exists>u. (own(t := Some i)) u = Some j)" for j
  proof (cases "j = i")
    case True
    then show ?thesis
      using i by auto
  next
    case False
    then have "(\<exists>u. (own(t := Some i)) u = Some j) \<longleftrightarrow> (\<exists>u. own u = Some j)"
      using none by (metis fun_upd_def option.distinct(1) option.inject)
    then show ?thesis
      using False ok i unfolding own_ok_def by simp
  qed
  moreover have "u = v" if "(own(t := Some i)) u = Some j" "(own(t := Some i)) v = Some j" for u v j
    using that noone ok unfolding own_ok_def by (auto split: if_splits)
  ultimately show ?thesis
    unfolding own_ok_def by blast
qed

lemma own_ok_free:
  assumes ok: "own_ok us own" and own: "own t = Some i" and len: "length us = 8"
  shows "own_ok (us[i := False]) (own(t := None))"
proof -
  have i: "i < 8"
    using ok own unfolding own_ok_def by blast
  have only: "u = t" if "own u = Some i" for u
    using ok own that unfolding own_ok_def by blast
  have "j < 8 \<and> us[i := False] ! j \<longleftrightarrow> (\<exists>u. (own(t := None)) u = Some j)" for j
  proof (cases "j = i")
    case True
    then show ?thesis
      using i len only by auto
  next
    case False
    then have "(\<exists>u. (own(t := None)) u = Some j) \<longleftrightarrow> (\<exists>u. own u = Some j)"
      using own by (metis fun_upd_def option.distinct(1) option.inject)
    then show ?thesis
      using False ok len unfolding own_ok_def by simp
  qed
  moreover have "u = v" if "(own(t := None)) u = Some j" "(own(t := None)) v = Some j" for u v j
    using that ok unfolding own_ok_def by (auto split: if_splits)
  ultimately show ?thesis
    unfolding own_ok_def by blast
qed

lemma own_ok_slot: "own_ok us own \<Longrightarrow> own t = Some i \<Longrightarrow> i < 8 \<and> us ! i"
  unfolding own_ok_def by blast

lemma own_ok_other: "own_ok us own \<Longrightarrow> own t = Some i \<Longrightarrow> u \<noteq> t \<Longrightarrow> own u \<noteq> Some i"
  unfolding own_ok_def by blast

lemma owned_upd: "(\<lambda>u. owned (if u = t then p else f u)) = (\<lambda>u. owned (f u))(t := owned p)"
  by auto

lemma pc_ok_local: "(\<And>i. owned p = Some i \<Longrightarrow> sl i = sl' i) \<Longrightarrow> pc_ok a p sl = pc_ok a p sl'"
  by (cases p) auto

lemma sync_inv_start: "sync_inv (sync_start c)"
  by (simp add: sync_inv_def array_ok_def own_ok_def sync_start_def loc_sync_req_init_def
      LOC_SYNC_REQ_BUFFER_SIZE_def)

text \<open>One lemma per way in which a thread changes its slot.\<close>

lemma inv_others:
  assumes inv: "sync_inv z" and own: "owned (pcs z t) = Some i"
    and sl: "\<And>j. j < 8 \<Longrightarrow> j \<noteq> i \<Longrightarrow> slot_at s j = slot_at (smem z) j" and "u \<noteq> t"
  shows "pc_ok (args z u) (pcs z u) (slot_at s)"
proof -
  have "pc_ok (args z u) (pcs z u) (slot_at s) = pc_ok (args z u) (pcs z u) (slot_at (smem z))"
  proof (rule pc_ok_local)
    fix j assume j: "owned (pcs z u) = Some j"
    have "own_ok (used (smem z)) (\<lambda>t. owned (pcs z t))"
      using inv by (simp add: sync_inv_def)
    then have "j < 8" "j \<noteq> i"
      using own_ok_slot [of _ "\<lambda>t. owned (pcs z t)" u j] own_ok_other [of _ "\<lambda>t. owned (pcs z t)" t i u]
        own j \<open>u \<noteq> t\<close> by auto
    then show "slot_at s j = slot_at (smem z) j"
      by (rule sl)
  qed
  then show ?thesis
    using inv by (simp add: sync_inv_def)
qed

lemma inv_keep:
  assumes inv: "sync_inv z" and own: "owned (pcs z t) = Some i" "owned p = Some i"
    and mem: "used s = used (smem z)" "in_use (loc_sync_array s) = in_use (loc_sync_array (smem z))"
      "slots (loc_sync_array s) = (slots (loc_sync_array (smem z)))[i := d]"
    and ok: "pc_ok (args z t) p (\<lambda>_. d)"
  shows "sync_inv (z\<lparr>pcs := (pcs z)(t := p), smem := s\<rparr>)"
proof -
  have i: "i < 8" "used (smem z) ! i" and len: "length (slots (loc_sync_array (smem z))) = 8"
    using inv own own_ok_slot [of _ "\<lambda>t. owned (pcs z t)" t i] by (auto simp: sync_inv_def array_ok_def)
  have "array_ok s"
    using inv mem i by (auto simp: sync_inv_def array_ok_def nth_list_update)
  moreover have "(\<lambda>u. owned (pcs z u))(t := owned p) = (\<lambda>u. owned (pcs z u))"
    using own by auto
  moreover have "pc_ok (args z t) p (slot_at s) = pc_ok (args z t) p (\<lambda>_. d)"
    by (rule pc_ok_local) (use own i len mem(3) in auto)
  moreover have "pc_ok (args z u) (pcs z u) (slot_at s)" if "u \<noteq> t" for u
    by (rule inv_others [OF inv own(1) _ that]) (simp add: mem(3))
  ultimately show ?thesis
    using inv mem(1) ok by (simp add: sync_inv_def owned_upd)
qed

lemma inv_alloc:
  assumes inv: "sync_inv z" and pc: "owned (pcs z t) = None" and al: "loc_alloc_slot (smem z) = (Some i, s)"
  shows "sync_inv (z\<lparr>pcs := (pcs z)(t := PFill i), smem := s\<rparr>)"
proof -
  note eff = alloc_effect [OF al]
  have i: "i < 8" "length (used (smem z)) = 8"
    using eff inv by (auto simp: sync_inv_def array_ok_def)
  then have "True \<in> set ((used (smem z))[i := True])"
    by (metis length_list_update nth_list_update_eq nth_mem)
  then have "array_ok s"
    using inv eff i by (auto simp: sync_inv_def array_ok_def nth_list_update)
  moreover have "own_ok (used s) ((\<lambda>u. owned (pcs z u))(t := Some i))"
    using own_ok_alloc inv pc i eff by (simp add: sync_inv_def)
  ultimately show ?thesis
    using inv eff(5) by (simp add: sync_inv_def owned_upd)
qed

lemma inv_free:
  assumes inv: "sync_inv z" and own: "owned (pcs z t) = Some i" "owned p = None"
    and ok: "\<And>sl. pc_ok (args z t) p sl"
  shows "sync_inv (z\<lparr>pcs := (pcs z)(t := p), smem := loc_free_slot i (smem z)\<rparr>)"
proof -
  have len: "length (used (smem z)) = 8" "length (slots (loc_sync_array (smem z))) = 8" and "i < 8"
    using inv own own_ok_slot [of _ "\<lambda>t. owned (pcs z t)" t i] by (auto simp: sync_inv_def array_ok_def)
  have "set ((used (smem z))[i := False]) \<subseteq> insert False (set (used (smem z)))"
    by (rule set_update_subset_insert)
  then have "array_ok (loc_free_slot i (smem z))"
    using inv \<open>i < 8\<close> by (auto simp: sync_inv_def array_ok_def free_effect nth_list_update)
  moreover have "own_ok ((used (smem z))[i := False]) ((\<lambda>u. owned (pcs z u))(t := None))"
    by (rule own_ok_free) (use inv own len in \<open>simp_all add: sync_inv_def\<close>)
  moreover have "pc_ok (args z u) (pcs z u) (slot_at (loc_free_slot i (smem z)))" if "u \<noteq> t" for u
    by (rule inv_others [OF inv own(1) _ that]) (simp add: free_effect)
  ultimately show ?thesis
    using own ok by (simp add: sync_inv_def owned_upd free_effect)
qed

lemma inv_idle:
  assumes "sync_inv z" "owned (pcs z t) = None" "owned p = None" "\<And>sl. pc_ok b p sl"
  shows "sync_inv (z\<lparr>pcs := (pcs z)(t := p), args := (args z)(t := b)\<rparr>)"
proof -
  have "(\<lambda>u. owned (pcs z u))(t := None) = (\<lambda>u. owned (pcs z u))"
    using assms(2) by auto
  then show ?thesis
    using assms by (simp add: sync_inv_def owned_upd)
qed

lemma inv_marks:
  assumes inv: "sync_inv z" and m: "marks (smem z) s" "in_use (loc_sync_array s) \<longleftrightarrow> True \<in> set (used (smem z))"
  shows "sync_inv (z\<lparr>smem := s\<rparr>)"
proof -
  have "holds_args a (slot_at s i) = holds_args a (slot_at (smem z) i)"
    and "ind_is_waiting (slot_at s i) = ind_is_waiting (slot_at (smem z) i)" for a i
  proof -
    have "slot_at s i = slot_at (smem z) i \<or> slot_at s i = (slot_at (smem z) i)\<lparr>ind_has_arrived := True\<rparr>"
      using m(1) unfolding marks_def by metis
    then show "holds_args a (slot_at s i) = holds_args a (slot_at (smem z) i)"
      and "ind_is_waiting (slot_at s i) = ind_is_waiting (slot_at (smem z) i)"
      by (auto simp: holds_args_def)
  qed
  then have "pc_ok a p (slot_at s) = pc_ok a p (slot_at (smem z))" for a p
    by (cases p) simp_all
  moreover have "array_ok s"
    using inv m unfolding sync_inv_def array_ok_def marks_def by metis
  ultimately show ?thesis
    using inv m(1) unfolding sync_inv_def marks_def by simp
qed


lemma sync_step_inv:
  assumes "sync_step size_of False z z'" "sync_inv z"
  shows "sync_inv z'"
  using assms
proof (induction rule: sync_step.induct)
  case (call z t st a)
  then show ?case
    by (intro inv_idle) simp_all
next
  case (alloc z t p s)
  show ?case
  proof (cases "fst (loc_alloc_slot (smem z))")
    case None
    then have "p = PDone eLOC_CLIENT_SUCCESS" "s = smem z"
      using alloc alloc_full [of "smem z"] by (auto simp: alloc_part_def split: prod.splits option.splits)
    then show ?thesis
      using inv_idle [of z t p "args z t"] alloc by simp
  next
    case (Some i)
    then have "p = PFill i" "loc_alloc_slot (smem z) = (Some i, s)"
      using alloc by (auto simp: alloc_part_def split: prod.splits)
    then show ?thesis
      using inv_alloc alloc by simp
  qed
next
  case (fill z t i s)
  let ?a = "args z t"
  let ?d = "\<lparr>client_handle = a_handle ?a, ind_is_selected = True, ind_is_waiting = False,
      ind_has_arrived = False, req_id = a_req ?a, recv_ind_payload_ptr = a_buf ?a, recv_ind_id = a_ind ?a\<rparr>"
  show ?case
    by (rule inv_keep [where i = i and d = ?d])
       (use fill in \<open>simp_all add: select_slot_def sync_simps holds_args_def\<close>)
next
  case (send z t i hax req_mask rc r st c)
  have "pc_ok (args z t) (after_send i hax st) (\<lambda>_. slot_at (smem z) i) \<and> owned (after_send i hax st) = Some i"
    using send by (auto simp: after_send_def after_try_def sync_inv_def dest!: spec [of _ t])
  then show ?case
    by (intro inv_keep [where i = i and d = "slot_at (smem z) i"]) (use send in simp_all)
next
  case (wait z t i hax p s)
  then have "i < 8 \<and> used (smem z) ! i" "pc_ok (args z t) (PWait i hax) (slot_at (smem z))"
    and "length (slots (loc_sync_array (smem z))) = 8"
    using own_ok_slot [of _ "\<lambda>t. owned (pcs z t)" t i]
    by (auto simp: sync_inv_def array_ok_def dest!: spec [of _ t])
  then show ?case
    using wait
    by (auto simp: wait_part_def wait_enter_def LOC_SYNC_REQ_BUFFER_SIZE_def sync_simps holds_args_def
        intro!: inv_keep [where i = i and d = "slot_at s i"] split: if_splits)
next
  case (wake z t i hax rc p s)
  show ?case
    by (rule inv_keep [where i = i and d = "(slot_at (smem z) i)\<lparr>ind_is_waiting := False\<rparr>"])
       (use wake in \<open>auto simp: wake_part_def wait_leave_def sync_simps\<close>)
next
  case (release z t i hax ret)
  then have "ret = 0"
    by (auto simp: sync_inv_def dest!: spec [of _ t])
  then show ?case
    using release by (intro inv_free) (simp_all add: after_try_def wait_status_def retryable_def)
next
  case (fail z t i st)
  then show ?case
    by (intro inv_free) simp_all
next
  case (indication h ind payload z s sigs)
  have "length (used (smem z)) = 8" "in_use (loc_sync_array (smem z)) \<longleftrightarrow> True \<in> set (used (smem z))"
    using indication(2) by (auto simp: sync_inv_def array_ok_def)
  from process_ind_effect [OF indication(1) this] show ?case
    by (rule inv_marks [OF indication(2)])
qed

lemma sync_reach_inv: "sync_reach size_of False z \<Longrightarrow> sync_inv z"
  by (induction rule: sync_reach.induct) (auto intro: sync_inv_start sync_step_inv)


subsection \<open>Building runs\<close>

text \<open>A request without payload over the open connection of the client laws.\<close>

definition demo_args :: sync_args where
  "demo_args = \<lparr>a_handle = 100, a_req = QMI_LOC_GET_SERVICE_REVISION_REQ_V02, a_payload = NULL,
     a_ind = QMI_LOC_GET_SERVICE_REVISION_IND_V02, a_buf = 60\<rparr>"

definition demo_slot :: loc_sync_req_data_s_type where
  "demo_slot = \<lparr>client_handle = 100, ind_is_selected = True, ind_is_waiting = False, ind_has_arrived = False,
     req_id = QMI_LOC_GET_SERVICE_REVISION_REQ_V02, recv_ind_payload_ptr = 60,
     recv_ind_id = QMI_LOC_GET_SERVICE_REVISION_IND_V02\<rparr>"

lemma demo_start:
  "used (smem (sync_start demo_mem)) = False # replicate 7 False"
  "slots (loc_sync_array (smem (sync_start demo_mem))) = cleared_slot # replicate 7 cleared_slot"
  "pcs (sync_start demo_mem) t = PDone eLOC_CLIENT_SUCCESS"
  "cbs (client (smem (sync_start demo_mem))) = cbs demo_mem"
  by (simp_all add: sync_start_def loc_sync_req_init_def LOC_SYNC_REQ_BUFFER_SIZE_def numeral_eq_Suc)

text \<open>A call that gets slot 0 runs up to its wait.\<close>

lemma run_to_wait:
  assumes z: "sync_reach length b z" "pcs z t = PDone st" "cbs (client (smem z)) = cbs demo_mem"
    and arr: "used (smem z) = False # us" "slots (loc_sync_array (smem z)) = d # ds"
  obtains z' where "sync_reach length b z'" "pcs z' = (pcs z)(t := PWait 0 5)"
    "args z' = (args z)(t := demo_args)" "used (smem z') = True # us"
    "slots (loc_sync_array (smem z')) = demo_slot # ds" "buffers (smem z') = buffers (smem z)"
    "cbs (client (smem z')) = cbs demo_mem"
    "calls (client (smem z')) = calls (client (smem z)) @
       [SendMsgSync 9 QMI_LOC_GET_SERVICE_REVISION_REQ_V02 NULL 0 QMI_NO_ERR]"
proof -
  let ?z1 = "z\<lparr>pcs := (pcs z)(t := PAlloc), args := (args z)(t := demo_args)\<rparr>"
  have r1: "sync_reach length b ?z1"
    by (rule sync_reach.step [OF z(1)], rule sync_step.call) (rule z(2))
  let ?s2 = "set_array (\<lambda>a. a\<lparr>slot_in_use := (slot_in_use a)[0 := True], in_use := True\<rparr>) (smem z)"
  let ?z2 = "?z1\<lparr>pcs := (pcs ?z1)(t := PFill 0), smem := ?s2\<rparr>"
  have r2: "sync_reach length b ?z2"
    by (rule sync_reach.step [OF r1], rule sync_step.alloc)
       (simp_all add: alloc_part_def loc_alloc_slot_def arr)
  let ?s3 = "select_slot 100 QMI_LOC_GET_SERVICE_REVISION_IND_V02 QMI_LOC_GET_SERVICE_REVISION_REQ_V02 60 0 ?s2"
  let ?z3 = "?z2\<lparr>pcs := (pcs ?z2)(t := PSend 0 5), smem := ?s3\<rparr>"
  have r3: "sync_reach length b ?z3"
    by (rule sync_reach.step [OF r2], rule sync_step.fill [where i = 0]) (simp_all add: demo_args_def)
  let ?c = "qcall (SendMsgSync 9 QMI_LOC_GET_SERVICE_REVISION_REQ_V02 NULL 0 QMI_NO_ERR) (client (smem z))"
  let ?z4 = "?z3\<lparr>pcs := (pcs ?z3)(t := after_send 0 5 eLOC_CLIENT_SUCCESS), smem := (smem ?z3)\<lparr>client := ?c\<rparr>\<rparr>"
  have v: "validateRequest length QMI_LOC_GET_SERVICE_REVISION_REQ_V02 NULL NULL 0 = (True, NULL, 0)"
    by (simp add: validateRequest_def request_table_defs validateRequest_no_payload_def)
  have "client (smem ?z3) = client (smem z)"
    by (simp add: select_slot_def set_slot_def set_array_def)
  then have "locClientSendReq length 100 QMI_LOC_GET_SERVICE_REVISION_REQ_V02 NULL Map.empty QMI_NO_ERR
      \<lparr>result_ok = True, error = QMI_ERR 0\<rparr> (client (smem ?z3)) = Some (eLOC_CLIENT_SUCCESS, ?c)"
    using z(3) v
    by (simp add: locClientSendReq_def valid_handle_def demo_mem_def convertQmiResponseToLocStatus_def)
  then have r4: "sync_reach length b ?z4"
    by (intro sync_reach.step [OF r3] sync_step.send [where i = 0 and hax = 5 and req_mask = Map.empty and rc = QMI_NO_ERR and
          r = "\<lparr>result_ok = True, error = QMI_ERR 0\<rparr>"]) (simp_all add: demo_args_def)
  show thesis
    by (rule that [OF r4])
       (simp_all add: after_send_def select_slot_def set_slot_def set_array_def arr demo_slot_def
         z(3) frame_simps qcall_def)
qed

text \<open>A thread at its wait in slot 0 blocks, and resumes with a return code.\<close>

lemma run_wait_and_wake:
  assumes z: "sync_reach length b z" "pcs z t = PWait 0 hax" "rc \<noteq> ETIMEDOUT \<or> b"
    and arr: "used (smem z) = True # us" "slots (loc_sync_array (smem z)) = demo_slot # ds"
  obtains z' where "sync_reach length b z'"
    "pcs z' = (pcs z)(t := PRelease 0 hax (if rc = ETIMEDOUT then - ETIMEDOUT else 0))"
    "args z' = args z" "used (smem z') = True # us" "slots (loc_sync_array (smem z')) = demo_slot # ds"
    "buffers (smem z') = buffers (smem z)" "client (smem z') = client (smem z)"
proof -
  let ?s1 = "set_slot 0 (demo_slot\<lparr>ind_is_waiting := True\<rparr>) (smem z)"
  let ?z1 = "z\<lparr>pcs := (pcs z)(t := PBlocked 0 hax), smem := ?s1\<rparr>"
  have r1: "sync_reach length b ?z1"
    by (rule sync_reach.step [OF z(1)], rule sync_step.wait [where i = 0 and hax = hax])
       (simp_all add: z(2) wait_part_def wait_enter_def arr LOC_SYNC_REQ_BUFFER_SIZE_def demo_slot_def)
  let ?s2 = "set_slot 0 demo_slot ?s1"
  let ?z2 = "?z1\<lparr>pcs := (pcs ?z1)(t := PRelease 0 hax (if rc = ETIMEDOUT then - ETIMEDOUT else 0)), smem := ?s2\<rparr>"
  have "demo_slot\<lparr>ind_is_waiting := False\<rparr> = demo_slot"
    by (simp add: demo_slot_def)
  then have r2: "sync_reach length b ?z2"
    by (intro sync_reach.step [OF r1] sync_step.wake [where i = 0 and hax = hax and rc = rc])
       (use z(3) in \<open>simp_all add: wake_part_def wait_leave_def sync_simps arr\<close>)
  show thesis
    by (rule that [OF r2]) (simp_all add: sync_simps arr)
qed

subsection \<open>Properties\<close>

text \<open>
  C22. As long as no wait times out, the slots are shared safely by any number of threads: two calls
  never hold the same slot, a slot is marked as used exactly while a call holds it, a call that comes
  to its wait finds its slot as it filled it in and is neither refused as invalid nor as busy, and
  when no call is under way all slots are free and cleared.
\<close>

theorem sync_slots_exclusive:
  assumes "sync_reach size_of False z"
  shows "(\<forall>t u i. owned (pcs z t) = Some i \<and> owned (pcs z u) = Some i \<longrightarrow> t = u) \<and>
    (\<forall>i. i < 8 \<and> used (smem z) ! i \<longleftrightarrow> (\<exists>t. owned (pcs z t) = Some i)) \<and>
    (\<forall>t i hax. pcs z t = PWait i hax \<longrightarrow>
       holds_args (args z t) (slot_at (smem z) i) \<and>
       (wait_enter i (smem z) = WaitOver 0 \<or> (\<exists>s. wait_enter i (smem z) = WaitBlocks s))) \<and>
    ((\<forall>t. owned (pcs z t) = None) \<longrightarrow>
       \<not> in_use (loc_sync_array (smem z)) \<and> used (smem z) = replicate 8 False \<and>
       slots (loc_sync_array (smem z)) = replicate 8 cleared_slot)"
proof (intro conjI)
  have inv: "sync_inv z"
    using assms by (rule sync_reach_inv)
  then have own: "own_ok (used (smem z)) (\<lambda>t. owned (pcs z t))" and arr: "array_ok (smem z)"
    by (auto simp: sync_inv_def)
  show "\<forall>t u i. owned (pcs z t) = Some i \<and> owned (pcs z u) = Some i \<longrightarrow> t = u"
    and used: "\<forall>i. i < 8 \<and> used (smem z) ! i \<longleftrightarrow> (\<exists>t. owned (pcs z t) = Some i)"
    using own unfolding own_ok_def by blast+
  show "\<forall>t i hax. pcs z t = PWait i hax \<longrightarrow>
       holds_args (args z t) (slot_at (smem z) i) \<and>
       (wait_enter i (smem z) = WaitOver 0 \<or> (\<exists>s. wait_enter i (smem z) = WaitBlocks s))"
  proof (intro allI impI)
    fix t i hax assume w: "pcs z t = PWait i hax"
    then have "pc_ok (args z t) (PWait i hax) (slot_at (smem z))"
      using inv unfolding sync_inv_def by metis
    moreover have "i < 8 \<and> used (smem z) ! i"
      using own_ok_slot [OF own, of t i] w by simp
    ultimately show "holds_args (args z t) (slot_at (smem z) i) \<and>
       (wait_enter i (smem z) = WaitOver 0 \<or> (\<exists>s. wait_enter i (smem z) = WaitBlocks s))"
      by (simp add: wait_enter_def LOC_SYNC_REQ_BUFFER_SIZE_def)
  qed
  show "(\<forall>t. owned (pcs z t) = None) \<longrightarrow>
       \<not> in_use (loc_sync_array (smem z)) \<and> used (smem z) = replicate 8 False \<and>
       slots (loc_sync_array (smem z)) = replicate 8 cleared_slot"
  proof
    assume "\<forall>t. owned (pcs z t) = None"
    then have free: "\<not> used (smem z) ! i" if "i < 8" for i
      using used that by (metis option.distinct(1))
    then have "used (smem z) = replicate 8 False" "slots (loc_sync_array (smem z)) = replicate 8 cleared_slot"
      using arr by (auto simp: array_ok_def list_eq_iff_nth_eq)
    then show "\<not> in_use (loc_sync_array (smem z)) \<and> used (smem z) = replicate 8 False \<and>
       slots (loc_sync_array (smem z)) = replicate 8 cleared_slot"
      using arr by (simp add: array_ok_def)
  qed
qed

theorem sync_slots_exclusive_witness:
  "\<exists>z :: sync_sys. pcs z 4 = PWait 0 5 \<and> used (smem z) ! 0 \<and> (\<exists>s. wait_enter 0 (smem z) = WaitBlocks s)"
proof -
  obtain z where z: "sync_reach length False z" "pcs z = (pcs (sync_start demo_mem))(4 := PWait 0 5)"
    "args z = (args (sync_start demo_mem))(4 := demo_args)" "used (smem z) = True # replicate 7 False"
    "slots (loc_sync_array (smem z)) = demo_slot # replicate 7 cleared_slot"
    "buffers (smem z) = buffers (smem (sync_start demo_mem))" "cbs (client (smem z)) = cbs demo_mem"
    "calls (client (smem z)) = calls (client (smem (sync_start demo_mem))) @
       [SendMsgSync 9 QMI_LOC_GET_SERVICE_REVISION_REQ_V02 NULL 0 QMI_NO_ERR]"
    by (rule run_to_wait [OF sync_reach.start demo_start(3) demo_start(4) demo_start(1,2)])
  have w: "pcs z 4 = PWait 0 5"
    by (simp add: z(2))
  have "wait_enter 0 (smem z) = WaitOver 0 \<or> (\<exists>s. wait_enter 0 (smem z) = WaitBlocks s)"
    using conjunct1 [OF conjunct2 [OF conjunct2 [OF sync_slots_exclusive [OF z(1)]]]] w by blast
  moreover have "wait_enter 0 (smem z) \<noteq> WaitOver 0" "used (smem z) ! 0"
    by (simp_all add: wait_enter_def z(4,5) demo_slot_def LOC_SYNC_REQ_BUFFER_SIZE_def)
  ultimately show ?thesis
    using w by blast
qed


text \<open>
  A wait that ends without a signal, as condition variables allow, is taken for the arrival of
  the answer: a call can report success although no indication came and its buffer was never written.
\<close>

theorem sync_spurious_success:
  "\<exists>z t. sync_reach length False z \<and> pcs z t = PDone eLOC_CLIENT_SUCCESS \<and> args z t = demo_args \<and>
     buffers (smem z) (a_buf demo_args) = [] \<and>
     SendMsgSync 9 (a_req demo_args) NULL 0 QMI_NO_ERR \<in> set (calls (client (smem z)))"
proof -
  obtain z where z: "sync_reach length False z" "pcs z = (pcs (sync_start demo_mem))(0 := PWait 0 5)"
    "args z = (args (sync_start demo_mem))(0 := demo_args)" "used (smem z) = True # replicate 7 False"
    "slots (loc_sync_array (smem z)) = demo_slot # replicate 7 cleared_slot"
    "buffers (smem z) = buffers (smem (sync_start demo_mem))" "cbs (client (smem z)) = cbs demo_mem"
    "calls (client (smem z)) = calls (client (smem (sync_start demo_mem))) @
       [SendMsgSync 9 QMI_LOC_GET_SERVICE_REVISION_REQ_V02 NULL 0 QMI_NO_ERR]"
    by (rule run_to_wait [OF sync_reach.start demo_start(3) demo_start(4) demo_start(1,2)])
  have w: "pcs z 0 = PWait 0 5" "(0 :: int) \<noteq> ETIMEDOUT \<or> False"
    using z(2) by simp_all
  obtain y where y: "sync_reach length False y"
    "pcs y = (pcs z)(0 := PRelease 0 5 (if 0 = ETIMEDOUT then - ETIMEDOUT else 0))"
    "args y = args z" "used (smem y) = True # replicate 7 False"
    "slots (loc_sync_array (smem y)) = demo_slot # replicate 7 cleared_slot"
    "buffers (smem y) = buffers (smem z)" "client (smem y) = client (smem z)"
    by (rule run_wait_and_wake [OF z(1) w z(4,5)])
  have "sync_step length False y
      (y\<lparr>pcs := (pcs y)(0 := after_try 0 5 (wait_status 0)), smem := loc_free_slot 0 (smem y)\<rparr>)"
    by (rule sync_step.release) (simp add: y(2))
  then have "sync_reach length False
      (y\<lparr>pcs := (pcs y)(0 := after_try 0 5 (wait_status 0)), smem := loc_free_slot 0 (smem y)\<rparr>)" (is "sync_reach _ _ ?x")
    by (rule sync_reach.step [OF y(1)])
  moreover have "pcs ?x 0 = PDone eLOC_CLIENT_SUCCESS" "args ?x 0 = demo_args"
    "buffers (smem ?x) (a_buf demo_args) = []"
    "SendMsgSync 9 (a_req demo_args) NULL 0 QMI_NO_ERR \<in> set (calls (client (smem ?x)))"
    using y(3,6,7) z(3,6,8)
    by (simp_all add: after_try_def wait_status_def retryable_def free_effect demo_args_def sync_start_def
         loc_sync_req_init_def)
  ultimately show ?thesis
    by blast
qed

text \<open>
  C34. A wait that times out frees its slot, and the failing call then frees the slot a second time:
  when another call has taken the slot in between, it loses it while it is still waiting.
\<close>

theorem sync_timeout_frees_foreign_slot:
  "\<exists>z t u i hax. sync_reach length True z \<and> t \<noteq> u \<and> pcs z t = PDone eLOC_CLIENT_FAILURE_TIMEOUT \<and>
     pcs z u = PWait i hax \<and> \<not> used (smem z) ! i \<and> wait_enter i (smem z) = WaitRefused (- EINVAL)"
proof -
  obtain z where z: "sync_reach length True z" "pcs z = (pcs (sync_start demo_mem))(0 := PWait 0 5)"
    "args z = (args (sync_start demo_mem))(0 := demo_args)" "used (smem z) = True # replicate 7 False"
    "slots (loc_sync_array (smem z)) = demo_slot # replicate 7 cleared_slot"
    "buffers (smem z) = buffers (smem (sync_start demo_mem))" "cbs (client (smem z)) = cbs demo_mem"
    "calls (client (smem z)) = calls (client (smem (sync_start demo_mem))) @
       [SendMsgSync 9 QMI_LOC_GET_SERVICE_REVISION_REQ_V02 NULL 0 QMI_NO_ERR]"
    by (rule run_to_wait [OF sync_reach.start demo_start(3) demo_start(4) demo_start(1,2)])
  have w: "pcs z 0 = PWait 0 5" "ETIMEDOUT \<noteq> ETIMEDOUT \<or> True"
    using z(2) by simp_all
  obtain y where y: "sync_reach length True y"
    "pcs y = (pcs z)(0 := PRelease 0 5 (if ETIMEDOUT = ETIMEDOUT then - ETIMEDOUT else 0))"
    "args y = args z" "used (smem y) = True # replicate 7 False"
    "slots (loc_sync_array (smem y)) = demo_slot # replicate 7 cleared_slot"
    "buffers (smem y) = buffers (smem z)" "client (smem y) = client (smem z)"
    by (rule run_wait_and_wake [OF z(1) w z(4,5)])
  let ?x = "y\<lparr>pcs := (pcs y)(0 := after_try 0 5 (wait_status (- ETIMEDOUT))), smem := loc_free_slot 0 (smem y)\<rparr>"
  have x: "sync_reach length True ?x"
    by (rule sync_reach.step [OF y(1)], rule sync_step.release) (simp add: y(2))
  have xs: "pcs ?x 1 = PDone eLOC_CLIENT_SUCCESS" "cbs (client (smem ?x)) = cbs demo_mem"
    "used (smem ?x) = False # replicate 7 False"
    "slots (loc_sync_array (smem ?x)) = cleared_slot # replicate 7 cleared_slot"
    using y z by (simp_all add: free_effect demo_start)
  obtain v where v: "sync_reach length True v" "pcs v = (pcs ?x)(1 := PWait 0 5)"
    "args v = (args ?x)(1 := demo_args)" "used (smem v) = True # replicate 7 False"
    "slots (loc_sync_array (smem v)) = demo_slot # replicate 7 cleared_slot"
    "buffers (smem v) = buffers (smem ?x)" "cbs (client (smem v)) = cbs demo_mem"
    "calls (client (smem v)) = calls (client (smem ?x)) @
       [SendMsgSync 9 QMI_LOC_GET_SERVICE_REVISION_REQ_V02 NULL 0 QMI_NO_ERR]"
    by (rule run_to_wait [OF x xs])
  let ?w = "v\<lparr>pcs := (pcs v)(0 := PDone eLOC_CLIENT_FAILURE_TIMEOUT), smem := loc_free_slot 0 (smem v)\<rparr>"
  have "sync_reach length True ?w"
    by (rule sync_reach.step [OF v(1)], rule sync_step.fail)
       (simp add: v(2) after_try_def wait_status_def retryable_def)
  moreover have "\<not> used (smem ?w) ! 0" "pcs ?w 1 = PWait 0 5"
    using v by (simp_all add: free_effect)
  ultimately show ?thesis
    by (intro exI [of _ ?w] exI [of _ 0] exI [of _ 1] exI [of _ 5])
       (simp add: wait_enter_def)
qed


text \<open>With all slots taken a call ends at once and reports success, though nothing was sent.\<close>

lemma sync_full_reports_success:
  assumes "pcs z t = PAlloc" "False \<notin> set (used (smem z))"
  shows "sync_step size_of b z (z\<lparr>pcs := (pcs z)(t := PDone eLOC_CLIENT_SUCCESS), smem := smem z\<rparr>)"
proof -
  have "loc_alloc_slot (smem z) = (None, smem z)"
    using alloc_full assms(2) by blast
  then show ?thesis
    using assms(1) by (intro sync_step.alloc) (simp_all add: alloc_part_def)
qed

subsection \<open>Delivery\<close>

lemma process_loop_first:
  assumes "\<forall>j \<in> set js1. \<not> slot_matches h ind s j" "slot_matches h ind s i"
    and "locClientGetSizeByRespIndId size_of ind (Some 0) = (True, Some n)" "n \<le> length bytes"
    and "recv_ind_payload_ptr (slot_at s i) \<noteq> NULL"
    and "notify_slot ind i (s\<lparr>buffers := (buffers s)(recv_ind_payload_ptr (slot_at s i) := take n bytes)\<rparr>) = (s2, sg)"
  shows "process_loop size_of h ind (Some bytes) (js1 @ i # js2) inuse s sigs = Some (True, s2, sigs @ sg)"
  using assms(1)
proof (induction js1 arbitrary: inuse)
  case Nil
  have "used s ! i"
    using assms(2) by (simp add: slot_matches_def)
  then show ?case
    using assms(2-) by (simp add: Let_def)
next
  case (Cons j js1)
  then show ?case
    by (simp add: Let_def)
qed

lemma process_ind_first:
  assumes "in_use (loc_sync_array s)" "i < 8"
    and "\<forall>j < 8. slot_matches h ind s j \<longleftrightarrow> j = i"
    and "locClientGetSizeByRespIndId size_of ind (Some 0) = (True, Some n)" "n \<le> length bytes"
    and "recv_ind_payload_ptr (slot_at s i) = buf" "buf \<noteq> NULL"
  shows "loc_sync_process_ind size_of h ind (Some bytes) s =
    Some (notify_slot ind i (s\<lparr>buffers := (buffers s)(buf := take n bytes)\<rparr>))"
proof -
  obtain s2 sg where nt: "notify_slot ind i (s\<lparr>buffers := (buffers s)(buf := take n bytes)\<rparr>) = (s2, sg)"
    by fastforce
  have split: "[0..<LOC_SYNC_REQ_BUFFER_SIZE] = [0..<i] @ i # [Suc i..<8]"
    using assms(2) by (metis LOC_SYNC_REQ_BUFFER_SIZE_def le_add1 less_imp_add_positive less_imp_le upt_add_eq_append upt_conv_Cons zero_le)
  have "process_loop size_of h ind (Some bytes) ([0..<i] @ i # [Suc i..<8]) False s [] = Some (True, s2, [] @ sg)"
    by (rule process_loop_first) (use assms nt in auto)
  then show ?thesis
    using assms(1) nt by (simp add: loc_sync_process_ind_def split)
qed

text \<open>A slot that was free before is free again after it has been used and released.\<close>

lemma free_restores:
  assumes s: "array_ok s" "i < 8" "\<not> used s ! i"
    and x: "used x = (used s)[i := True]" "in_use (loc_sync_array x)"
      "slots (loc_sync_array x) = (slots (loc_sync_array s))[i := c]"
  shows "loc_sync_array (loc_free_slot i x) = loc_sync_array s"
proof -
  have "used (loc_free_slot i x) = used s" "slots (loc_sync_array (loc_free_slot i x)) = slots (loc_sync_array s)"
    using assms by (simp_all add: free_effect array_ok_def list_update_same_conv)
  moreover from this have "in_use (loc_sync_array (loc_free_slot i x)) = in_use (loc_sync_array s)"
    using s(1) x by (simp add: free_effect array_ok_def)
  ultimately show ?thesis
    by simp
qed

text \<open>The handler delivers to a filled slot when no slot waited for the indication before.\<close>

lemma deliver_to_slot:
  assumes s: "array_ok s" "\<forall>j < 8. \<not> slot_matches h ind s j" "i < 8"
    and size: "locClientGetSizeByRespIndId size_of ind (Some 0) = (True, Some n)" "n \<le> length bytes" "buf \<noteq> NULL"
    and x: "used x = (used s)[i := True]" "in_use (loc_sync_array x)"
      "slots (loc_sync_array x) = (slots (loc_sync_array s))[i := c]"
    and c: "client_handle c = h" "recv_ind_id c = ind" "\<not> ind_has_arrived c" "recv_ind_payload_ptr c = buf"
  shows "loc_sync_process_ind size_of h ind (Some bytes) x =
    Some (notify_slot ind i (x\<lparr>buffers := (buffers x)(buf := take n bytes)\<rparr>))"
proof -
  have len: "length (used s) = 8" "length (slots (loc_sync_array s)) = 8"
    using s(1) by (auto simp: array_ok_def)
  have "slot_matches h ind x j \<longleftrightarrow> j = i" if "j < 8" for j
    using s(2,3) that x(1,3) c len by (auto simp: slot_matches_def nth_list_update)
  then show ?thesis
    using s(3) x c len size by (intro process_ind_first) auto
qed

text \<open>
  C23. An answer reaches the call that waits for it: when a slot is free, no other slot waits for the
  same indication of the same client and the response table knows the indication, then selecting a
  slot and handling the indication copies the payload to the caller's buffer. If the indication comes
  before the wait, the wait ends at once; if it comes during the wait, exactly this slot is signalled.
  Either way the slots are afterwards as they were before the call.
\<close>

theorem sync_answer_delivered:
  assumes "array_ok s" "False \<in> set (used s)" "\<forall>j < 8. \<not> slot_matches h (respIndId e) s j"
    and "e \<in> set (locClientRespIndTable size_of)" "respIndSize e \<le> length bytes" "buf \<noteq> NULL"
  shows "\<exists>i s1. loc_sync_select_ind h (respIndId e) req buf s = (Some i, s1) \<and>
     (\<exists>s2. loc_sync_process_ind size_of h (respIndId e) (Some bytes) s1 = Some (s2, []) \<and>
        wait_enter i s2 = WaitOver 0 \<and>
        buffers (loc_free_slot i s2) = (buffers s)(buf := take (respIndSize e) bytes) \<and>
        loc_sync_array (loc_free_slot i s2) = loc_sync_array s) \<and>
     (\<exists>s2 s3 s4. wait_enter i s1 = WaitBlocks s2 \<and>
        loc_sync_process_ind size_of h (respIndId e) (Some bytes) s2 = Some (s3, [i]) \<and>
        wait_leave i 0 s3 = (0, s4) \<and>
        buffers (loc_free_slot i s4) = (buffers s)(buf := take (respIndSize e) bytes) \<and>
        loc_sync_array (loc_free_slot i s4) = loc_sync_array s)"
proof -
  let ?ind = "respIndId e" and ?n = "respIndSize e"
  obtain i s0 where al: "loc_alloc_slot s = (Some i, s0)"
    using alloc_full [of s] assms(2) by (metis option.exhaust prod.exhaust)
  note eff = alloc_effect [OF al]
  have i: "i < 8" "length (used s) = 8" "length (slots (loc_sync_array s)) = 8" "slot_at s i = cleared_slot"
    using eff assms(1) by (auto simp: array_ok_def)
  define d where "d = \<lparr>client_handle = h, ind_is_selected = True, ind_is_waiting = False, ind_has_arrived = False,
    req_id = req, recv_ind_payload_ptr = buf, recv_ind_id = ?ind\<rparr>"
  define s1 where "s1 = set_slot i d s0"
  have sel: "loc_sync_select_ind h ?ind req buf s = (Some i, s1)"
    by (simp add: loc_sync_select_ind_def al select_slot_def s1_def d_def)
  have s1: "used s1 = (used s)[i := True]" "in_use (loc_sync_array s1)"
    "slots (loc_sync_array s1) = (slots (loc_sync_array s))[i := d]" "buffers s1 = buffers s"
    using eff by (simp_all add: s1_def sync_simps)
  have size: "locClientGetSizeByRespIndId size_of ?ind (Some 0) = (True, Some ?n)"
    using resp_lookup_hit [OF assms(4)] .
  note restore = free_restores [OF assms(1) i(1) eff(2)]
  note deliver = deliver_to_slot [OF assms(1,3) i(1) size assms(5,6)]
  let ?s2 = "set_slot i (d\<lparr>ind_has_arrived := True\<rparr>) (s1\<lparr>buffers := (buffers s)(buf := take ?n bytes)\<rparr>)"
  have "loc_sync_process_ind size_of h ?ind (Some bytes) s1 = Some (?s2, [])"
    using deliver [OF s1(1-3)] i s1 by (simp add: d_def notify_slot_def)
  moreover have "wait_enter i ?s2 = WaitOver 0"
    using i s1 by (simp add: wait_enter_def sync_simps LOC_SYNC_REQ_BUFFER_SIZE_def)
  moreover have "loc_sync_array (loc_free_slot i ?s2) = loc_sync_array s"
    by (rule restore [where c = "d\<lparr>ind_has_arrived := True\<rparr>"]) (simp_all add: sync_simps s1)
  moreover let ?b2 = "set_slot i (d\<lparr>ind_is_waiting := True\<rparr>) s1"
  let ?b3 = "set_slot i (d\<lparr>ind_is_waiting := True\<rparr>) (?b2\<lparr>buffers := (buffers s)(buf := take ?n bytes)\<rparr>)"
  let ?b4 = "set_slot i d ?b3"
  have "wait_enter i s1 = WaitBlocks ?b2"
    using i s1 by (simp add: wait_enter_def LOC_SYNC_REQ_BUFFER_SIZE_def d_def)
  moreover have "loc_sync_process_ind size_of h ?ind (Some bytes) ?b2 = Some (?b3, [i])"
    using deliver [of ?b2 "d\<lparr>ind_is_waiting := True\<rparr>"] i s1 by (simp add: d_def notify_slot_def sync_simps)
  moreover have "wait_leave i 0 ?b3 = (0, ?b4)"
    using i s1 by (simp add: wait_leave_def sync_simps d_def)
  moreover have "loc_sync_array (loc_free_slot i ?b4) = loc_sync_array s"
    by (rule restore [where c = d]) (simp_all add: sync_simps s1)
  ultimately show ?thesis
    using sel by (intro exI [of _ i] exI [of _ s1] conjI exI [of _ ?s2] exI [of _ ?b2] exI [of _ ?b3] exI [of _ ?b4])
       (simp_all add: free_effect sync_simps)
qed

theorem sync_answer_delivered_witness:
  "\<exists>i s1 s2. loc_sync_select_ind 100 QMI_LOC_GET_SERVICE_REVISION_IND_V02 QMI_LOC_GET_SERVICE_REVISION_REQ_V02 60
        (smem (sync_start demo_mem)) = (Some i, s1) \<and>
     loc_sync_process_ind length 100 QMI_LOC_GET_SERVICE_REVISION_IND_V02 (Some (replicate 40 7)) s1 = Some (s2, []) \<and>
     wait_enter i s2 = WaitOver 0"
proof -
  let ?e = "\<lparr>respIndId = QMI_LOC_GET_SERVICE_REVISION_IND_V02, respIndSize = 35\<rparr>"
  have e: "?e \<in> set (locClientRespIndTable length)"
    by (simp add: resp_table_defs)
  have start: "smem (sync_start demo_mem) = \<lparr>loc_sync_array = \<lparr>in_use = False, slot_in_use = replicate 8 False,
      slots = replicate 8 cleared_slot\<rparr>, loc_sync_call_initialized = True, buffers = (\<lambda>_. []), client = demo_mem\<rparr>"
    by (simp add: sync_start_def loc_sync_req_init_def LOC_SYNC_REQ_BUFFER_SIZE_def)
  have "array_ok (smem (sync_start demo_mem))" "False \<in> set (used (smem (sync_start demo_mem)))"
    "\<forall>j < 8. \<not> slot_matches 100 (respIndId ?e) (smem (sync_start demo_mem)) j"
    by (simp_all add: start array_ok_def slot_matches_def)
  from sync_answer_delivered [OF this e, of "replicate 40 7" 60] show ?thesis
    by fastforce
qed

end
