(* ===== verification/Dmn_Thread.thy ===== *)
theory Dmn_Thread
  imports Prelude
begin

text \<open>
  The helper thread of the GPS daemon connection
  (\<^verbatim>\<open>gps/loc_api/libloc_api_50001/loc_eng_dmn_conn_thread_helper.c\<close>): a launcher creates the thread
  and waits until its initialisation is over, the thread runs its callbacks until it is told to
  stop, and a join waits for its end. A section under the mutex is one step; so is every access to the
  flags outside it and every callback, whose result is an input of the step. A mutex or condition
  variable that is used while it is not initialised is a fault (\<open>None\<close>).
  The context pointer and the thread id are only handed through and are left out.
\<close>

subsection \<open>The helper's data\<close>

record thelper =
  thread_exit :: u8
  thread_ready :: u8
  cond_live :: bool
  mutex_live :: bool
  has_proc_init :: bool
  has_proc_pre :: bool
  has_proc :: bool
  has_proc_post :: bool

text \<open>The return codes of the initialisers and destructors are inputs.\<close>

definition thelper_signal_init :: "int \<Rightarrow> int \<Rightarrow> thelper \<Rightarrow> int \<times> thelper" where
  "thelper_signal_init cond_rc mutex_rc t =
     (let t1 = t\<lparr>thread_exit := 0, thread_ready := 0\<rparr>
      in if cond_rc \<noteq> 0 then (cond_rc, t1)
         else let t2 = t1\<lparr>cond_live := True\<rparr>
              in if mutex_rc \<noteq> 0 then (mutex_rc, t2\<lparr>cond_live := False\<rparr>)
                 else (0, t2\<lparr>mutex_live := True\<rparr>))"

definition thelper_signal_destroy :: "int \<Rightarrow> int \<Rightarrow> thelper \<Rightarrow> int \<times> thelper" where
  "thelper_signal_destroy cond_rc mutex_rc t =
     (let ret = (if cond_rc \<noteq> 0 then cond_rc else 0);
          t1 = (if cond_rc = 0 then t\<lparr>cond_live := False\<rparr> else t);
          ret' = (if mutex_rc \<noteq> 0 then mutex_rc else ret);
          t2 = (if mutex_rc = 0 then t1\<lparr>mutex_live := False\<rparr> else t1)
      in (ret', t2))"

text \<open>
  The two sections of \<^verbatim>\<open>thelper_signal_wait\<close>, before and after sleeping on the condition variable.
\<close>

datatype wait_result = Sleeps | Returns int

definition wait_leave :: "int \<Rightarrow> thelper \<Rightarrow> int" where
  "wait_leave result t = (if thread_exit t \<noteq> 0 then - 1 else result)"

definition thelper_signal_wait :: "thelper \<Rightarrow> wait_result option" where
  "thelper_signal_wait t =
     (if \<not> mutex_live t then None
      else if thread_ready t = 0 \<and> thread_exit t = 0 then (if cond_live t then Some Sleeps else None)
      else Some (Returns (wait_leave 0 t)))"

definition thelper_signal_ready :: "thelper \<Rightarrow> thelper option" where
  "thelper_signal_ready t = (if mutex_live t \<and> cond_live t then Some (t\<lparr>thread_ready := 1\<rparr>) else None)"

definition thelper_signal_block :: "thelper \<Rightarrow> (u8 \<times> thelper) option" where
  "thelper_signal_block t = (if mutex_live t then Some (thread_ready t, t\<lparr>thread_ready := 0\<rparr>) else None)"

subsection \<open>The thread\<close>

datatype callback = Init int | Pre int | Proc int | Post int

text \<open>Where the thread is: about to do what the constructor says.\<close>

datatype helper_pc =
    H_None | H_Init | H_InitFailed | H_SignalFailed | H_Signal | H_Pre | H_PreFailed
  | H_Proc | H_ProcFailed | H_While | H_Post | H_Done

text \<open>
  A step of \<^verbatim>\<open>thelper_main\<close> with the result of the callback it makes, if it makes one: where it goes on,
  the callbacks made, whether the condition variable is signalled, and the flags.
\<close>

fun thelper_main :: "helper_pc \<Rightarrow> int \<Rightarrow> thelper \<Rightarrow> (helper_pc \<times> callback list \<times> bool \<times> thelper) option" where
  "thelper_main H_Init r t =
     (if has_proc_init t then Some (if r < 0 then H_InitFailed else H_Signal, [Init r], False, t)
      else Some (H_Signal, [], False, t))"
| "thelper_main H_InitFailed r t = Some (H_SignalFailed, [], False, t\<lparr>thread_exit := 1\<rparr>)"
| "thelper_main H_SignalFailed r t = do { t1 \<leftarrow> thelper_signal_ready t; Some (H_Done, [], True, t1) }"
| "thelper_main H_Signal r t = do { t1 \<leftarrow> thelper_signal_ready t; Some (H_Pre, [], True, t1) }"
| "thelper_main H_Pre r t =
     (if has_proc_pre t then Some (if r < 0 then H_PreFailed else H_Proc, [Pre r], False, t)
      else Some (H_Proc, [], False, t))"
| "thelper_main H_PreFailed r t = Some (H_Done, [], False, t\<lparr>thread_exit := 1\<rparr>)"
| "thelper_main H_Proc r t =
     (if has_proc t then Some (if r < 0 then H_ProcFailed else H_While, [Proc r], False, t)
      else Some (H_While, [], False, t))"
| "thelper_main H_ProcFailed r t = Some (H_While, [], False, t\<lparr>thread_exit := 1\<rparr>)"
| "thelper_main H_While r t = Some (if thread_exit t = 0 then H_Proc else H_Post, [], False, t)"
| "thelper_main H_Post r t = Some (H_Done, if has_proc_post t then [Post r] else [], False, t)"
| "thelper_main H_None r t = None"
| "thelper_main H_Done r t = None"

subsection \<open>Launching, stopping and joining\<close>

definition launch_setup :: "int \<Rightarrow> int \<Rightarrow> bool \<times> bool \<times> bool \<times> bool \<Rightarrow> thelper \<Rightarrow> thelper" where
  "launch_setup cond_rc mutex_rc procs t =
     (let (i, p, m, q) = procs; t1 = snd (thelper_signal_init cond_rc mutex_rc t)
      in t1\<lparr>has_proc_init := i, has_proc_pre := p, has_proc := m, has_proc_post := q\<rparr>)"

text \<open>A thread-creating callback reports no failure; \<^verbatim>\<open>pthread_create\<close> reports its return code.\<close>

definition launch_create :: "bool \<Rightarrow> int \<Rightarrow> int" where
  "launch_create create_thread_cb rc = (if create_thread_cb then 0 else rc)"

definition launch_result :: "thelper \<Rightarrow> int" where
  "launch_result t = uint (thread_exit t)"

definition loc_eng_dmn_conn_unblock_thelper :: "thelper \<Rightarrow> int \<times> thelper" where
  "loc_eng_dmn_conn_unblock_thelper t = (0, t\<lparr>thread_exit := 1\<rparr>)"

definition loc_eng_dmn_conn_join_thelper :: "int \<Rightarrow> int \<Rightarrow> int \<Rightarrow> thelper \<Rightarrow> int \<times> thelper" where
  "loc_eng_dmn_conn_join_thelper join_rc cond_rc mutex_rc t =
     (join_rc, snd (thelper_signal_destroy cond_rc mutex_rc t))"

text \<open>Where the launching thread is.\<close>

datatype launcher_pc = L_Create | L_Wait | L_Sleep | L_Woken | L_Result | L_Returned int | L_Joined

record th_sys =
  th :: thelper
  launcher :: launcher_pc
  helper :: helper_pc
  calls :: "callback list"

text \<open>
  The steps after \<open>launch_setup\<close>. The flag says whether the condition variable may wake up without a
  signal, which POSIX allows. Joining succeeds only when the thread has ended.
\<close>

inductive th_step :: "bool \<Rightarrow> bool \<Rightarrow> th_sys \<Rightarrow> th_sys \<Rightarrow> bool" for spurious cb where
  create_ok: "launcher s = L_Create \<Longrightarrow> launch_create cb rc = 0 \<Longrightarrow>
    th_step spurious cb s (s\<lparr>launcher := L_Wait, helper := H_Init\<rparr>)"
| create_fails: "launcher s = L_Create \<Longrightarrow> launch_create cb rc \<noteq> 0 \<Longrightarrow>
    th_step spurious cb s (s\<lparr>launcher := L_Returned (- 1)\<rparr>)"
| wait_sleeps: "launcher s = L_Wait \<Longrightarrow> thelper_signal_wait (th s) = Some Sleeps \<Longrightarrow>
    th_step spurious cb s (s\<lparr>launcher := L_Sleep\<rparr>)"
| wait_returns: "launcher s = L_Wait \<Longrightarrow> thelper_signal_wait (th s) = Some (Returns r) \<Longrightarrow>
    th_step spurious cb s (s\<lparr>launcher := L_Result\<rparr>)"
| wakes_up: "spurious \<Longrightarrow> launcher s = L_Sleep \<Longrightarrow> th_step spurious cb s (s\<lparr>launcher := L_Woken\<rparr>)"
| wait_leaves: "launcher s = L_Woken \<Longrightarrow> th_step spurious cb s (s\<lparr>launcher := L_Result\<rparr>)"
| returns: "launcher s = L_Result \<Longrightarrow>
    th_step spurious cb s (s\<lparr>launcher := L_Returned (launch_result (th s))\<rparr>)"
| helper_runs: "thelper_main (helper s) r (th s) = Some (pc, cs, sig, t) \<Longrightarrow>
    th_step spurious cb s
      (s\<lparr>th := t, helper := pc, calls := calls s @ cs,
         launcher := (if sig \<and> launcher s = L_Sleep then L_Woken else launcher s)\<rparr>)"
| unblock: "loc_eng_dmn_conn_unblock_thelper (th s) = (rc, t) \<Longrightarrow> th_step spurious cb s (s\<lparr>th := t\<rparr>)"
| join: "launcher s = L_Returned r \<Longrightarrow> helper s = H_Done \<Longrightarrow>
    loc_eng_dmn_conn_join_thelper 0 cond_rc mutex_rc (th s) = (0, t) \<Longrightarrow>
    th_step spurious cb s (s\<lparr>th := t, launcher := L_Joined\<rparr>)"

definition th_start :: "bool \<times> bool \<times> bool \<times> bool \<Rightarrow> thelper \<Rightarrow> th_sys" where
  "th_start procs t =
     \<lparr>th = launch_setup 0 0 procs t, launcher = L_Create, helper = H_None, calls = []\<rparr>"

inductive th_reach :: "bool \<Rightarrow> bool \<Rightarrow> th_sys \<Rightarrow> th_sys \<Rightarrow> bool" for spurious cb s0 where
  start: "th_reach spurious cb s0 s0"
| more: "th_reach spurious cb s0 s \<Longrightarrow> th_step spurious cb s s' \<Longrightarrow> th_reach spurious cb s0 s'"

inductive_cases th_stepE: "th_step spurious cb s s'"

subsection \<open>Launching waits for the initialisation\<close>

text \<open>
  The thread has not yet announced itself; the initialisation was called, and failed.
\<close>

definition unsignalled :: "helper_pc \<Rightarrow> bool" where
  "unsignalled pc \<longleftrightarrow> pc \<in> {H_None, H_Init, H_InitFailed, H_SignalFailed, H_Signal}"

fun init_called :: "callback list \<Rightarrow> bool" where
  "init_called [] = False"
| "init_called (Init r # cs) = True"
| "init_called (c # cs) = init_called cs"

fun init_failed :: "callback list \<Rightarrow> bool" where
  "init_failed [] = False"
| "init_failed (Init r # cs) = (r < 0 \<or> init_failed cs)"
| "init_failed (c # cs) = init_failed cs"

lemma init_called_append [simp]: "init_called (cs @ ds) \<longleftrightarrow> init_called cs \<or> init_called ds"
  by (induction cs rule: init_called.induct) auto

lemma init_failed_append [simp]: "init_failed (cs @ ds) \<longleftrightarrow> init_failed cs \<or> init_failed ds"
  by (induction cs rule: init_failed.induct) auto

text \<open>
  What holds of the thread by itself, and of the thread and its launcher. The last part needs that
  nothing but the signal wakes the launcher.
\<close>

definition helper_inv :: "helper_pc \<Rightarrow> callback list \<Rightarrow> thelper \<Rightarrow> bool" where
  "helper_inv pc cs t \<longleftrightarrow>
     (thread_ready t = 0 \<longleftrightarrow> unsignalled pc) \<and>
     (pc = H_SignalFailed \<longrightarrow> thread_exit t \<noteq> 0) \<and>
     (pc \<in> {H_None, H_Init} \<longrightarrow> cs = []) \<and>
     (pc \<notin> {H_None, H_Init} \<longrightarrow> has_proc_init t \<longrightarrow> init_called cs) \<and>
     (init_failed cs \<longrightarrow> pc = H_InitFailed \<or> thread_exit t \<noteq> 0)"

definition th_inv :: "bool \<times> bool \<times> bool \<times> bool \<Rightarrow> th_sys \<Rightarrow> bool" where
  "th_inv procs s \<longleftrightarrow>
     helper_inv (helper s) (calls s) (th s) \<and>
     (has_proc_init (th s), has_proc_pre (th s), has_proc (th s), has_proc_post (th s)) = procs \<and>
     (launcher s \<noteq> L_Joined \<longrightarrow> mutex_live (th s) \<and> cond_live (th s)) \<and>
     (launcher s = L_Joined \<longrightarrow> helper s = H_Done) \<and>
     (launcher s = L_Create \<longrightarrow> helper s = H_None) \<and>
     (launcher s \<in> {L_Wait, L_Sleep, L_Woken, L_Result} \<longrightarrow> helper s \<noteq> H_None)"

definition launcher_inv :: "th_sys \<Rightarrow> bool" where
  "launcher_inv s \<longleftrightarrow>
     (launcher s = L_Sleep \<longrightarrow> unsignalled (helper s)) \<and>
     (launcher s = L_Woken \<longrightarrow> \<not> unsignalled (helper s)) \<and>
     (launcher s = L_Result \<longrightarrow> \<not> unsignalled (helper s) \<or> thread_exit (th s) \<noteq> 0) \<and>
     (launcher s = L_Returned 0 \<longrightarrow> \<not> unsignalled (helper s) \<and> \<not> init_failed (calls s))"

lemmas th_ops = thelper_signal_init_def thelper_signal_destroy_def thelper_signal_wait_def
  thelper_signal_ready_def launch_setup_def loc_eng_dmn_conn_unblock_thelper_def
  loc_eng_dmn_conn_join_thelper_def launch_create_def launch_result_def

lemma helper_inv_main:
  assumes "thelper_main pc r t = Some (pc', cs', sig, t')" "helper_inv pc cs t"
  shows "helper_inv pc' (cs @ cs') t'"
  using assms
  by (cases pc)
    (auto simp: helper_inv_def unsignalled_def thelper_signal_ready_def bind_eq_Some_conv split: if_splits)

text \<open>What a step of the thread leaves alone, and when it signals.\<close>

lemma main_frame:
  assumes "thelper_main pc r t = Some (pc', cs', sig, t')"
  shows "has_proc_init t' = has_proc_init t" "has_proc_pre t' = has_proc_pre t"
    "has_proc t' = has_proc t" "has_proc_post t' = has_proc_post t"
    "mutex_live t' = mutex_live t" "cond_live t' = cond_live t"
    "pc \<noteq> H_None" "pc \<noteq> H_Done" "pc' \<noteq> H_None"
    "sig \<longleftrightarrow> unsignalled pc \<and> \<not> unsignalled pc'" "\<not> unsignalled pc \<Longrightarrow> \<not> unsignalled pc'"
    "thread_exit t \<noteq> 0 \<Longrightarrow> thread_exit t' \<noteq> 0" "\<not> unsignalled pc \<Longrightarrow> \<not> init_failed cs'"
  using assms
  by (cases pc; auto simp: unsignalled_def thelper_signal_ready_def bind_eq_Some_conv split: if_splits)+

lemma th_inv_start: "th_inv procs (th_start procs t)"
  by (cases procs) (auto simp: th_inv_def helper_inv_def th_start_def th_ops unsignalled_def Let_def)

lemma th_inv_step: "th_step spurious cb s s' \<Longrightarrow> th_inv procs s \<Longrightarrow> th_inv procs s'"
proof (induction rule: th_step.induct)
  case (helper_runs s r pc cs sig t)
  note frame = main_frame(1-9) [OF helper_runs.hyps]
  from helper_runs.prems have "launcher s \<noteq> L_Joined"
    using frame(8) by (auto simp: th_inv_def)
  with helper_runs.prems helper_inv_main [OF helper_runs.hyps] show ?case
    by (simp add: th_inv_def frame)
qed (auto simp: th_inv_def helper_inv_def unsignalled_def th_ops Let_def split: if_splits)

lemma launcher_inv_step:
  "th_step False cb s s' \<Longrightarrow> th_inv procs s \<Longrightarrow> launcher_inv s \<Longrightarrow> launcher_inv s'"
proof (induction rule: th_step.induct)
  case (helper_runs s r pc cs sig t)
  then show ?case
    using main_frame(10-13) [OF helper_runs.hyps] by (auto simp: launcher_inv_def)
next
  case (returns s)
  have "\<not> unsignalled (helper s) \<and> \<not> init_failed (calls s)" if "thread_exit (th s) = 0"
  proof -
    have "\<not> unsignalled (helper s)"
      using returns that by (simp add: launcher_inv_def)
    moreover from this have "helper s \<noteq> H_InitFailed"
      by (auto simp: unsignalled_def)
    ultimately show ?thesis
      using returns.prems(1) that by (simp add: th_inv_def helper_inv_def)
  qed
  then show ?case
    by (simp add: launcher_inv_def launch_result_def uint_0_iff)
next
  case (wait_sleeps s)
  then show ?case
    by (auto simp: th_inv_def helper_inv_def launcher_inv_def thelper_signal_wait_def split: if_splits)
next
  case (wait_returns s r)
  then show ?case
    by (auto simp: th_inv_def helper_inv_def launcher_inv_def thelper_signal_wait_def split: if_splits)
qed (simp_all add: launcher_inv_def th_ops)

lemma th_reach_inv:
  assumes "th_reach spurious cb (th_start procs t) s"
  shows "th_inv procs s"
  using assms by (induction rule: th_reach.induct) (auto simp: th_inv_start intro: th_inv_step)

lemma th_reach_launcher_inv:
  assumes "th_reach False cb (th_start procs t) s"
  shows "launcher_inv s"
  using assms
proof (induction rule: th_reach.induct)
  case start
  show ?case
    by (simp add: launcher_inv_def th_start_def)
next
  case (more s s')
  then show ?case
    using launcher_inv_step th_reach_inv by blast
qed

lemma main_no_fault:
  assumes "mutex_live t" "cond_live t" "pc \<noteq> H_None" "pc \<noteq> H_Done"
  shows "thelper_main pc r t \<noteq> None"
  using assms by (cases pc) (auto simp: thelper_signal_ready_def)


text \<open>A run of the thread alone, for executing it on the results of its callbacks.\<close>

fun thelper_run :: "int list \<Rightarrow> helper_pc \<Rightarrow> thelper \<Rightarrow> (helper_pc \<times> callback list \<times> thelper) option" where
  "thelper_run [] pc t = Some (pc, [], t)"
| "thelper_run (r # rs) pc t =
     (if pc = H_Done then Some (pc, [], t)
      else do {
        (pc1, cs, sig, t1) \<leftarrow> thelper_main pc r t;
        (pc2, ds, t2) \<leftarrow> thelper_run rs pc1 t1;
        Some (pc2, cs @ ds, t2) })"

abbreviation idle_thelper :: thelper where
  "idle_thelper \<equiv>
     \<lparr>thread_exit = 0, thread_ready = 0, cond_live = False, mutex_live = False, has_proc_init = False,
      has_proc_pre = False, has_proc = False, has_proc_post = False\<rparr>"

abbreviation all_procs :: "bool \<times> bool \<times> bool \<times> bool" where
  "all_procs \<equiv> (True, True, True, True)"

text \<open>A launch in which the launcher sleeps until the thread has initialised itself.\<close>

lemma launch_demo:
  "th_reach False False (th_start all_procs idle_thelper)
     \<lparr>th = (launch_setup 0 0 all_procs idle_thelper)\<lparr>thread_ready := 1\<rparr>, launcher = L_Returned 0,
      helper = H_Pre, calls = [Init 0]\<rparr>"
proof -
  define t0 where "t0 = launch_setup 0 0 all_procs idle_thelper"
  have t0: "thread_exit t0 = 0" "thread_ready t0 = 0" "mutex_live t0" "cond_live t0" "has_proc_init t0"
    by (simp_all add: t0_def th_ops)
  let ?s = "\<lambda>t l h c. \<lparr>th = t, launcher = l, helper = h, calls = c\<rparr>"
  let ?R = "th_reach False False (th_start all_procs idle_thelper)"
  have "?R (?s t0 L_Create H_None [])"
    using th_reach.start [of False False "th_start all_procs idle_thelper"] by (simp add: th_start_def t0_def)
  from th_reach.more [OF this create_ok [where rc = 0]] have "?R (?s t0 L_Wait H_Init [])"
    by (simp add: launch_create_def)
  from th_reach.more [OF this wait_sleeps] have "?R (?s t0 L_Sleep H_Init [])"
    by (simp add: thelper_signal_wait_def t0)
  from th_reach.more [OF this helper_runs [where r = 0 and sig = False]] have "?R (?s t0 L_Sleep H_Signal [Init 0])"
    by (simp add: t0)
  from th_reach.more [OF this helper_runs [where r = 0 and sig = True]]
  have "?R (?s (t0\<lparr>thread_ready := 1\<rparr>) L_Woken H_Pre [Init 0])"
    by (simp add: t0 thelper_signal_ready_def)
  from th_reach.more [OF this wait_leaves] have "?R (?s (t0\<lparr>thread_ready := 1\<rparr>) L_Result H_Pre [Init 0])"
    by simp
  from th_reach.more [OF this returns] show ?thesis
    by (simp add: launch_result_def t0 t0_def [symmetric])
qed


text \<open>With a wake-up that has no cause, a launch reports success before the thread has done anything.\<close>

lemma launch_spurious_success:
  "\<exists>s :: th_sys. th_reach True False (th_start all_procs idle_thelper) s \<and> launcher s = L_Returned 0 \<and> calls s = []"
proof -
  define t0 where "t0 = launch_setup 0 0 all_procs idle_thelper"
  have t0: "thread_exit t0 = 0" "thread_ready t0 = 0" "mutex_live t0" "cond_live t0"
    by (simp_all add: t0_def th_ops)
  let ?s = "\<lambda>l h. \<lparr>th = t0, launcher = l, helper = h, calls = []\<rparr>"
  let ?R = "th_reach True False (th_start all_procs idle_thelper)"
  have "?R (?s L_Create H_None)"
    using th_reach.start [of True False "th_start all_procs idle_thelper"] by (simp add: th_start_def t0_def)
  from th_reach.more [OF this create_ok [where rc = 0]] have "?R (?s L_Wait H_Init)"
    by (simp add: launch_create_def)
  from th_reach.more [OF this wait_sleeps] have "?R (?s L_Sleep H_Init)"
    by (simp add: thelper_signal_wait_def t0)
  from th_reach.more [OF this wakes_up] have "?R (?s L_Woken H_Init)"
    by simp
  from th_reach.more [OF this wait_leaves] have "?R (?s L_Result H_Init)"
    by simp
  from th_reach.more [OF this returns] have "?R (?s (L_Returned 0) H_Init)"
    by (simp add: launch_result_def t0)
  then show ?thesis
    by (intro exI conjI) auto
qed

subsection \<open>The callbacks\<close>

text \<open>
  The callbacks a thread with all four callbacks has made when it stands at a place: a failed
  callback ends its phase, the task is called at least once before the loop is left, and it is
  never called again after a failure.
\<close>

definition task_calls :: "(int list \<Rightarrow> bool) \<Rightarrow> callback list \<Rightarrow> callback list \<Rightarrow> bool" where
  "task_calls P post cs \<longleftrightarrow>
     (\<exists>i p ps. cs = Init i # Pre p # map Proc ps @ post \<and> 0 \<le> i \<and> 0 \<le> p \<and> P ps)"

definition tasks_until_failure :: "int list \<Rightarrow> bool" where
  "tasks_until_failure ps \<longleftrightarrow> ps \<noteq> [] \<and> (\<forall>x \<in> set (butlast ps). 0 \<le> x)"

definition finished_calls :: "callback list \<Rightarrow> bool" where
  "finished_calls cs \<longleftrightarrow>
     (\<exists>i < 0. cs = [Init i]) \<or> (\<exists>i \<ge> 0. \<exists>p < 0. cs = [Init i, Pre p]) \<or>
     (\<exists>q. task_calls tasks_until_failure [Post q] cs)"

fun calls_at :: "helper_pc \<Rightarrow> u8 \<Rightarrow> callback list \<Rightarrow> bool" where
  "calls_at H_None e cs \<longleftrightarrow> cs = []"
| "calls_at H_Init e cs \<longleftrightarrow> cs = []"
| "calls_at H_InitFailed e cs \<longleftrightarrow> (\<exists>i < 0. cs = [Init i])"
| "calls_at H_SignalFailed e cs \<longleftrightarrow> (\<exists>i < 0. cs = [Init i])"
| "calls_at H_Signal e cs \<longleftrightarrow> (\<exists>i \<ge> 0. cs = [Init i])"
| "calls_at H_Pre e cs \<longleftrightarrow> (\<exists>i \<ge> 0. cs = [Init i])"
| "calls_at H_PreFailed e cs \<longleftrightarrow> (\<exists>i \<ge> 0. \<exists>p < 0. cs = [Init i, Pre p])"
| "calls_at H_Proc e cs \<longleftrightarrow> task_calls (\<lambda>ps. \<forall>x \<in> set ps. 0 \<le> x) [] cs"
| "calls_at H_ProcFailed e cs \<longleftrightarrow> task_calls tasks_until_failure [] cs"
| "calls_at H_While e cs \<longleftrightarrow>
     task_calls (\<lambda>ps. tasks_until_failure ps \<and> (e = 0 \<longrightarrow> 0 \<le> last ps)) [] cs"
| "calls_at H_Post e cs \<longleftrightarrow> task_calls tasks_until_failure [] cs"
| "calls_at H_Done e cs \<longleftrightarrow> finished_calls cs"

lemma task_calls_mono:
  "task_calls P post cs \<Longrightarrow> (\<And>ps. P ps \<Longrightarrow> Q ps) \<Longrightarrow> task_calls Q post cs"
  unfolding task_calls_def by blast

lemma task_calls_more:
  "task_calls (\<lambda>ps. \<forall>x \<in> set ps. 0 \<le> x) [] cs \<Longrightarrow>
    task_calls (\<lambda>ps. tasks_until_failure ps \<and> last ps = r) [] (cs @ [Proc r])"
proof -
  assume "task_calls (\<lambda>ps. \<forall>x \<in> set ps. 0 \<le> x) [] cs"
  then obtain i p ps where "cs = Init i # Pre p # map Proc ps" "0 \<le> i" "0 \<le> p" "\<forall>x \<in> set ps. 0 \<le> x"
    by (auto simp: task_calls_def)
  then have "cs @ [Proc r] = Init i # Pre p # map Proc (ps @ [r]) @ []" "tasks_until_failure (ps @ [r])"
    by (auto simp: tasks_until_failure_def)
  with \<open>0 \<le> i\<close> \<open>0 \<le> p\<close> show ?thesis
    unfolding task_calls_def by (intro exI [where x = i] exI [where x = p] exI [where x = "ps @ [r]"]) simp
qed

lemma task_calls_post: "task_calls P [] cs \<Longrightarrow> task_calls P [c] (cs @ [c])"
  by (auto simp: task_calls_def)

lemma all_tasks_fine:
  assumes "tasks_until_failure ps" "0 \<le> last ps" shows "\<forall>x \<in> set ps. 0 \<le> x"
proof -
  have "set ps = insert (last ps) (set (butlast ps))"
    using assms(1) append_butlast_last_id [of ps] unfolding tasks_until_failure_def
    by (metis list.simps(15) rotate1.simps(2) set_rotate1 snoc_eq_iff_butlast)
  then show ?thesis
    using assms by (auto simp: tasks_until_failure_def)
qed

lemma calls_at_main:
  assumes "thelper_main pc r t = Some (pc', cs', sig, t')" "calls_at pc (thread_exit t) cs"
    "has_proc_init t" "has_proc_pre t" "has_proc t" "has_proc_post t"
  shows "calls_at pc' (thread_exit t') (cs @ cs')"
proof (cases pc)
  case H_Proc
  then have m: "task_calls (\<lambda>ps. tasks_until_failure ps \<and> last ps = r) [] (cs @ [Proc r])"
    using assms(2) by (intro task_calls_more) simp
  show ?thesis
    using assms H_Proc task_calls_mono [OF m, of tasks_until_failure]
      task_calls_mono [OF m, of "\<lambda>ps. tasks_until_failure ps \<and> (thread_exit t' = 0 \<longrightarrow> 0 \<le> last ps)"]
    by (auto split: if_splits)
next
  case H_ProcFailed
  with assms show ?thesis
    by (auto intro: task_calls_mono)
next
  case H_While
  with assms show ?thesis
    by (auto intro: task_calls_mono dest: all_tasks_fine split: if_splits)
next
  case H_Post
  with assms show ?thesis
    by (auto simp: finished_calls_def intro: task_calls_post)
next
  case H_Pre
  with assms show ?thesis
    by (auto simp: task_calls_def)
qed (use assms in \<open>auto simp: finished_calls_def bind_eq_Some_conv thelper_signal_ready_def split: if_splits\<close>)

lemma th_reach_calls:
  assumes "th_reach spurious cb (th_start all_procs t) s"
  shows "calls_at (helper s) (thread_exit (th s)) (calls s)"
  using assms
proof (induction rule: th_reach.induct)
  case start
  show ?case
    by (simp add: th_start_def)
next
  case (more s s')
  note inv = th_reach_inv [OF more.hyps(1)]
  from more.hyps(2) more.IH inv show ?case
  proof (induction rule: th_step.induct)
    case (helper_runs s r pc cs sig t)
    then show ?case
      using calls_at_main [OF helper_runs.hyps] by (simp add: th_inv_def)
  next
    case (unblock s rc t)
    then show ?case
      by (cases "helper s") (auto simp: loc_eng_dmn_conn_unblock_thelper_def intro: task_calls_mono)
  qed (auto simp: th_inv_def th_ops Let_def)
qed

text \<open>How far the thread is from its end once it has been told to stop.\<close>

fun steps_left :: "helper_pc \<Rightarrow> nat" where
  "steps_left H_Done = 0"
| "steps_left H_Post = 1"
| "steps_left H_While = 2"
| "steps_left H_ProcFailed = 3"
| "steps_left H_Proc = 4"
| "steps_left H_PreFailed = 1"
| "steps_left H_Pre = 5"
| "steps_left H_Signal = 6"
| "steps_left H_SignalFailed = 1"
| "steps_left H_InitFailed = 2"
| "steps_left H_Init = 7"
| "steps_left H_None = 8"

lemma main_steps_left:
  assumes "thelper_main pc r t = Some (pc', cs, sig, t')" "thread_exit t \<noteq> 0"
  shows "steps_left pc' < steps_left pc"
  using assms by (cases pc) (auto simp: bind_eq_Some_conv split: if_splits)

lemma thelper_run_ends:
  assumes "thread_exit t \<noteq> 0" "mutex_live t" "cond_live t" "pc \<noteq> H_None" "steps_left pc \<le> length rs"
  shows "\<exists>cs t'. thelper_run rs pc t = Some (H_Done, cs, t')"
  using assms
proof (induction rs arbitrary: pc t)
  case Nil
  then show ?case
    by (cases pc) simp_all
next
  case (Cons r rs)
  show ?case
  proof (cases "pc = H_Done")
    case False
    then obtain pc1 cs sig t1 where m: "thelper_main pc r t = Some (pc1, cs, sig, t1)"
      using main_no_fault [of t pc r] Cons.prems by auto
    have "\<exists>ds t'. thelper_run rs pc1 t1 = Some (H_Done, ds, t')"
      using Cons.prems main_frame [OF m] main_steps_left [OF m] by (intro Cons.IH) auto
    then show ?thesis
      using m False by auto
  qed simp
qed



end
