(* ===== verification/Dmn_Conn.thy ===== *)
theory Dmn_Conn
  imports Dmn_Thread
begin

text \<open>
  The connection of the GPS engine to the gpsOne daemon (\<^verbatim>\<open>gps/loc_api/libloc_api_50001\<close>): messages
  with a length header over named pipes (\<^verbatim>\<open>loc_eng_dmn_conn_glue_pipe.c\<close>,
  \<^verbatim>\<open>loc_eng_dmn_conn_glue_msg.c\<close>), the requests the server takes from them
  (\<^verbatim>\<open>loc_eng_dmn_conn_handler.cpp\<close>) and the callbacks of its thread (\<^verbatim>\<open>loc_eng_dmn_conn.cpp\<close>).

  The target is 32-bit ARM: \<^verbatim>\<open>size_t\<close>, \<^verbatim>\<open>unsigned long\<close> and enumerations have four bytes, and a message
  is the byte image of \<^verbatim>\<open>struct ctrl_msgbuf\<close>. The kernel's answer to a read or write is a function of
  the requested size: \<open>None\<close> is an error, \<open>Some k\<close> transfers up to \<open>k\<close> bytes. An access outside a buffer
  is a fault.
\<close>

subsection \<open>State\<close>

datatype loc_if_req_sender_id_e_type =
    SENDER_ID_QUIPC | SENDER_ID_MSAPM | SENDER_ID_MSAPU | SENDER_ID_GPSONE_DAEMON
  | SENDER_ID_MODEM | SENDER_ID_UNKNOWN

text \<open>The messages handed to the engine: the handle, the AGPS type, the parameters, request or release.\<close>

datatype eng_msg =
    LocEngReqRelWifi ptr int loc_if_req_sender_id_e_type "u8 list" "u8 list" bool
  | LocEngReqRelBIT ptr int u32 "u8 list" bool

record dmn_mem =
  fifo :: "int \<Rightarrow> u8 list"
  fifo_names :: "string set"
  open_fds :: "int set"
  loc_api_server_msgqid :: int
  loc_api_resp_msgqid :: int
  quipc_msgqid :: int
  msapm_msgqid :: int
  msapu_msgqid :: int
  global_loc_api_q_path :: string
  global_loc_api_resp_q_path :: string
  loc_api_handle :: ptr
  sent :: "eng_msg list"

type_synonym io = "u32 \<Rightarrow> nat option"

subsection \<open>Pipes\<close>

datatype mkfifo_ans = Made | Exists | Refused

record dmn_fs =
  mkfifo :: "string \<Rightarrow> mkfifo_ans"
  open_pipe :: "string \<Rightarrow> int \<Rightarrow> int"

text \<open>Failures to change the mode and to open are only logged.\<close>

definition loc_eng_dmn_conn_glue_pipeget :: "dmn_fs \<Rightarrow> string \<Rightarrow> int \<Rightarrow> dmn_mem \<Rightarrow> int \<times> dmn_mem" where
  "loc_eng_dmn_conn_glue_pipeget e pipe_name mode w =
     (if mkfifo e pipe_name = Refused then (- 1, w)
      else (let fd = open_pipe e pipe_name mode
            in (fd, w\<lparr>fifo_names := insert pipe_name (fifo_names w),
                      open_fds := (if fd < 0 then open_fds w else insert fd (open_fds w))\<rparr>)))"

definition loc_eng_dmn_conn_glue_piperemove :: "string option \<Rightarrow> int \<Rightarrow> dmn_mem \<Rightarrow> int \<times> dmn_mem" where
  "loc_eng_dmn_conn_glue_piperemove pipe_name fd w =
     (let w1 = w\<lparr>open_fds := open_fds w - {fd}\<rparr>
      in (0, case pipe_name of None \<Rightarrow> w1 | Some n \<Rightarrow> w1\<lparr>fifo_names := fifo_names w1 - {n}\<rparr>))"

definition put_bytes :: "nat \<Rightarrow> u8 list \<Rightarrow> u8 list \<Rightarrow> u8 list" where
  "put_bytes off bs buf = take off buf @ bs @ drop (off + length bs) buf"

definition get32 :: "nat \<Rightarrow> u8 list \<Rightarrow> u32" where
  "get32 off buf = of_le32 (take 4 (drop off buf))"

definition loc_eng_dmn_conn_glue_pipewrite ::
    "io \<Rightarrow> int \<Rightarrow> u8 list \<Rightarrow> u32 \<Rightarrow> dmn_mem \<Rightarrow> (int \<times> dmn_mem) option" where
  "loc_eng_dmn_conn_glue_pipewrite io fd buf sz w =
     (case io sz of
        None \<Rightarrow> Some (- 1, w)
      | Some k \<Rightarrow>
          (let n = min k (unat sz)
           in if length buf < n then None
              else Some (int n, w\<lparr>fifo := (fifo w)(fd := fifo w fd @ take n buf)\<rparr>)))"

text \<open>The bytes go to the given offset of the buffer.\<close>

definition loc_eng_dmn_conn_glue_piperead ::
    "io \<Rightarrow> int \<Rightarrow> nat \<Rightarrow> u8 list \<Rightarrow> u32 \<Rightarrow> dmn_mem \<Rightarrow> (int \<times> u8 list \<times> dmn_mem) option" where
  "loc_eng_dmn_conn_glue_piperead io fd off buf sz w =
     (case io sz of
        None \<Rightarrow> Some (- 1, buf, w)
      | Some k \<Rightarrow>
          (let n = min k (min (unat sz) (length (fifo w fd)))
           in if length buf < off + n then None
              else Some (int n, put_bytes off (take n (fifo w fd)) buf,
                         w\<lparr>fifo := (fifo w)(fd := drop n (fifo w fd))\<rparr>)))"

text \<open>Releasing a record lock the process does not hold: only the answer of \<^verbatim>\<open>fcntl\<close> comes back.\<close>

definition loc_eng_dmn_conn_glue_pipeunblock :: "int \<Rightarrow> dmn_mem \<Rightarrow> int \<times> dmn_mem" where
  "loc_eng_dmn_conn_glue_pipeunblock fcntl_rc w = (fcntl_rc, w)"

subsection \<open>Messages\<close>

definition loc_eng_dmn_conn_glue_msgget :: "dmn_fs \<Rightarrow> string \<Rightarrow> int \<Rightarrow> dmn_mem \<Rightarrow> int \<times> dmn_mem" where
  "loc_eng_dmn_conn_glue_msgget e q_path mode w = loc_eng_dmn_conn_glue_pipeget e q_path mode w"

definition loc_eng_dmn_conn_glue_msgremove :: "string option \<Rightarrow> int \<Rightarrow> dmn_mem \<Rightarrow> int \<times> dmn_mem" where
  "loc_eng_dmn_conn_glue_msgremove q_path msgqid w = loc_eng_dmn_conn_glue_piperemove q_path msgqid w"

definition loc_eng_dmn_conn_glue_msgsnd ::
    "io \<Rightarrow> int \<Rightarrow> u8 list \<Rightarrow> u32 \<Rightarrow> dmn_mem \<Rightarrow> (int \<times> u8 list \<times> dmn_mem) option" where
  "loc_eng_dmn_conn_glue_msgsnd io msgqid msgp msgsz w =
     (if length msgp < 4 then None
      else do {
        let buf = put_bytes 0 (le32 msgsz) msgp;
        (result, w1) \<leftarrow> loc_eng_dmn_conn_glue_pipewrite io msgqid buf msgsz w;
        Some (if result \<noteq> cast_int (uint msgsz) then - 1 else result, buf, w1) })"

definition loc_eng_dmn_conn_glue_msgrcv ::
    "io \<Rightarrow> io \<Rightarrow> int \<Rightarrow> u8 list \<Rightarrow> u32 \<Rightarrow> dmn_mem \<Rightarrow> (int \<times> u8 list \<times> dmn_mem) option" where
  "loc_eng_dmn_conn_glue_msgrcv io1 io2 msgqid msgp msgbufsz w =
     do {
       (result, buf, w1) \<leftarrow> loc_eng_dmn_conn_glue_piperead io1 msgqid 0 msgp 4 w;
       if result \<noteq> 4 then Some (- 1, buf, w1)
       else do {
         let msgsz = get32 0 buf;
         if msgbufsz < msgsz then Some (- 1, buf, w1)
         else do {
           (result2, buf2, w2) \<leftarrow> loc_eng_dmn_conn_glue_piperead io2 msgqid 4 buf (msgsz - 4) w1;
           Some (if result2 \<noteq> cast_int (uint (msgsz - 4)) then - 1 else cast_int (uint msgsz), buf2, w2) } } }"

definition loc_eng_dmn_conn_glue_msgunblock :: "int \<Rightarrow> dmn_mem \<Rightarrow> int \<times> dmn_mem" where
  "loc_eng_dmn_conn_glue_msgunblock fcntl_rc w = loc_eng_dmn_conn_glue_pipeunblock fcntl_rc w"

text \<open>The loop reads until a read returns zero; the answers of the kernel are counted.\<close>

partial_function (option) flush_reads :: "(nat \<Rightarrow> io) \<Rightarrow> nat \<Rightarrow> int \<Rightarrow> u8 list \<Rightarrow> dmn_mem \<Rightarrow> (int \<times> dmn_mem) option" where
  "flush_reads ios i msgqid buf w =
     do {
       (length, buf1, w1) \<leftarrow> loc_eng_dmn_conn_glue_piperead (ios i) msgqid 0 buf 128 w;
       if length \<noteq> 0 then flush_reads ios (Suc i) msgqid buf1 w1 else Some (length, w1) }"

definition loc_eng_dmn_conn_glue_msgflush ::
    "(nat \<Rightarrow> io) \<Rightarrow> int \<Rightarrow> u8 list \<Rightarrow> dmn_mem \<Rightarrow> (int \<times> dmn_mem) option" where
  "loc_eng_dmn_conn_glue_msgflush ios msgqid buf w = flush_reads ios 0 msgqid buf w"

subsection \<open>Requests\<close>

abbreviation (input) "GPSONE_LOC_API_IF_REQUEST \<equiv> 0xF0"
abbreviation (input) "GPSONE_LOC_API_IF_RELEASE \<equiv> 0xF1"
abbreviation (input) "GPSONE_LOC_API_RESPONSE \<equiv> 0xF2"
abbreviation (input) "GPSONE_UNBLOCK \<equiv> 0xF3"

text \<open>
  The layout of \<^verbatim>\<open>struct ctrl_msgbuf\<close>: the size at 0, two reserved fields at 4 and 8, the type at 12,
  the union at 16. In an interface request follow the type of the interface, the sender, the IPv4
  address, the IPv6 address, the network name and the password.
\<close>

definition sizeof_ctrl_msgbuf :: u32 where
  "sizeof_ctrl_msgbuf = 112"

abbreviation (input) "off_ctrl_type \<equiv> 12 :: nat"
abbreviation (input) "off_result \<equiv> 16 :: nat"
abbreviation (input) "off_type \<equiv> 16 :: nat"
abbreviation (input) "off_sender_id \<equiv> 20 :: nat"
abbreviation (input) "off_ipv4_addr \<equiv> 24 :: nat"
abbreviation (input) "off_ipv6_addr \<equiv> 28 :: nat"
abbreviation (input) "off_ssid \<equiv> 44 :: nat"
abbreviation (input) "off_password \<equiv> 77 :: nat"

definition agps_type :: "u32 \<Rightarrow> int option" where
  "agps_type v = (if v = 0 then Some 1 else if v = 1 then Some 4 else if v = 2 then Some 0 else None)"

text \<open>
  \<^verbatim>\<open>strlcpy\<close> of a field into a buffer of 33 bytes: it walks to the end of the string, which may lie
  behind the field, and faults when there is none before the end of the message buffer.
\<close>

definition strlcpy_field :: "nat \<Rightarrow> u8 list \<Rightarrow> u8 list option" where
  "strlcpy_field off buf =
     (if 0 \<in> set (drop off buf) then Some (take 32 (takeWhile (\<lambda>b. b \<noteq> 0) (drop off buf))) else None)"

definition send_wifi ::
    "loc_if_req_sender_id_e_type \<Rightarrow> int \<Rightarrow> bool \<Rightarrow> u8 list \<Rightarrow> dmn_mem \<Rightarrow> (int \<times> dmn_mem) option" where
  "send_wifi sender ty is_req pmsg w =
     do {
       ssid \<leftarrow> strlcpy_field off_ssid pmsg;
       password \<leftarrow> strlcpy_field off_password pmsg;
       if loc_api_handle w = NULL then None
       else Some (0, w\<lparr>sent := sent w @ [LocEngReqRelWifi (loc_api_handle w) ty sender ssid password is_req]\<rparr>) }"

definition send_bit :: "int \<Rightarrow> bool \<Rightarrow> u8 list \<Rightarrow> dmn_mem \<Rightarrow> (int \<times> dmn_mem) option" where
  "send_bit ty is_req pmsg w =
     (if loc_api_handle w = NULL then None
      else Some (0, w\<lparr>sent := sent w @ [LocEngReqRelBIT (loc_api_handle w) ty (get32 off_ipv4_addr pmsg)
             (take 16 (drop off_ipv6_addr pmsg)) is_req]\<rparr>))"

definition if_message :: "bool \<Rightarrow> u8 list \<Rightarrow> dmn_mem \<Rightarrow> (int \<times> dmn_mem) option" where
  "if_message is_req pmsg w =
     (case agps_type (get32 off_type pmsg) of
        None \<Rightarrow> Some (- 1, w)
      | Some ty \<Rightarrow>
          (let sender = get32 off_sender_id pmsg
           in if sender = 0 then send_wifi SENDER_ID_QUIPC ty is_req pmsg w
              else if sender = 1 then send_wifi SENDER_ID_MSAPM ty is_req pmsg w
              else if sender = 2 then send_wifi SENDER_ID_MSAPU ty is_req pmsg w
              else if sender = 3 then send_bit ty is_req pmsg w
              else Some (- 1, w)))"

definition loc_eng_dmn_conn_loc_api_server_if_request_handler ::
    "u8 list \<Rightarrow> int \<Rightarrow> dmn_mem \<Rightarrow> (int \<times> dmn_mem) option" where
  "loc_eng_dmn_conn_loc_api_server_if_request_handler pmsg len w =
     (if loc_api_handle w = NULL then Some (1, w) else if_message True pmsg w)"

definition loc_eng_dmn_conn_loc_api_server_if_release_handler ::
    "u8 list \<Rightarrow> int \<Rightarrow> dmn_mem \<Rightarrow> (int \<times> dmn_mem) option" where
  "loc_eng_dmn_conn_loc_api_server_if_release_handler pmsg len w = if_message False pmsg w"

subsection \<open>The server\<close>

definition QUIPC_CTRL_Q_PATH :: string where
  "QUIPC_CTRL_Q_PATH = ''/data/misc/location/gpsone_d/quipc_ctrl_q''"

definition MSAPM_CTRL_Q_PATH :: string where
  "MSAPM_CTRL_Q_PATH = ''/data/misc/location/gpsone_d/msapm_ctrl_q''"

definition MSAPU_CTRL_Q_PATH :: string where
  "MSAPU_CTRL_Q_PATH = ''/data/misc/location/gpsone_d/msapu_ctrl_q''"

text \<open>Changes of mode and owner of the pipes have no effect on the server and are left out.\<close>

definition loc_api_server_proc_init :: "dmn_fs \<Rightarrow> dmn_mem \<Rightarrow> int \<times> dmn_mem" where
  "loc_api_server_proc_init e w =
     (let O_RDWR = 2;
          (q1, w1) = loc_eng_dmn_conn_glue_msgget e (global_loc_api_q_path w) O_RDWR w;
          w1 = w1\<lparr>loc_api_server_msgqid := q1\<rparr>;
          (q2, w2) = loc_eng_dmn_conn_glue_msgget e (global_loc_api_resp_q_path w1) O_RDWR w1;
          w2 = w2\<lparr>loc_api_resp_msgqid := q2\<rparr>;
          (q3, w3) = loc_eng_dmn_conn_glue_msgget e QUIPC_CTRL_Q_PATH O_RDWR w2;
          w3 = w3\<lparr>quipc_msgqid := q3\<rparr>;
          (q4, w4) = loc_eng_dmn_conn_glue_msgget e MSAPM_CTRL_Q_PATH O_RDWR w3;
          w4 = w4\<lparr>msapm_msgqid := q4\<rparr>;
          (q5, w5) = loc_eng_dmn_conn_glue_msgget e MSAPU_CTRL_Q_PATH O_RDWR w4
      in (0, w5\<lparr>msapu_msgqid := q5\<rparr>))"

definition loc_api_server_proc_pre :: "dmn_mem \<Rightarrow> int \<times> dmn_mem" where
  "loc_api_server_proc_pre w = (0, w)"

text \<open>The fresh message buffer is \<open>None\<close> when memory is short, and otherwise has any contents.\<close>

definition loc_api_server_proc :: "u8 list option \<Rightarrow> io \<Rightarrow> io \<Rightarrow> dmn_mem \<Rightarrow> (int \<times> dmn_mem) option" where
  "loc_api_server_proc malloc io1 io2 w =
     (case malloc of
        None \<Rightarrow> Some (- 1, w)
      | Some p_cmsgbuf \<Rightarrow>
          do {
            let sz = sizeof_ctrl_msgbuf + 256;
            (length, buf, w1) \<leftarrow>
              loc_eng_dmn_conn_glue_msgrcv io1 io2 (loc_api_server_msgqid w) p_cmsgbuf sz w;
            if length \<le> 0 then Some (- 1, w1)
            else do {
              let ctrl_type = buf ! off_ctrl_type;
              (result, w2) \<leftarrow>
                (if ctrl_type = GPSONE_LOC_API_IF_REQUEST
                 then loc_eng_dmn_conn_loc_api_server_if_request_handler buf length w1
                 else if ctrl_type = GPSONE_LOC_API_IF_RELEASE
                 then loc_eng_dmn_conn_loc_api_server_if_release_handler buf length w1
                 else Some (0, w1));
              Some (0, w2) } })"

definition loc_api_server_proc_post :: "dmn_mem \<Rightarrow> int \<times> dmn_mem" where
  "loc_api_server_proc_post w =
     (let w1 = snd (loc_eng_dmn_conn_glue_msgremove (Some (global_loc_api_q_path w)) (loc_api_server_msgqid w) w);
          w2 = snd (loc_eng_dmn_conn_glue_msgremove (Some (global_loc_api_resp_q_path w1)) (loc_api_resp_msgqid w1) w1);
          w3 = snd (loc_eng_dmn_conn_glue_msgremove (Some QUIPC_CTRL_Q_PATH) (quipc_msgqid w2) w2);
          w4 = snd (loc_eng_dmn_conn_glue_msgremove (Some MSAPM_CTRL_Q_PATH) (msapm_msgqid w3) w3);
          w5 = snd (loc_eng_dmn_conn_glue_msgremove (Some MSAPU_CTRL_Q_PATH) (msapu_msgqid w4) w4)
      in (0, w5))"

text \<open>A message on the stack is given with the contents it has before its fields are written.\<close>

definition loc_eng_dmn_conn_unblock_proc :: "io \<Rightarrow> u8 list \<Rightarrow> dmn_mem \<Rightarrow> (int \<times> dmn_mem) option" where
  "loc_eng_dmn_conn_unblock_proc io cmsgbuf w =
     do {
       let m = cmsgbuf[off_ctrl_type := GPSONE_UNBLOCK];
       (rc, m1, w1) \<leftarrow> loc_eng_dmn_conn_glue_msgsnd io (loc_api_server_msgqid w) m sizeof_ctrl_msgbuf w;
       Some (0, w1) }"

definition loc_eng_dmn_conn_loc_api_server_unblock ::
    "io \<Rightarrow> u8 list \<Rightarrow> thelper \<Rightarrow> dmn_mem \<Rightarrow> (int \<times> thelper \<times> dmn_mem) option" where
  "loc_eng_dmn_conn_loc_api_server_unblock io cmsgbuf t w =
     do {
       let t1 = snd (loc_eng_dmn_conn_unblock_thelper t);
       (rc, w1) \<leftarrow> loc_eng_dmn_conn_unblock_proc io cmsgbuf w;
       Some (0, t1, w1) }"

text \<open>What launching does before and after the thread is launched.\<close>

definition launch_globals :: "string option \<Rightarrow> string option \<Rightarrow> ptr \<Rightarrow> dmn_mem \<Rightarrow> dmn_mem" where
  "launch_globals loc_api_q_path resp_q_path agps_handle w =
     (let w1 = w\<lparr>loc_api_handle := agps_handle\<rparr>;
          w2 = (case loc_api_q_path of None \<Rightarrow> w1 | Some p \<Rightarrow> w1\<lparr>global_loc_api_q_path := p\<rparr>)
      in case resp_q_path of None \<Rightarrow> w2 | Some p \<Rightarrow> w2\<lparr>global_loc_api_resp_q_path := p\<rparr>)"

definition server_launch_result :: "int \<Rightarrow> int" where
  "server_launch_result result = (if result \<noteq> 0 then - 1 else 0)"

definition loc_eng_dmn_conn_loc_api_server_join :: "int \<Rightarrow> int \<Rightarrow> int \<Rightarrow> thelper \<Rightarrow> int \<times> thelper" where
  "loc_eng_dmn_conn_loc_api_server_join join_rc cond_rc mutex_rc t =
     (0, snd (loc_eng_dmn_conn_join_thelper join_rc cond_rc mutex_rc t))"

definition sender_queue :: "loc_if_req_sender_id_e_type \<Rightarrow> dmn_mem \<Rightarrow> int option" where
  "sender_queue sender_id w =
     (case sender_id of
        SENDER_ID_QUIPC \<Rightarrow> Some (quipc_msgqid w)
      | SENDER_ID_MSAPM \<Rightarrow> Some (msapm_msgqid w)
      | SENDER_ID_MSAPU \<Rightarrow> Some (msapu_msgqid w)
      | SENDER_ID_GPSONE_DAEMON \<Rightarrow> Some (loc_api_resp_msgqid w)
      | _ \<Rightarrow> None)"

definition loc_eng_dmn_conn_loc_api_server_data_conn ::
    "io \<Rightarrow> u8 list \<Rightarrow> loc_if_req_sender_id_e_type \<Rightarrow> u32 \<Rightarrow> dmn_mem \<Rightarrow> (int \<times> dmn_mem) option" where
  "loc_eng_dmn_conn_loc_api_server_data_conn io cmsgbuf sender_id status w =
     (let m = put_bytes off_result (le32 status) (cmsgbuf[off_ctrl_type := GPSONE_LOC_API_RESPONSE])
      in case sender_queue sender_id w of
           None \<Rightarrow> Some (0, w)
         | Some q \<Rightarrow>
             do {
               (rc, m1, w1) \<leftarrow> loc_eng_dmn_conn_glue_msgsnd io q m sizeof_ctrl_msgbuf w;
               Some (if rc < 0 then - 1 else 0, w1) })"

subsection \<open>Receiving\<close>

lemma length_put_bytes: "off + length bs \<le> length buf \<Longrightarrow> length (put_bytes off bs buf) = length buf"
  by (simp add: put_bytes_def)

lemma cast_int_small: "0 \<le> i \<Longrightarrow> i < 2 ^ 31 \<Longrightarrow> cast_int i = i"
  by (simp add: cast_int_def)

lemma cast_int_high: "2 ^ 31 \<le> i \<Longrightarrow> i < 2 ^ 32 \<Longrightarrow> cast_int i = i - 2 ^ 32"
proof -
  assume a: "2 ^ 31 \<le> i" "i < 2 ^ 32"
  have "(i + 2 ^ 31) mod 2 ^ 32 = i + 2 ^ 31 - 2 ^ 32"
    by (rule int_mod_pos_eq [where q = 1]) (use a in simp_all)
  then show ?thesis
    by (simp add: cast_int_def)
qed

text \<open>The length of the body, as an \<^verbatim>\<open>int\<close>: below the header size it wraps around to a negative number.\<close>

lemma body_length:
  fixes msgsz :: u32
  assumes "uint msgsz < 2 ^ 31"
  shows "cast_int (uint (msgsz - 4)) = uint msgsz - 4"
proof (cases "uint msgsz < 4")
  case True
  then have "uint (msgsz - 4) = uint msgsz - 4 + 2 ^ 32"
    using uint_sub_if' [of msgsz 4] by simp
  moreover have "0 \<le> uint msgsz"
    by simp
  ultimately show ?thesis
    using True cast_int_high [of "uint msgsz - 4 + 2 ^ 32"] by simp
next
  case False
  then have "uint (msgsz - 4) = uint msgsz - 4"
    using uint_sub_if' [of msgsz 4] by simp
  then show ?thesis
    using False assms cast_int_small [of "uint msgsz - 4"] by simp
qed

lemma piperead_cases:
  assumes "loc_eng_dmn_conn_glue_piperead io fd off buf sz w = Some (r, buf', w')"
  obtains (error) "r = - 1" "buf' = buf" "w' = w" "io sz = None"
  | (data) n where "r = int n" "n \<le> unat sz" "n \<le> length (fifo w fd)" "off + n \<le> length buf"
      "buf' = put_bytes off (take n (fifo w fd)) buf" "w' = w\<lparr>fifo := (fifo w)(fd := drop n (fifo w fd))\<rparr>"
proof (cases "io sz")
  case None
  with assms that(1) show thesis
    by (simp add: loc_eng_dmn_conn_glue_piperead_def)
next
  case (Some k)
  let ?n = "min k (min (unat sz) (length (fifo w fd)))"
  from Some assms show thesis
    by (intro that(2) [of ?n]) (auto simp: loc_eng_dmn_conn_glue_piperead_def Let_def split: if_splits)
qed


text \<open>The anomaly, and the value a flush returns, whatever it has read.\<close>

lemma msgrcv_short_frame:
  "fifo w fd = le32 3 @ rest \<Longrightarrow> length buf = 368 \<Longrightarrow>
    loc_eng_dmn_conn_glue_msgrcv (\<lambda>n. Some (unat n)) (\<lambda>n. if n < 2 ^ 31 then Some (unat n) else None) fd buf 368 w =
      Some (3, le32 3 @ drop 4 buf, w\<lparr>fifo := (fifo w)(fd := rest)\<rparr>)"
  by (simp add: loc_eng_dmn_conn_glue_msgrcv_def loc_eng_dmn_conn_glue_piperead_def put_bytes_def get32_def
      cast_int_def Let_def unsigned_minus_1_eq_mask mask_eq_exp_minus_1)

lemma msgflush_returns_zero:
  assumes "loc_eng_dmn_conn_glue_msgflush ios fd buf w = Some (r, w')"
  shows "r = 0"
proof -
  have "fst x = 0" if "flush_reads ios i fd buf w = Some x" for i buf w x
    using that
  proof (rule flush_reads.raw_induct [rotated, where P = "\<lambda>ios i fd buf w x. fst x = 0"])
    show "fst x = 0"
      if "\<And>ios i fd buf w x. f ios i fd buf w = Some x \<Longrightarrow> fst x = 0"
        and "loc_eng_dmn_conn_glue_piperead (ios i) fd 0 buf 128 w \<bind>
          (\<lambda>(length, buf1, w1). if length \<noteq> 0 then f ios (Suc i) fd buf1 w1 else Some (length, w1)) = Some x"
      for f ios i fd buf w x
      using that(2) by (auto simp: bind_eq_Some_conv split: if_splits dest!: that(1))
  qed
  then have "fst (r, w') = 0"
    using assms unfolding loc_eng_dmn_conn_glue_msgflush_def by blast
  then show ?thesis
    by simp
qed


subsection \<open>Serving requests\<close>

text \<open>
  What a client asks for, as the bytes of the message it fills in, and the message the engine is to
  receive for it. A kernel that is asked to transfer within the capacity of a pipe does so at once.
\<close>

record if_req =
  is_request :: bool
  req_type :: u32
  req_sender :: u32
  req_ipv4 :: u32
  req_ipv6 :: "u8 list"
  req_ssid :: "u8 list"
  req_password :: "u8 list"

definition field33 :: "u8 list \<Rightarrow> u8 list" where
  "field33 s = s @ replicate (33 - length s) 0"

definition msg_head :: "u32 \<Rightarrow> if_req \<Rightarrow> u8 list" where
  "msg_head sz q = le32 sz @ replicate 8 0 @ [if is_request q then GPSONE_LOC_API_IF_REQUEST
     else GPSONE_LOC_API_IF_RELEASE] @ replicate 3 0"

definition msg_of :: "u32 \<Rightarrow> if_req \<Rightarrow> u8 list" where
  "msg_of sz q = msg_head sz q @ le32 (req_type q) @ le32 (req_sender q) @ le32 (req_ipv4 q) @ req_ipv6 q @
     field33 (req_ssid q) @ field33 (req_password q) @ [0, 0]"

definition good_req :: "if_req \<Rightarrow> bool" where
  "good_req q \<longleftrightarrow> req_type q \<in> {0, 1, 2} \<and> req_sender q \<in> {0, 1, 2, 3} \<and> length (req_ipv6 q) = 16 \<and>
     length (req_ssid q) \<le> 32 \<and> 0 \<notin> set (req_ssid q) \<and>
     length (req_password q) \<le> 32 \<and> 0 \<notin> set (req_password q)"

definition agps_of :: "u32 \<Rightarrow> int" where
  "agps_of t = (if t = 0 then 1 else if t = 1 then 4 else 0)"

definition engine_msg :: "ptr \<Rightarrow> if_req \<Rightarrow> eng_msg" where
  "engine_msg h q =
     (if req_sender q = 3 then LocEngReqRelBIT h (agps_of (req_type q)) (req_ipv4 q) (req_ipv6 q) (is_request q)
      else LocEngReqRelWifi h (agps_of (req_type q))
        (if req_sender q = 0 then SENDER_ID_QUIPC else if req_sender q = 1 then SENDER_ID_MSAPM else SENDER_ID_MSAPU)
        (req_ssid q) (req_password q) (is_request q))"

definition all_of :: io where
  "all_of n = Some (unat n)"

lemma length_msg_head [simp]: "length (msg_head sz q) = 16"
  by (simp add: msg_head_def)

lemma length_field33 [simp]: "length s \<le> 32 \<Longrightarrow> length (field33 s) = 33"
  by (simp add: field33_def)

lemma length_msg_of [simp]: "good_req q \<Longrightarrow> length (msg_of sz q) = 112"
  by (simp add: msg_of_def good_req_def)

lemma get32_at: "length a = off \<Longrightarrow> get32 off (a @ le32 v @ b) = v"
  by (simp add: get32_def)

lemma strlcpy_at:
  assumes "length a = off" "length s \<le> 32" "0 \<notin> set s"
  shows "strlcpy_field off (a @ field33 s @ b) = Some s"
proof -
  obtain k where "33 - length s = Suc k"
    using assms(2) by (metis Suc_diff_le Suc_numeral semiring_norm(5) semiring_norm(8) numeral_plus_one Suc_eq_plus1)
  moreover have "takeWhile (\<lambda>b. b \<noteq> 0) (s @ 0 # t) = s" for t
    using assms(3) by (subst takeWhile_append2) auto
  ultimately have "takeWhile (\<lambda>b. b \<noteq> 0) (field33 s @ b) = s"
    by (simp add: field33_def)
  then show ?thesis
    using assms by (simp add: strlcpy_field_def field33_def)
qed

lemma put_header: "put_bytes 0 (le32 n) (msg_of sz q) = msg_of n q"
  by (simp add: put_bytes_def msg_of_def msg_head_def)

lemma client_send:
  assumes "good_req q"
  shows "loc_eng_dmn_conn_glue_msgsnd all_of fd (msg_of sz q) sizeof_ctrl_msgbuf w =
    Some (112, msg_of sizeof_ctrl_msgbuf q, w\<lparr>fifo := (fifo w)(fd := fifo w fd @ msg_of sizeof_ctrl_msgbuf q)\<rparr>)"
  using assms
  by (simp add: loc_eng_dmn_conn_glue_msgsnd_def put_header loc_eng_dmn_conn_glue_pipewrite_def all_of_def
      sizeof_ctrl_msgbuf_def cast_int_def Let_def)

lemma server_receive:
  assumes "good_req q" "fifo w fd = msg_of 112 q @ rest" "length buf = 368"
  shows "loc_eng_dmn_conn_glue_msgrcv all_of all_of fd buf 368 w =
    Some (112, msg_of 112 q @ drop 112 buf, w\<lparr>fifo := (fifo w)(fd := rest)\<rparr>)"
proof -
  have h: "take 4 (msg_of 112 q) = le32 112"
    by (simp add: msg_of_def msg_head_def)
  have l: "length (msg_of 112 q) = 112"
    using assms(1) by simp
  have b: "le32 112 @ drop 4 (msg_of 112 q) = msg_of 112 q"
    using append_take_drop_id [of 4 "msg_of 112 q"] unfolding h .
  then have b': "le32 112 @ drop 4 (msg_of 112 q) @ xs = msg_of 112 q @ xs" for xs
    by (metis append_assoc)
  show ?thesis
    using assms(2,3) l
    by (simp add: loc_eng_dmn_conn_glue_msgrcv_def loc_eng_dmn_conn_glue_piperead_def all_of_def h put_bytes_def
        get32_def cast_int_def b b')
qed

text \<open>Reading the fields of a received message.\<close>

lemma msg_fields:
  assumes "good_req q"
  shows "(msg_of sz q @ x) ! off_ctrl_type = (if is_request q then GPSONE_LOC_API_IF_REQUEST else GPSONE_LOC_API_IF_RELEASE)"
    "get32 off_type (msg_of sz q @ x) = req_type q"
    "get32 off_sender_id (msg_of sz q @ x) = req_sender q"
    "get32 off_ipv4_addr (msg_of sz q @ x) = req_ipv4 q"
    "take 16 (drop off_ipv6_addr (msg_of sz q @ x)) = req_ipv6 q"
    "strlcpy_field off_ssid (msg_of sz q @ x) = Some (req_ssid q)"
    "strlcpy_field off_password (msg_of sz q @ x) = Some (req_password q)"
proof -
  let ?h = "msg_head sz q"
  note g = assms [unfolded good_req_def]
  show "(msg_of sz q @ x) ! off_ctrl_type = (if is_request q then GPSONE_LOC_API_IF_REQUEST else GPSONE_LOC_API_IF_RELEASE)"
    by (simp add: msg_of_def msg_head_def nth_append)
  show "get32 off_type (msg_of sz q @ x) = req_type q"
    using get32_at [of ?h 16] by (simp add: msg_of_def)
  show "get32 off_sender_id (msg_of sz q @ x) = req_sender q"
    using get32_at [of "?h @ le32 (req_type q)" 20] by (simp add: msg_of_def)
  show "get32 off_ipv4_addr (msg_of sz q @ x) = req_ipv4 q"
    using get32_at [of "?h @ le32 (req_type q) @ le32 (req_sender q)" 24] by (simp add: msg_of_def)
  show "take 16 (drop off_ipv6_addr (msg_of sz q @ x)) = req_ipv6 q"
    using g by (simp add: msg_of_def)
  show "strlcpy_field off_ssid (msg_of sz q @ x) = Some (req_ssid q)"
    using g strlcpy_at [of "?h @ le32 (req_type q) @ le32 (req_sender q) @ le32 (req_ipv4 q) @ req_ipv6 q" 44 "req_ssid q"]
    by (simp add: msg_of_def)
  show "strlcpy_field off_password (msg_of sz q @ x) = Some (req_password q)"
    using g strlcpy_at [of "?h @ le32 (req_type q) @ le32 (req_sender q) @ le32 (req_ipv4 q) @ req_ipv6 q @
      field33 (req_ssid q)" 77 "req_password q"]
    by (simp add: msg_of_def)
qed

lemma if_message_sends:
  assumes "good_req q" "loc_api_handle w \<noteq> NULL"
  shows "if_message (is_request q) (msg_of 112 q @ x) w =
    Some (0, w\<lparr>sent := sent w @ [engine_msg (loc_api_handle w) q]\<rparr>)"
proof -
  have t: "agps_type (req_type q) = Some (agps_of (req_type q))"
    using assms(1) by (auto simp: good_req_def agps_type_def agps_of_def)
  have "req_sender q = 0 \<or> req_sender q = 1 \<or> req_sender q = 2 \<or> req_sender q = 3"
    using assms(1) by (simp add: good_req_def)
  then show ?thesis
    unfolding if_message_def msg_fields [OF assms(1)] t engine_msg_def
    by (elim disjE) (simp_all add: send_wifi_def send_bit_def msg_fields [OF assms(1)] assms(2) del: take_append drop_append)
qed

lemma server_proc_request:
  assumes "good_req q" "fifo w (loc_api_server_msgqid w) = msg_of 112 q @ rest" "length buf = 368"
    "loc_api_handle w \<noteq> NULL"
  shows "loc_api_server_proc (Some buf) all_of all_of w =
    Some (0, w\<lparr>fifo := (fifo w)(loc_api_server_msgqid w := rest), sent := sent w @ [engine_msg (loc_api_handle w) q]\<rparr>)"
  using if_message_sends [OF assms(1), of "w\<lparr>fifo := (fifo w)(loc_api_server_msgqid w := rest)\<rparr>" "drop 112 buf"] assms(4)
  by (cases "is_request q")
    (simp_all add: loc_api_server_proc_def sizeof_ctrl_msgbuf_def server_receive [OF assms(1-3)] msg_fields(1) [OF assms(1)]
      loc_eng_dmn_conn_loc_api_server_if_request_handler_def loc_eng_dmn_conn_loc_api_server_if_release_handler_def)

text \<open>Clients that send requests one after the other, and the server called once for each buffer it gets.\<close>

fun send_requests :: "if_req list \<Rightarrow> dmn_mem \<Rightarrow> dmn_mem option" where
  "send_requests [] w = Some w"
| "send_requests (q # qs) w =
     do {
       (r, buf, w1) \<leftarrow> loc_eng_dmn_conn_glue_msgsnd all_of (loc_api_server_msgqid w) (msg_of 0 q) sizeof_ctrl_msgbuf w;
       send_requests qs w1 }"

fun serve :: "u8 list list \<Rightarrow> dmn_mem \<Rightarrow> (int list \<times> dmn_mem) option" where
  "serve [] w = Some ([], w)"
| "serve (buf # bufs) w =
     do {
       (r, w1) \<leftarrow> loc_api_server_proc (Some buf) all_of all_of w;
       (rs, w2) \<leftarrow> serve bufs w1;
       Some (r # rs, w2) }"

lemma send_requests_effect:
  "\<forall>q \<in> set qs. good_req q \<Longrightarrow>
    send_requests qs w = Some (w\<lparr>fifo := (fifo w)(loc_api_server_msgqid w :=
      fifo w (loc_api_server_msgqid w) @ concat (map (msg_of 112) qs))\<rparr>)"
  by (induction qs arbitrary: w) (simp_all add: client_send, simp_all add: sizeof_ctrl_msgbuf_def)

lemma serve_effect:
  assumes "\<forall>q \<in> set qs. good_req q" "\<forall>b \<in> set bufs. length b = 368" "length bufs = length qs"
    "fifo w (loc_api_server_msgqid w) = concat (map (msg_of 112) qs)" "loc_api_handle w \<noteq> NULL"
  shows "serve bufs w = Some (replicate (length qs) 0,
    w\<lparr>fifo := (fifo w)(loc_api_server_msgqid w := []), sent := sent w @ map (engine_msg (loc_api_handle w)) qs\<rparr>)"
  using assms
proof (induction qs arbitrary: bufs w)
  case Nil
  then show ?case
    by (simp add: fun_upd_idem)
next
  case (Cons q qs)
  then obtain b bs where "bufs = b # bs"
    by (cases bufs) auto
  with Cons.prems show ?case
    using server_proc_request [of q w "concat (map (msg_of 112) qs)" b] by (simp add: Cons.IH cong: if_cong)
qed

text \<open>
  C29. The server does what its clients ask, in their order: requests that are sent to its queue,
  well-formed and one after the other, are each answered by one call of the task, which hands the engine
  exactly the message for that request, its addresses or its network name and password unchanged,
  whatever the fresh buffers contained; in the end the queue is empty.
\<close>

theorem server_serves_in_order:
  assumes "\<forall>q \<in> set qs. good_req q" "fifo w (loc_api_server_msgqid w) = []" "loc_api_handle w \<noteq> NULL"
    and "\<forall>b \<in> set bufs. length b = 368" "length bufs = length qs"
  shows "(do { w1 \<leftarrow> send_requests qs w; serve bufs w1 }) =
    Some (replicate (length qs) 0, w\<lparr>sent := sent w @ map (engine_msg (loc_api_handle w)) qs\<rparr>)"
  using assms serve_effect [OF assms(1,4,5)] by (simp add: send_requests_effect fun_upd_idem)

theorem server_serves_in_order_witness:
  "\<exists>w bufs q. (do { w1 \<leftarrow> send_requests [q] w; serve bufs w1 }) =
     Some ([0], w\<lparr>sent := [LocEngReqRelWifi 7 4 SENDER_ID_MSAPM [65] [66, 67] True]\<rparr>)"
proof -
  define w :: dmn_mem where
    "w = \<lparr>fifo = (\<lambda>_. []), fifo_names = {}, open_fds = {5}, loc_api_server_msgqid = 5,
          loc_api_resp_msgqid = 0, quipc_msgqid = 0, msapm_msgqid = 0, msapu_msgqid = 0,
          global_loc_api_q_path = [], global_loc_api_resp_q_path = [], loc_api_handle = 7, sent = []\<rparr>"
  define q where
    "q = \<lparr>is_request = True, req_type = 1, req_sender = 1, req_ipv4 = 0, req_ipv6 = replicate 16 0,
          req_ssid = [65], req_password = [66, 67]\<rparr>"
  have g: "\<forall>q' \<in> set [q]. good_req q'"
    by (simp add: good_req_def q_def)
  have m: "engine_msg 7 q = LocEngReqRelWifi 7 4 SENDER_ID_MSAPM [65] [66, 67] True"
    by (simp add: engine_msg_def q_def agps_of_def)
  have "(do { w1 \<leftarrow> send_requests [q] w; serve [replicate 368 170] w1 }) =
      Some ([0], w\<lparr>sent := [engine_msg 7 q]\<rparr>)"
    using server_serves_in_order [OF g, of w "[replicate 368 170]"]
    by (simp add: w_def del: send_requests.simps serve.simps)
  then show ?thesis
    unfolding m by blast
qed

text \<open>
  Responses reach the queue of the sender that asked: a client that receives from it gets a response
  with the status.
\<close>

lemma data_conn_answers:
  assumes "sender_queue sender w = Some q" "fifo w q = []" "length cmsgbuf = 112" "length buf = 368"
  shows "\<exists>w1 buf' w2. loc_eng_dmn_conn_loc_api_server_data_conn all_of cmsgbuf sender status w = Some (0, w1) \<and>
    loc_eng_dmn_conn_glue_msgrcv all_of all_of q buf 368 w1 = Some (112, buf', w2) \<and>
    buf' ! off_ctrl_type = GPSONE_LOC_API_RESPONSE \<and> get32 off_result buf' = status \<and> w2 = w"
proof -
  define m where "m = put_bytes 0 (le32 112) (put_bytes 16 (le32 status) (cmsgbuf[12 := 0xF2]))"
  have l: "length m = 112"
    using assms(3) by (simp add: m_def put_bytes_def)
  have l0: "length (put_bytes 16 (le32 status) (cmsgbuf[12 := 0xF2])) = 112"
    using assms(3) by (simp add: put_bytes_def)
  have h: "take 4 m = le32 112"
    by (simp add: m_def put_bytes_def)
  have c: "m ! 12 = 0xF2" "get32 16 m = status"
    using assms(3) by (simp_all add: m_def put_bytes_def nth_append get32_def)
  have m4: "le32 112 @ drop 4 m = m"
    using append_take_drop_id [of 4 m] unfolding h .
  let ?w1 = "w\<lparr>fifo := (fifo w)(q := m)\<rparr>"
  have "loc_eng_dmn_conn_loc_api_server_data_conn all_of cmsgbuf sender status w = Some (0, ?w1)"
    using assms l l0
    by (simp add: loc_eng_dmn_conn_loc_api_server_data_conn_def loc_eng_dmn_conn_glue_msgsnd_def m_def [symmetric]
        loc_eng_dmn_conn_glue_pipewrite_def all_of_def sizeof_ctrl_msgbuf_def cast_int_def Let_def)
  moreover have "loc_eng_dmn_conn_glue_msgrcv all_of all_of q buf 368 ?w1 = Some (112, m @ drop 112 buf, w)"
    using assms(2,4) l h m4
    by (simp add: loc_eng_dmn_conn_glue_msgrcv_def loc_eng_dmn_conn_glue_piperead_def all_of_def put_bytes_def
        get32_def cast_int_def fun_upd_idem)
  ultimately show ?thesis
    using c l by (intro exI [where x = ?w1] exI [where x = "m @ drop 112 buf"] exI [where x = w])
      (simp add: nth_append get32_def)
qed

text \<open>Releasing with no engine handle is a fault, while requesting is refused.\<close>

lemma no_engine_handle:
  assumes "good_req q" "loc_api_handle w = NULL"
  shows "loc_eng_dmn_conn_loc_api_server_if_request_handler (msg_of 112 q) n w = Some (1, w)"
    "loc_eng_dmn_conn_loc_api_server_if_release_handler (msg_of 112 q) n w = None"
proof -
  have "agps_type (req_type q) = Some (agps_of (req_type q))"
    "req_sender q = 0 \<or> req_sender q = 1 \<or> req_sender q = 2 \<or> req_sender q = 3"
    using assms(1) by (auto simp: good_req_def agps_type_def agps_of_def)
  then show "loc_eng_dmn_conn_loc_api_server_if_release_handler (msg_of 112 q) n w = None"
    using msg_fields [OF assms(1), of 112 "[]"] assms(2)
    by (auto simp: loc_eng_dmn_conn_loc_api_server_if_release_handler_def if_message_def send_wifi_def send_bit_def)
qed (simp add: loc_eng_dmn_conn_loc_api_server_if_request_handler_def assms(2))

text \<open>
  Stopping the server: after an unblock, a thread that waits for a message gets one and ends with
  the clean-up, whichever request it finds first.
\<close>

lemma unblock_sends:
  assumes "length cmsgbuf = 112"
  shows "\<exists>m. loc_eng_dmn_conn_loc_api_server_unblock all_of cmsgbuf t w =
      Some (0, t\<lparr>thread_exit := 1\<rparr>, w\<lparr>fifo := (fifo w)(loc_api_server_msgqid w := fifo w (loc_api_server_msgqid w) @ m)\<rparr>) \<and>
    length m = 112 \<and> take 4 m = le32 112 \<and> m ! off_ctrl_type = GPSONE_UNBLOCK"
  using assms
  by (intro exI [where x = "put_bytes 0 (le32 112) (cmsgbuf[12 := 0xF3])"])
    (simp add: loc_eng_dmn_conn_loc_api_server_unblock_def loc_eng_dmn_conn_unblock_proc_def
      loc_eng_dmn_conn_unblock_thelper_def loc_eng_dmn_conn_glue_msgsnd_def loc_eng_dmn_conn_glue_pipewrite_def
      all_of_def sizeof_ctrl_msgbuf_def cast_int_def Let_def put_bytes_def nth_append)

end
