(* ===== verification/Wg_Encoding.thy ===== *)
theory Wg_Encoding
  imports Prelude
begin

text \<open>
  The constant-time encodings of WireGuard keys (\<^verbatim>\<open>wireguard-tools/src/encoding.c\<close>). A character is
  a byte; arithmetic is done in \<^verbatim>\<open>int\<close>, whose values stay far from its limits here, so it is modelled
  by unbounded integers with the shift to the right rounding down, and in 32-bit words where the code
  uses unsigned constants. Whether a plain \<^verbatim>\<open>char\<close> is signed is a parameter. Strings are lists of
  bytes without the terminating zero where the code measures them with \<^verbatim>\<open>strlen\<close>.
\<close>

subsection \<open>Base 64\<close>

definition WG_KEY_LEN :: nat where
  "WG_KEY_LEN = 32"

definition WG_KEY_LEN_BASE64 :: nat where
  "WG_KEY_LEN_BASE64 = (WG_KEY_LEN + 2) div 3 * 4 + 1"

definition WG_KEY_LEN_HEX :: nat where
  "WG_KEY_LEN_HEX = WG_KEY_LEN * 2 + 1"

definition encode_char :: "int \<Rightarrow> u8" where
  "encode_char x =
     word_of_int (x + 65
       + (drop_bit 8 (25 - x) AND 6)
       - (drop_bit 8 (51 - x) AND 75)
       - (drop_bit 8 (61 - x) AND 15)
       + (drop_bit 8 (62 - x) AND 3))"

definition encode_base64 :: "u8 \<Rightarrow> u8 \<Rightarrow> u8 \<Rightarrow> u8 list" where
  "encode_base64 s0 s1 s2 =
     map encode_char
       [drop_bit 2 (uint s0) AND 63,
        (push_bit 4 (uint s0) OR drop_bit 4 (uint s1)) AND 63,
        (push_bit 2 (uint s1) OR drop_bit 6 (uint s2)) AND 63,
        uint s2 AND 63]"

text \<open>The loop over groups of three bytes, then the last group of two bytes and the padding.\<close>

fun encode_groups :: "u8 list \<Rightarrow> u8 list" where
  "encode_groups (a # b # c # bs) = encode_base64 a b c @ encode_groups bs"
| "encode_groups [a, b] = take 3 (encode_base64 a b 0) @ [0x3D]"
| "encode_groups _ = []"

definition key_to_base64 :: "u8 list \<Rightarrow> u8 list" where
  "key_to_base64 key = encode_groups key @ [0]"

definition char_val :: "bool \<Rightarrow> u8 \<Rightarrow> int" where
  "char_val sg c = (if sg then sint c else uint c)"

definition decode_char :: "int \<Rightarrow> int" where
  "decode_char c =
     - 1
     + (drop_bit 8 ((64 - c) AND (c - 91)) AND (c - 64))
     + (drop_bit 8 ((96 - c) AND (c - 123)) AND (c - 70))
     + (drop_bit 8 ((47 - c) AND (c - 58)) AND (c + 5))
     + (drop_bit 8 ((42 - c) AND (c - 44)) AND 63)
     + (drop_bit 8 ((46 - c) AND (c - 48)) AND 64)"

definition decode_base64 :: "bool \<Rightarrow> u8 \<Rightarrow> u8 \<Rightarrow> u8 \<Rightarrow> u8 \<Rightarrow> int" where
  "decode_base64 sg c0 c1 c2 c3 =
     (((0 OR push_bit 18 (decode_char (char_val sg c0)))
         OR push_bit 12 (decode_char (char_val sg c1)))
         OR push_bit 6 (decode_char (char_val sg c2)))
         OR push_bit 0 (decode_char (char_val sg c3))"

text \<open>
  The loop of \<^verbatim>\<open>key_from_base64\<close>: the accumulated error and the bytes. \<open>sign_bit\<close> is the shift of the
  value, taken as an unsigned number, to its top bit.
\<close>

definition sign_bit :: "int \<Rightarrow> u8" where
  "sign_bit v = word_of_int (drop_bit 31 (take_bit 32 v))"

fun decode_groups :: "bool \<Rightarrow> u8 list \<Rightarrow> u8 \<Rightarrow> u8 \<times> u8 list" where
  "decode_groups sg [c0, c1, c2, _] ret =
     (let v = decode_base64 sg c0 c1 c2 0x41
      in (ret OR (sign_bit v OR word_of_int (v AND 0xFF)),
          [word_of_int (drop_bit 16 v AND 0xFF), word_of_int (drop_bit 8 v AND 0xFF)]))"
| "decode_groups sg (c0 # c1 # c2 # c3 # cs) ret =
     (let v = decode_base64 sg c0 c1 c2 c3;
          (ret', bs) = decode_groups sg cs (ret OR sign_bit v)
      in (ret', word_of_int (drop_bit 16 v AND 0xFF) # word_of_int (drop_bit 8 v AND 0xFF) #
                word_of_int (v AND 0xFF) # bs))"
| "decode_groups sg _ ret = (ret, [])"

text \<open>The last line of the decoders: 1 exactly when no error was recorded.\<close>

definition ret_ok :: "u8 \<Rightarrow> bool" where
  "ret_ok ret \<longleftrightarrow> 1 AND drop_bit 8 (uint ret - 1) \<noteq> 0"

definition key_from_base64 :: "bool \<Rightarrow> u8 list \<Rightarrow> u8 list \<Rightarrow> bool \<times> u8 list" where
  "key_from_base64 sg base64 key =
     (if length base64 \<noteq> WG_KEY_LEN_BASE64 - 1 \<or> base64 ! (WG_KEY_LEN_BASE64 - 2) \<noteq> 0x3D then (False, key)
      else (let (ret, bs) = decode_groups sg base64 0 in (ret_ok ret, bs)))"

subsection \<open>Hexadecimal\<close>

definition hex_digit :: "u32 \<Rightarrow> u8" where
  "hex_digit x = ucast (87 + x + (drop_bit 8 (x - 10) AND NOT 38))"

definition key_to_hex :: "u8 list \<Rightarrow> u8 list" where
  "key_to_hex key =
     concat (map (\<lambda>k. [hex_digit (drop_bit 4 (ucast k)), hex_digit (ucast k AND 0xF)]) key) @ [0]"

text \<open>One character: the error it adds and its value.\<close>

definition hex_value :: "u8 \<Rightarrow> u8 \<times> u8" where
  "hex_value c =
     (let c_num = c XOR 48;
          c_num0 = ucast (drop_bit 8 (ucast c_num - 10 :: u32)) :: u8;
          c_alpha = ucast ((ucast c AND NOT 32) - 55 :: u32) :: u8;
          c_alpha0 = ucast (drop_bit 8 ((ucast c_alpha - 10 :: u32) XOR (ucast c_alpha - 16))) :: u8
      in (word_of_int (drop_bit 8 (uint (c_num0 OR c_alpha0) - 1)),
          (c_num0 AND c_num) OR (c_alpha0 AND c_alpha)))"

fun unhex_loop :: "u8 list \<Rightarrow> u8 \<Rightarrow> u8 \<times> u8 list" where
  "unhex_loop (c # d # cs) ret =
     (let (e1, v1) = hex_value c; c_acc = v1 * 16; (e2, v2) = hex_value d;
          (ret', bs) = unhex_loop cs ((ret OR e1) OR e2)
      in (ret', (c_acc OR v2) # bs))"
| "unhex_loop _ ret = (ret, [])"

definition key_from_hex :: "u8 list \<Rightarrow> u8 list \<Rightarrow> bool \<times> u8 list" where
  "key_from_hex hex key =
     (if length hex \<noteq> WG_KEY_LEN_HEX - 1 then (False, key)
      else (let (ret, bs) = unhex_loop hex 0 in (ret_ok ret, bs)))"

definition key_is_zero :: "u8 list \<Rightarrow> bool" where
  "key_is_zero key = ret_ok (foldl (\<lambda>acc k. acc OR k) 0 key)"

subsection \<open>Characters\<close>

lemma drop_sign:
  fixes a :: int
  assumes "- (2 ^ k) \<le> a" "a < 2 ^ k"
  shows "drop_bit k a = (if a < 0 then - 1 else 0)"
proof -
  have "a div 2 ^ k = - 1" if "a < 0"
    using that assms by (intro int_div_pos_eq [where r = "a + 2 ^ k"]) auto
  then show ?thesis
    using assms by (simp add: drop_bit_eq_div)
qed

lemma drop8: "- 256 \<le> a \<Longrightarrow> a < 256 \<Longrightarrow> drop_bit 8 a = (if a < 0 then - 1 else 0)" for a :: int
  using drop_sign [of 8 a] by simp

lemma decode_char_cases:
  assumes "- 128 \<le> c" "c < 256"
  shows "decode_char c =
    (if 65 \<le> c \<and> c \<le> 90 then c - 65 else if 97 \<le> c \<and> c \<le> 122 then c - 71
     else if 48 \<le> c \<and> c \<le> 57 then c + 4 else if c = 43 then 62 else if c = 47 then 63 else - 1)"
  using assms by (auto simp: decode_char_def drop8)

lemma encode_char_cases:
  assumes "0 \<le> x" "x < 64"
  shows "encode_char x = word_of_int
    (if x < 26 then x + 65 else if x < 52 then x + 71 else if x < 62 then x - 4 else if x = 62 then 43 else 47)"
proof -
  have "x + 65 + (drop_bit 8 (25 - x) AND 6) - (drop_bit 8 (51 - x) AND 75) - (drop_bit 8 (61 - x) AND 15)
      + (drop_bit 8 (62 - x) AND 3) =
    (if x < 26 then x + 65 else if x < 52 then x + 71 else if x < 62 then x - 4 else if x = 62 then 43 else 47)"
    using assms by (simp add: drop8)
  then show ?thesis
    by (simp only: encode_char_def)
qed

lemma char_val_bounds: "- 128 \<le> char_val sg c" "char_val sg c < 256"
proof -
  have "- 128 \<le> sint c" "sint c < 128"
    using sint_ge [of c] sint_lt [of c] by simp_all
  moreover have "- 128 \<le> uint c" "uint c < 256"
    using uint_lt2p [of c] uint_ge_0 [of c] by (linarith, simp)
  ultimately show "- 128 \<le> char_val sg c" "char_val sg c < 256"
    by (auto simp: char_val_def)
qed

lemma char_val_ascii: "0 \<le> y \<Longrightarrow> y < 128 \<Longrightarrow> char_val sg (word_of_int y) = y"
  by (simp add: char_val_def sint_uint uint_word_of_int signed_take_bit_int_eq_self)

lemma char_val_inverse: "word_of_int (char_val sg c) = c"
  by (simp add: char_val_def)

lemma decode_encode_char: "0 \<le> x \<Longrightarrow> x < 64 \<Longrightarrow> decode_char (char_val sg (encode_char x)) = x"
  by (auto simp: encode_char_cases char_val_ascii decode_char_cases)

lemma encode_decode_char:
  assumes "0 \<le> decode_char (char_val sg c)"
  shows "encode_char (decode_char (char_val sg c)) = c"
proof -
  let ?v = "char_val sg c"
  have "encode_char (decode_char ?v) = word_of_int ?v"
    using assms char_val_bounds [of sg c]
    by (auto simp: decode_char_cases encode_char_cases split: if_splits)
  then show ?thesis
    by (simp add: char_val_inverse)
qed

lemma decode_char_range: "- 1 \<le> decode_char (char_val sg c)" "decode_char (char_val sg c) < 64"
  using char_val_bounds [of sg c] by (auto simp: decode_char_cases)


subsection \<open>Groups of four characters\<close>

lemma and_mod: "x AND 63 = x mod 64" "x AND 255 = x mod 256" for x :: int
proof -
  have "x AND (2 ^ 6 - 1) = x mod 2 ^ 6" "x AND (2 ^ 8 - 1) = x mod 2 ^ 8"
    by (simp_all only: take_bit_eq_mask [symmetric] mask_eq_exp_minus_1 [symmetric] take_bit_eq_mod)
  then show "x AND 63 = x mod 64" "x AND 255 = x mod 256"
    by simp_all
qed

lemma or_push:
  fixes x y :: int
  assumes "0 \<le> y" "y < 2 ^ k"
  shows "push_bit k x OR y = x * 2 ^ k + y"
proof -
  have y: "take_bit k y = y"
    using assms by (simp add: take_bit_int_eq_self)
  have "push_bit k x AND take_bit k y = 0"
    by (rule bit_eqI) (auto simp: bit_simps)
  then have "push_bit k x + y = push_bit k x OR y"
    by (intro disjunctive_add_eq_or) (simp add: y)
  then show ?thesis
    by (simp add: push_bit_eq_mult)
qed

lemma or_push_byte:
  "0 \<le> y \<Longrightarrow> y < 64 \<Longrightarrow> push_bit 6 x OR y = x * 64 + y"
  "0 \<le> y \<Longrightarrow> y < 16 \<Longrightarrow> push_bit 4 x OR y = x * 16 + y"
  "0 \<le> y \<Longrightarrow> y < 4 \<Longrightarrow> push_bit 2 x OR y = x * 4 + y" for x y :: int
  using or_push [of y 6 x] or_push [of y 4 x] or_push [of y 2 x] by simp_all

lemma mod_split:
  fixes x y :: int
  shows "0 \<le> y \<Longrightarrow> y < 16 \<Longrightarrow> (x * 16 + y) mod 64 = x mod 4 * 16 + y"
    and "0 \<le> y \<Longrightarrow> y < 4 \<Longrightarrow> (x * 4 + y) mod 64 = x mod 16 * 4 + y"
proof -
  have "x * 16 + y = (x mod 4 * 16 + y) + 64 * (x div 4)" "x * 4 + y = (x mod 16 * 4 + y) + 64 * (x div 16)"
    using div_mult_mod_eq [of x 4] div_mult_mod_eq [of x 16] by linarith+
  then have "(x * 16 + y) mod 64 = (x mod 4 * 16 + y) mod 64" "(x * 4 + y) mod 64 = (x mod 16 * 4 + y) mod 64"
    by (metis mod_mult_self2)+
  moreover have "0 \<le> x mod 4" "x mod 4 < 4" "0 \<le> x mod 16" "x mod 16 < 16"
    by simp_all
  ultimately show "0 \<le> y \<Longrightarrow> y < 16 \<Longrightarrow> (x * 16 + y) mod 64 = x mod 4 * 16 + y"
    and "0 \<le> y \<Longrightarrow> y < 4 \<Longrightarrow> (x * 4 + y) mod 64 = x mod 16 * 4 + y"
    by (simp_all add: mod_pos_pos_trivial)
qed

lemma digit: "0 \<le> r \<Longrightarrow> r < k \<Longrightarrow> (q * k + r) div k = q" "0 \<le> r \<Longrightarrow> r < k \<Longrightarrow> (q * k + r) mod k = r"
  for q r k :: int
  by simp_all

lemma byte_bounds: "0 \<le> uint b" "uint b < 256" for b :: u8
  using uint_lt2p [of b] by simp_all

lemma uint_byte: "0 \<le> x \<Longrightarrow> x < 256 \<Longrightarrow> uint (word_of_int x :: u8) = x"
  by (simp add: uint_word_of_int mod_pos_pos_trivial)

lemma encode_base64_pieces:
  "encode_base64 a b c = map encode_char
     [uint a div 4, uint a mod 4 * 16 + uint b div 16, uint b mod 16 * 4 + uint c div 64, uint c mod 64]"
proof -
  have bnd: "0 \<le> uint b div 16" "uint b div 16 < 16" "0 \<le> uint c div 64" "uint c div 64 < 4"
    using byte_bounds [of b] byte_bounds [of c] by (auto simp: pos_imp_zdiv_nonneg_iff)
  have "(push_bit 4 (uint a) OR drop_bit 4 (uint b)) AND 63 = uint a mod 4 * 16 + uint b div 16"
    using bnd by (simp add: and_mod or_push_byte mod_split drop_bit_eq_div)
  moreover have "(push_bit 2 (uint b) OR drop_bit 6 (uint c)) AND 63 = uint b mod 16 * 4 + uint c div 64"
    using bnd by (simp add: and_mod or_push_byte mod_split drop_bit_eq_div)
  moreover have "uint a div 4 mod 64 = uint a div 4"
    using byte_bounds [of a] by (intro mod_pos_pos_trivial) (auto simp: pos_imp_zdiv_nonneg_iff)
  then have "drop_bit 2 (uint a) AND 63 = uint a div 4"
    by (simp only: and_mod drop_bit_eq_div) simp
  ultimately show ?thesis
    by (simp only: encode_base64_def and_mod)
qed

definition piece :: "bool \<Rightarrow> u8 \<Rightarrow> int" where
  "piece sg c = decode_char (char_val sg c)"

lemma decode_base64_value:
  assumes "0 \<le> piece sg c0" "0 \<le> piece sg c1" "0 \<le> piece sg c2" "0 \<le> piece sg c3"
  shows "decode_base64 sg c0 c1 c2 c3 =
    ((piece sg c0 * 64 + piece sg c1) * 64 + piece sg c2) * 64 + piece sg c3"
proof -
  have lt: "piece sg c < 64" for c
    using decode_char_range(2) by (simp add: piece_def)
  have "push_bit 18 v OR push_bit 12 w = push_bit 12 (push_bit 6 v OR w)"
    and "push_bit 12 v OR push_bit 6 w = push_bit 6 (push_bit 6 v OR w)" for v w :: int
    by (simp_all add: push_bit_or push_bit_push_bit)
  then have "decode_base64 sg c0 c1 c2 c3 =
      push_bit 6 (push_bit 6 (push_bit 6 (piece sg c0) OR piece sg c1) OR piece sg c2) OR piece sg c3"
    by (simp only: decode_base64_def piece_def [symmetric] or.left_neutral push_bit_0_id id_apply)
  then show ?thesis
    using assms lt by (simp only: or_push_byte)
qed

lemma decode_base64_neg:
  "decode_base64 sg c0 c1 c2 c3 < 0 \<longleftrightarrow>
     piece sg c0 < 0 \<or> piece sg c1 < 0 \<or> piece sg c2 < 0 \<or> piece sg c3 < 0"
  by (simp add: decode_base64_def piece_def not_le [symmetric] or_nonnegative_int_iff)

lemma sign_bit_decode: "sign_bit (decode_base64 sg c0 c1 c2 c3) = (if decode_base64 sg c0 c1 c2 c3 < 0 then 1 else 0)"
proof -
  let ?v = "decode_base64 sg c0 c1 c2 c3"
  have "drop_bit 31 (push_bit k (piece sg c)) = (if piece sg c < 0 then - 1 else 0)" if "k \<le> 18" for k c
  proof -
    have "(2 :: int) ^ k \<le> 262144"
      using that power_increasing [of k 18 "2 :: int"] by simp
    moreover have "- (2 ^ k) \<le> piece sg c * 2 ^ k" "piece sg c * 2 ^ k \<le> 63 * 2 ^ k"
      using decode_char_range [of sg c] mult_right_mono [of "- 1" "piece sg c" "2 ^ k"]
        mult_right_mono [of "piece sg c" 63 "2 ^ k"] by (auto simp: piece_def)
    ultimately have "- 2147483648 \<le> piece sg c * 2 ^ k" "piece sg c * 2 ^ k < 2147483648"
      by linarith+
    then show ?thesis
      using drop_sign [of 31 "piece sg c * 2 ^ k"] by (simp add: push_bit_eq_mult mult_less_0_iff)
  qed
  from this [of 18 c0] this [of 12 c1] this [of 6 c2] this [of 0 c3]
  have "drop_bit 31 ?v = (if ?v < 0 then - 1 else 0)"
    unfolding decode_base64_neg by (simp add: decode_base64_def piece_def)
  then show ?thesis
    by (simp add: sign_bit_def drop_bit_take_bit)
qed


lemma ret_ok_iff: "ret_ok ret \<longleftrightarrow> ret = 0"
proof -
  have "1 \<le> uint ret" if "ret \<noteq> 0"
    using that byte_bounds(1) [of ret] uint_0_iff [of ret] by linarith
  then have "drop_bit 8 (uint ret - 1) = (if ret = 0 then - 1 else 0)"
    using byte_bounds [of ret] drop8 [of "uint ret - 1"] by (cases "ret = 0") auto
  then show ?thesis
    by (simp add: ret_ok_def)
qed

lemma piece_encode: "0 \<le> x \<Longrightarrow> x < 64 \<Longrightarrow> piece sg (encode_char x) = x"
  by (simp add: piece_def decode_encode_char)

lemma encode_piece: "0 \<le> piece sg c \<Longrightarrow> encode_char (piece sg c) = c"
  by (simp add: piece_def encode_decode_char)

text \<open>The value of a valid group, as bytes.\<close>

lemma group_bytes:
  fixes v :: int
  assumes "v = (a * 256 + b) * 256 + c" "0 \<le> b" "b < 256" "0 \<le> c" "c < 256" "0 \<le> a" "a < 256"
  shows "drop_bit 16 v AND 0xFF = a" "drop_bit 8 v AND 0xFF = b" "v AND 0xFF = c"
proof -
  have q: "v div 256 = a * 256 + b" "v mod 256 = c"
    unfolding assms(1) using assms(4,5) by (rule digit)+
  have "v div (256 * 256) = v div 256 div 256"
    by (rule zdiv_zmult2_eq) simp
  then have "v div 65536 = a"
    using q(1) digit(1) [OF assms(2,3)] by simp
  moreover have "(a * 256 + b) mod 256 = b"
    by (rule digit) (rule assms)+
  ultimately show "drop_bit 16 v AND 0xFF = a" "drop_bit 8 v AND 0xFF = b" "v AND 0xFF = c"
    using assms(6,7) q by (simp_all add: drop_bit_eq_div and_mod)
qed

lemma two_digits:
  fixes q r k n :: int
  assumes "0 \<le> q" "q < n" "0 \<le> r" "r < k"
  shows "0 \<le> q * k + r" "q * k + r < n * k"
proof -
  show "0 \<le> q * k + r"
    using assms by simp
  have "q * k + r < (q + 1) * k"
    using assms by (simp add: distrib_right)
  also have "\<dots> \<le> n * k"
    using assms by (intro mult_right_mono) simp_all
  finally show "q * k + r < n * k" .
qed

lemma regroup:
  fixes a b c p0 p1 p2 p3 q1 q2 r1 r2 :: int
  shows "a = qa * 4 + ra \<Longrightarrow> b = qb * 16 + rb \<Longrightarrow> c = qc * 64 + rc \<Longrightarrow>
     ((qa * 64 + (ra * 16 + qb)) * 64 + (rb * 4 + qc)) * 64 + rc = (a * 256 + b) * 256 + c"
    and "p1 = q1 * 16 + r1 \<Longrightarrow> p2 = q2 * 4 + r2 \<Longrightarrow>
     ((p0 * 64 + p1) * 64 + p2) * 64 + p3 = ((p0 * 4 + q1) * 256 + (r1 * 16 + q2)) * 256 + (r2 * 64 + p3)"
  by simp_all

lemma decode_encoded_group:
  assumes "encode_base64 a b c = [c0, c1, c2, c3]"
  shows "decode_base64 sg c0 c1 c2 c3 = (uint a * 256 + uint b) * 256 + uint c"
proof -
  have parts: "0 \<le> uint a div 4" "uint a div 4 < 64" "0 \<le> uint b div 16" "uint b div 16 < 16"
    "0 \<le> uint c div 64" "uint c div 64 < 4"
    using byte_bounds [of a] byte_bounds [of b] byte_bounds [of c] by (auto simp: pos_imp_zdiv_nonneg_iff)
  have rests: "0 \<le> uint a mod 4" "uint a mod 4 < 4" "0 \<le> uint b mod 16" "uint b mod 16 < 16"
    "0 \<le> uint c mod 64" "uint c mod 64 < 64"
    by simp_all
  note bnd = two_digits [OF rests(1,2) parts(3,4), simplified] two_digits [OF rests(3,4) parts(5,6), simplified]
  have pieces: "piece sg c0 = uint a div 4" "piece sg c1 = uint a mod 4 * 16 + uint b div 16"
    "piece sg c2 = uint b mod 16 * 4 + uint c div 64" "piece sg c3 = uint c mod 64"
    using assms piece_encode [OF parts(1,2)] piece_encode [OF bnd(1,2)] piece_encode [OF bnd(3,4)]
      piece_encode [OF rests(5,6)]
    by (simp_all only: encode_base64_pieces list.map list.inject)
  have "decode_base64 sg c0 c1 c2 c3 =
      ((piece sg c0 * 64 + piece sg c1) * 64 + piece sg c2) * 64 + piece sg c3"
    by (rule decode_base64_value) (simp_all only: pieces parts(1) bnd(1,3) rests(5))
  then show ?thesis
    by (simp only: pieces regroup(1) [OF div_mult_mod_eq [symmetric] div_mult_mod_eq [symmetric] div_mult_mod_eq [symmetric]])
qed

lemma encode_decoded_group:
  assumes "0 \<le> decode_base64 sg c0 c1 c2 c3"
  defines "v \<equiv> decode_base64 sg c0 c1 c2 c3"
  shows "encode_base64 (word_of_int (drop_bit 16 v AND 0xFF)) (word_of_int (drop_bit 8 v AND 0xFF))
           (word_of_int (v AND 0xFF)) = [c0, c1, c2, c3]"
proof -
  have nn: "0 \<le> piece sg c0" "0 \<le> piece sg c1" "0 \<le> piece sg c2" "0 \<le> piece sg c3"
    using assms(1) decode_base64_neg [of sg c0 c1 c2 c3] by auto
  have lt: "piece sg c0 < 64" "piece sg c1 < 64" "piece sg c2 < 64" "piece sg c3 < 64"
    using decode_char_range by (auto simp: piece_def)
  let ?p0 = "piece sg c0" and ?p1 = "piece sg c1" and ?p2 = "piece sg c2" and ?p3 = "piece sg c3"
  let ?a = "?p0 * 4 + ?p1 div 16" and ?b = "?p1 mod 16 * 16 + ?p2 div 4" and ?c = "?p2 mod 4 * 64 + ?p3"
  have parts: "0 \<le> ?p1 div 16" "?p1 div 16 < 4" "0 \<le> ?p2 div 4" "?p2 div 4 < 16"
    using nn lt by (auto simp: pos_imp_zdiv_nonneg_iff)
  have rests: "0 \<le> ?p1 mod 16" "?p1 mod 16 < 16" "0 \<le> ?p2 mod 4" "?p2 mod 4 < 4"
    by simp_all
  note bnd = two_digits [OF nn(1) lt(1) parts(1,2), simplified] two_digits [OF rests(1,2) parts(3,4), simplified]
    two_digits [OF rests(3,4) nn(4) lt(4), simplified]
  have "v = (?a * 256 + ?b) * 256 + ?c"
    unfolding v_def decode_base64_value [OF nn]
    by (rule regroup(2)) (rule div_mult_mod_eq [symmetric])+
  note bytes = group_bytes [OF this bnd(3-6) bnd(1,2)]
  have bytes_val: "uint (word_of_int ?a :: u8) = ?a" "uint (word_of_int ?b :: u8) = ?b" "uint (word_of_int ?c :: u8) = ?c"
    by (rule uint_byte; rule bnd)+
  have "?a div 4 = ?p0" "?a mod 4 * 16 + ?b div 16 = ?p1" "?b mod 16 * 4 + ?c div 64 = ?p2" "?c mod 64 = ?p3"
    by (simp_all only: digit [OF parts(1,2)] digit [OF parts(3,4)] digit [OF nn(4) lt(4)] div_mult_mod_eq)
  then show ?thesis
    by (simp only: bytes encode_base64_pieces bytes_val list.map encode_piece nn)
qed


subsection \<open>Whole keys in base 64\<close>

lemma encode_base64_four: "\<exists>c0 c1 c2 c3. encode_base64 a b c = [c0, c1, c2, c3]"
  by (simp add: encode_base64_pieces)

lemma encode_groups_length: "length bs mod 3 = 2 \<Longrightarrow> length (encode_groups bs) = (length bs + 2) div 3 * 4"
proof (induction bs rule: encode_groups.induct)
  case (1 a b c bs)
  then have "length (encode_groups bs) = (length bs + 2) div 3 * 4"
    by simp
  moreover have "(length (a # b # c # bs) + 2) div 3 = Suc ((length bs + 2) div 3)"
    by simp
  ultimately show ?case
    by (simp only: encode_groups.simps encode_base64_pieces) simp
qed (auto simp: encode_base64_pieces)

lemma encode_groups_last: "length bs mod 3 = 2 \<Longrightarrow> encode_groups bs \<noteq> [] \<and> last (encode_groups bs) = 0x3D"
  by (induction bs rule: encode_groups.induct) (auto simp: encode_base64_pieces)

lemma piece_A: "piece sg 0x41 = 0"
  using piece_encode [of 0 sg] by (simp add: encode_char_cases)

lemma encode_char_0: "encode_char 0 = 0x41"
  by (simp add: encode_char_cases)

lemma sign_bit_valid: "0 \<le> decode_base64 sg c0 c1 c2 c3 \<Longrightarrow> sign_bit (decode_base64 sg c0 c1 c2 c3) = 0"
  by (simp add: sign_bit_decode)

lemma decode_groups_step:
  "cs \<noteq> [] \<Longrightarrow> decode_groups sg (c0 # c1 # c2 # c3 # cs) ret =
     (let v = decode_base64 sg c0 c1 c2 c3;
          (ret', bs) = decode_groups sg cs (ret OR sign_bit v)
      in (ret', word_of_int (drop_bit 16 v AND 0xFF) # word_of_int (drop_bit 8 v AND 0xFF) #
                word_of_int (v AND 0xFF) # bs))"
  by (cases cs) simp_all

lemma decode_encoded_bytes:
  fixes sg :: bool
  assumes "encode_base64 a b c = [c0, c1, c2, c3]"
  defines "v \<equiv> decode_base64 sg c0 c1 c2 c3"
  shows "0 \<le> v" "drop_bit 16 v AND 0xFF = uint a" "drop_bit 8 v AND 0xFF = uint b" "v AND 0xFF = uint c"
proof -
  have v: "v = (uint a * 256 + uint b) * 256 + uint c"
    unfolding v_def by (rule decode_encoded_group [OF assms(1)])
  show "drop_bit 16 v AND 0xFF = uint a" "drop_bit 8 v AND 0xFF = uint b" "v AND 0xFF = uint c"
    by (rule group_bytes [OF v]; rule byte_bounds)+
  show "0 \<le> v"
    unfolding v by simp
qed

lemma decode_encode_groups:
  "length key mod 3 = 2 \<Longrightarrow> decode_groups sg (encode_groups key) ret = (ret, key)"
proof (induction key arbitrary: ret rule: encode_groups.induct)
  case (1 a b c bs)
  obtain c0 c1 c2 c3 where e: "encode_base64 a b c = [c0, c1, c2, c3]"
    using encode_base64_four by blast
  have len: "length bs mod 3 = 2"
    using "1.prems" by (simp add: mod_Suc split: if_splits)
  note d = decode_encoded_bytes [OF e, of sg]
  show ?case
    using encode_groups_last [OF len] "1.IH" [OF len] d sign_bit_valid [OF d(1)]
    by (simp add: e decode_groups_step Let_def)
next
  case (2 a b)
  obtain c0 c1 c2 c3 where e: "encode_base64 a b 0 = [c0, c1, c2, c3]"
    using encode_base64_four by blast
  then have "c3 = 0x41"
    by (simp add: encode_base64_pieces encode_char_0)
  then show ?case
    using decode_encoded_bytes [OF e, of sg] sign_bit_valid [of sg c0 c1 c2 c3] by (simp add: e Let_def)
qed auto

lemma key_base64_reads:
  assumes "length key = WG_KEY_LEN"
  shows "length (encode_groups key) = WG_KEY_LEN_BASE64 - 1" "key_from_base64 sg (encode_groups key) old = (True, key)"
proof -
  have m: "length key mod 3 = 2"
    using assms by (simp add: WG_KEY_LEN_def)
  then have len: "length (encode_groups key) = 44"
    using assms by (simp add: encode_groups_length WG_KEY_LEN_def)
  then show "length (encode_groups key) = WG_KEY_LEN_BASE64 - 1"
    by (simp add: WG_KEY_LEN_BASE64_def WG_KEY_LEN_def)
  have "encode_groups key ! 43 = 0x3D"
    using encode_groups_last [OF m] len last_conv_nth [of "encode_groups key"] by simp
  then show "key_from_base64 sg (encode_groups key) old = (True, key)"
    using decode_encode_groups [OF m] len
    by (simp add: key_from_base64_def WG_KEY_LEN_BASE64_def WG_KEY_LEN_def ret_ok_iff)
qed

text \<open>All characters written are printable and none of them is special in a configuration file.\<close>

lemma encode_char_range:
  assumes "0 \<le> x" "x < 64"
  shows "43 \<le> uint (encode_char x)" "uint (encode_char x) \<le> 122"
  using assms by (auto simp: encode_char_cases uint_byte)

lemma encode_base64_range: "y \<in> set (encode_base64 a b c) \<Longrightarrow> 43 \<le> uint y \<and> uint y \<le> 122"
  by (auto simp: encode_base64_def and_mod intro!: encode_char_range)

lemma encode_groups_range: "y \<in> set (encode_groups bs) \<Longrightarrow> 43 \<le> uint y \<and> uint y \<le> 122"
proof (induction bs rule: encode_groups.induct)
  case (2 a b)
  then show ?case
    using encode_base64_range [of y a b 0] by (auto dest: in_set_takeD)
qed (auto dest: encode_base64_range)

text \<open>
  C26. A key written in base 64 reads back as the same key, whether or not the platform's \<^verbatim>\<open>char\<close> is
  signed.
\<close>

theorem key_base64_roundtrip:
  assumes "length key = WG_KEY_LEN"
  shows "length (key_to_base64 key) = WG_KEY_LEN_BASE64 \<and>
    key_from_base64 sg (butlast (key_to_base64 key)) old = (True, key)"
  using key_base64_reads [OF assms] by (simp add: key_to_base64_def WG_KEY_LEN_BASE64_def)

theorem key_base64_roundtrip_witness:
  "key_from_base64 True (butlast (key_to_base64 (replicate 32 7))) [] = (True, replicate 32 7)"
  using key_base64_roundtrip [of "replicate 32 7" True "[]"] by (simp add: WG_KEY_LEN_def)

lemma decode_groups_canonical:
  "length s mod 4 = 0 \<Longrightarrow> s \<noteq> [] \<Longrightarrow> last s = 0x3D \<Longrightarrow> decode_groups sg s ret = (0, bs) \<Longrightarrow>
   ret = 0 \<and> encode_groups bs = s"
proof (induction sg s ret arbitrary: bs rule: decode_groups.induct)
  case (1 sg c0 c1 c2 c3 ret)
  let ?v = "decode_base64 sg c0 c1 c2 0x41"
  have z: "ret = 0" "sign_bit ?v = 0" "word_of_int (?v AND 0xFF) = (0 :: u8)"
    and bs: "bs = [word_of_int (drop_bit 16 ?v AND 0xFF), word_of_int (drop_bit 8 ?v AND 0xFF)]"
    using "1.prems" by (auto simp: Let_def or_eq_0_iff)
  then have "0 \<le> ?v"
    by (simp add: sign_bit_decode split: if_splits)
  from encode_decoded_group [OF this] show ?case
    using z bs "1.prems" by simp
next
  case (2 sg c0 c1 c2 c3 x xs ret)
  let ?v = "decode_base64 sg c0 c1 c2 c3"
  obtain bs' where rec: "decode_groups sg (x # xs) (ret OR sign_bit ?v) = (0, bs')"
    and bs: "bs = word_of_int (drop_bit 16 ?v AND 0xFF) # word_of_int (drop_bit 8 ?v AND 0xFF) #
      word_of_int (?v AND 0xFF) # bs'"
    using "2.prems" by (auto simp: Let_def split: prod.splits)
  have "length (x # xs) mod 4 = 0" "last (x # xs) = 0x3D"
    using "2.prems" by (simp_all add: mod_Suc split: if_splits)
  then have "ret OR sign_bit ?v = 0" "encode_groups bs' = x # xs"
    using "2.IH" [of ?v, OF refl _ _ _ rec] by auto
  moreover from this have "0 \<le> ?v" "ret = 0"
    by (auto simp: sign_bit_decode or_eq_0_iff split: if_splits)
  ultimately show ?case
    using encode_decoded_group [of sg c0 c1 c2 c3] bs by simp
qed simp_all

lemma decode_groups_length:
  "length s mod 4 = 0 \<Longrightarrow> s \<noteq> [] \<Longrightarrow> length (snd (decode_groups sg s ret)) + 1 = length s div 4 * 3"
proof (induction sg s ret rule: decode_groups.induct)
  case (2 sg c0 c1 c2 c3 x xs ret)
  have "length (x # xs) mod 4 = 0"
    using "2.prems" by (simp add: mod_Suc split: if_splits)
  then have "length (snd (decode_groups sg (x # xs) (ret OR sign_bit (decode_base64 sg c0 c1 c2 c3)))) + 1 =
      length (x # xs) div 4 * 3"
    using "2.IH" [OF refl] by simp
  moreover have "length (c0 # c1 # c2 # c3 # x # xs) div 4 = Suc (length (x # xs) div 4)"
    by simp
  ultimately show ?case
    by (simp only: decode_groups.simps Let_def split_beta snd_conv) simp
qed (simp_all add: Let_def)

lemma key_base64_only:
  assumes "key_from_base64 sg base64 old = (True, key)"
  shows "encode_groups key = base64 \<and> length key = WG_KEY_LEN"
proof -
  have len: "length base64 = 44" "base64 ! 43 = 0x3D" and d: "decode_groups sg base64 0 = (0, key)"
    using assms
    by (auto simp: key_from_base64_def WG_KEY_LEN_BASE64_def WG_KEY_LEN_def ret_ok_iff
        split: if_splits prod.splits)
  then have "base64 \<noteq> []"
    by auto
  then have "last base64 = 0x3D"
    using len last_conv_nth [of base64] by simp
  with \<open>base64 \<noteq> []\<close> have e: "encode_groups key = base64"
    using decode_groups_canonical [OF _ _ _ d] len by simp
  have "length key = 32"
    using decode_groups_length [of base64 sg 0] len d \<open>base64 \<noteq> []\<close> by simp
  then show ?thesis
    using e by (simp add: WG_KEY_LEN_def)
qed

text \<open>
  C27. The decoder accepts nothing but what the encoder writes: a string it takes is the encoding of
  the key it returns, so every key has exactly one accepted text.
\<close>

theorem key_base64_canonical:
  assumes "key_from_base64 sg base64 old = (True, key)"
  shows "key_to_base64 key = base64 @ [0] \<and> length key = WG_KEY_LEN"
  using key_base64_only [OF assms] by (simp add: key_to_base64_def)

theorem key_base64_canonical_witness:
  "\<exists>key. key_from_base64 False (replicate 42 0x41 @ [0x41, 0x3D]) [] = (True, key) \<and>
     key_to_base64 key = replicate 42 0x41 @ [0x41, 0x3D, 0]"
proof -
  have "key_from_base64 False (replicate 42 0x41 @ [0x41, 0x3D]) [] = (True, replicate 32 0)"
    by code_simp
  from key_base64_canonical [OF this] this show ?thesis
    by auto
qed


subsection \<open>Whole keys in hexadecimal\<close>

text \<open>What a hexadecimal digit is, in either case of letters.\<close>

definition hex_spec :: "nat \<Rightarrow> nat option" where
  "hex_spec n =
     (if 48 \<le> n \<and> n \<le> 57 then Some (n - 48) else if 65 \<le> n \<and> n \<le> 70 then Some (n - 55)
      else if 97 \<le> n \<and> n \<le> 102 then Some (n - 87) else None)"

lemma hex_value_table:
  "list_all (\<lambda>n. hex_value (word_of_nat n) =
     (case hex_spec n of None \<Rightarrow> (255, 0) | Some v \<Rightarrow> (0, word_of_nat v))) [0..<256]"
  by code_simp

lemma hex_digit_table:
  "list_all (\<lambda>n. hex_value (hex_digit (word_of_nat n)) = (0, word_of_nat n)) [0..<16]"
  by code_simp


lemma hex_value_spec:
  "hex_value c = (case hex_spec (unat c) of None \<Rightarrow> (255, 0) | Some v \<Rightarrow> (0, word_of_nat v))"
proof -
  have "unat c < 2 ^ 8"
    using unsigned_less [of c, where 'a = nat] by simp
  then have "unat c \<in> set [0..<256]"
    by simp
  then show ?thesis
    using hex_value_table [unfolded list_all_iff, rule_format, of "unat c"] by simp
qed

lemma hex_value_digit: "unat x < 16 \<Longrightarrow> hex_value (hex_digit x) = (0, word_of_nat (unat x))"
  using hex_digit_table [unfolded list_all_iff, rule_format, of "unat x"] by simp

lemma hex_nibbles: "hex_value (hex_digit (drop_bit 4 (ucast b))) = (0, drop_bit 4 b)"
  "hex_value (hex_digit (ucast b AND 0xF)) = (0, b AND 0xF)" for b :: u8
proof -
  have m: "(15 :: u32) = mask 4" "(15 :: u8) = mask 4"
    by (simp_all add: mask_eq_exp_minus_1)
  have b: "unat b < 2 ^ 8"
    using unsigned_less [of b, where 'a = nat] by simp
  then have u: "unat (ucast b :: u32) = unat b"
    by (simp add: unsigned_ucast_eq take_bit_nat_eq_self)
  have hi: "unat (drop_bit 4 (ucast b :: u32)) = unat (drop_bit 4 b)"
    by (simp only: unat_drop_bit_eq u)
  have lo: "unat (ucast b AND 0xF :: u32) = unat (b AND 0xF)"
    unfolding m take_bit_eq_mask [symmetric]
    by (simp only: unsigned_take_bit_eq u)
  have "unat (drop_bit 4 b) < 16"
    using b unfolding unat_drop_bit_eq by (simp add: drop_bit_eq_div)
  then show "hex_value (hex_digit (drop_bit 4 (ucast b))) = (0, drop_bit 4 b)"
    using hex_value_digit [of "drop_bit 4 (ucast b)"] hi by simp
  have "unat (b AND 0xF) < 16"
    unfolding m take_bit_eq_mask [symmetric]
    by (simp only: unsigned_take_bit_eq) (simp add: take_bit_eq_mod)
  then show "hex_value (hex_digit (ucast b AND 0xF)) = (0, b AND 0xF)"
    using hex_value_digit [of "ucast b AND 0xF"] lo by simp
qed

lemma join_nibbles: "drop_bit 4 b * 16 OR (b AND 0xF) = b" for b :: u8
proof -
  have "drop_bit 4 b * 16 = push_bit 4 (drop_bit 4 b)"
    by (simp only: push_bit_eq_mult) simp
  moreover have "(15 :: u8) = mask 4"
    by (simp add: mask_eq_exp_minus_1)
  ultimately show ?thesis
    by (simp only: take_bit_eq_mask [symmetric]) (rule bit_eqI, auto simp: bit_simps)
qed

lemma unhex_encoded:
  "unhex_loop (concat (map (\<lambda>k. [hex_digit (drop_bit 4 (ucast k)), hex_digit (ucast k AND 0xF)]) key)) ret = (ret, key)"
  by (induction key arbitrary: ret) (simp_all add: hex_nibbles join_nibbles Let_def)

lemma unhex_loop_ok:
  "fst (unhex_loop cs ret) = 0 \<longleftrightarrow>
     ret = 0 \<and> (\<forall>c \<in> set (take (length cs div 2 * 2) cs). hex_spec (unat c) \<noteq> None)"
proof (induction cs ret rule: unhex_loop.induct)
  case (1 c d cs ret)
  show ?case
  proof (cases "hex_value c"; cases "hex_value d")
    fix e1 v1 e2 v2
    assume h: "hex_value c = (e1, v1)" "hex_value d = (e2, v2)"
    have "e1 = 0 \<longleftrightarrow> hex_spec (unat c) \<noteq> None" "e2 = 0 \<longleftrightarrow> hex_spec (unat d) \<noteq> None"
      using h hex_value_spec [of c] hex_value_spec [of d] by (auto split: option.splits)
    then show ?thesis
      using "1.IH" [OF h(1) [symmetric] refl refl h(2) [symmetric] refl] h
      by (auto simp: Let_def split_beta or_eq_0_iff)
  qed
qed auto

text \<open>
  C28. Hexadecimal keys: the written form of a key reads back as that key, and exactly the strings of
  64 hexadecimal digits, in either case, are accepted.
\<close>

theorem key_hex_correct:
  "(length key = WG_KEY_LEN \<longrightarrow> key_from_hex (butlast (key_to_hex key)) old = (True, key)) \<and>
   (fst (key_from_hex hex old) \<longleftrightarrow> length hex = 2 * WG_KEY_LEN \<and> (\<forall>c \<in> set hex. hex_spec (unat c) \<noteq> None))"
proof
  have "length (concat (map (\<lambda>k. [hex_digit (drop_bit 4 (ucast k)), hex_digit (ucast k AND 0xF)]) (key :: u8 list))) = 2 * length key"
    by (induction key) simp_all
  then show "length key = WG_KEY_LEN \<longrightarrow> key_from_hex (butlast (key_to_hex key)) old = (True, key)"
    by (simp add: key_from_hex_def key_to_hex_def unhex_encoded WG_KEY_LEN_HEX_def WG_KEY_LEN_def ret_ok_iff)
  show "fst (key_from_hex hex old) \<longleftrightarrow> length hex = 2 * WG_KEY_LEN \<and> (\<forall>c \<in> set hex. hex_spec (unat c) \<noteq> None)"
    using unhex_loop_ok [of hex 0]
    by (auto simp: key_from_hex_def WG_KEY_LEN_HEX_def WG_KEY_LEN_def ret_ok_iff split: prod.splits)
qed

theorem key_hex_correct_witness:
  "key_from_hex (butlast (key_to_hex (replicate 32 0xAB))) [] = (True, replicate 32 0xAB) \<and>
   \<not> fst (key_from_hex (replicate 64 0x67) [])"
  using key_hex_correct [of "replicate 32 0xAB" "[]" "replicate 64 0x67"]
  by (simp add: WG_KEY_LEN_def hex_spec_def)

lemma key_is_zero_iff: "key_is_zero key \<longleftrightarrow> (\<forall>k \<in> set key. k = 0)"
proof -
  have "foldl (OR) acc key = 0 \<longleftrightarrow> acc = 0 \<and> (\<forall>k \<in> set key. k = 0)" for acc :: u8
    by (induction key arbitrary: acc) (auto simp: or_eq_0_iff)
  then show ?thesis
    by (simp add: key_is_zero_def ret_ok_iff)
qed

end
