(* ===== verification/Wg_Config.thy ===== *)
theory Wg_Config
  imports Wg_Encoding
begin

text \<open>
  Reading WireGuard configurations (\<^verbatim>\<open>wireguard-tools/src/config.c\<close>, with \<^verbatim>\<open>ctype.h\<close> and the data of
  \<^verbatim>\<open>containers.h\<close>): lines of a configuration file and words of a command line become a device
  description.

  The chains of peers and of allowed addresses are lists in the order of their links; the pointers
  to the last peer and to the last address are the ends of these lists, which is where the code appends.
  What lies outside the program is a record of functions: the resolver, the address parser of the C
  library, the environment variable and key files; so are the signedness of \<^verbatim>\<open>char\<close> and the width of
  \<^verbatim>\<open>unsigned long\<close>. A call that does not return, because the process exits or because it asks the
  resolver for ever, is \<open>None\<close>. Failing allocations and messages are left out.
\<close>

subsection \<open>Characters\<close>

definition char_is_space :: "int \<Rightarrow> bool" where
  "char_is_space c =
     (let d = (c - 9) mod 256
      in (drop_bit (nat (d AND 31)) 0x80001F AND drop_bit (nat (drop_bit 5 d)) 1) \<noteq> (0 :: int))"

definition char_is_digit :: "int \<Rightarrow> bool" where
  "char_is_digit c \<longleftrightarrow> drop_bit 31 (word_of_int ((48 - 1 - c) AND (c - (57 + 1))) :: u32) \<noteq> 0"

definition char_is_alpha :: "int \<Rightarrow> bool" where
  "char_is_alpha c \<longleftrightarrow>
     drop_bit 31 (word_of_int ((97 - 1 - (c OR 32)) AND ((c OR 32) - (122 + 1))) :: u32) \<noteq> 0"

definition char_int :: "bool \<Rightarrow> char \<Rightarrow> int" where
  "char_int sg c = char_val sg (of_char c)"

definition to_lower :: "char \<Rightarrow> char" where
  "to_lower c = (let n = of_char c :: nat in if 65 \<le> n \<and> n \<le> 90 then char_of (n + 32) else c)"

definition strcasecmp :: "string \<Rightarrow> string \<Rightarrow> bool" where
  "strcasecmp s t \<longleftrightarrow> map to_lower s \<noteq> map to_lower t"

definition strncasecmp :: "string \<Rightarrow> string \<Rightarrow> nat \<Rightarrow> bool" where
  "strncasecmp s t n \<longleftrightarrow> map to_lower (take n s) \<noteq> map to_lower (take n t)"

fun strip_0x :: "string \<Rightarrow> string" where
  "strip_0x (CHR ''0'' # x # c # cs) =
     (if (x = CHR ''x'' \<or> x = CHR ''X'') \<and> is_digit 16 c then c # cs else CHR ''0'' # x # c # cs)"
| "strip_0x s = s"

text \<open>\<^verbatim>\<open>strtoul\<close>: the value, saturated to the width of \<^verbatim>\<open>unsigned long\<close>, and the rest of the string.\<close>

definition strtoul :: "nat \<Rightarrow> int \<Rightarrow> string \<Rightarrow> int \<times> string" where
  "strtoul bits base s =
     (let (neg, t) = read_sign s; t1 = (if base = 16 then strip_0x t else t)
      in if takeWhile (is_digit base) t1 = [] then (0, s)
         else let v = read_digits base t1
              in (if v \<ge> 2 ^ bits then 2 ^ bits - 1 else if neg then (- v) mod 2 ^ bits else v,
                  dropWhile (is_digit base) t1))"

subsection \<open>Devices\<close>

datatype ip_addr = AF_UNSPEC | AF_INET u32 | AF_INET6 "128 word"

abbreviation (input) "WGALLOWEDIP_REMOVE_ME \<equiv> 1 :: u32"

record wgallowedip =
  addr :: ip_addr
  cidr :: u8
  aip_flags :: u32

abbreviation (input) "WGPEER_REMOVE_ME \<equiv> 1 :: u32"
abbreviation (input) "WGPEER_REPLACE_ALLOWEDIPS \<equiv> 2 :: u32"
abbreviation (input) "WGPEER_HAS_PUBLIC_KEY \<equiv> 4 :: u32"
abbreviation (input) "WGPEER_HAS_PRESHARED_KEY \<equiv> 8 :: u32"
abbreviation (input) "WGPEER_HAS_PERSISTENT_KEEPALIVE_INTERVAL \<equiv> 16 :: u32"

text \<open>A socket address with its port: none, IPv4, or IPv6 with flow information and scope.\<close>

datatype sockaddr = SA_NONE | SA_IN u32 u16 | SA_IN6 "128 word" u16 u32 u32

record wgpeer =
  peer_flags :: u32
  public_key :: "u8 list"
  preshared_key :: "u8 list"
  endpoint :: sockaddr
  persistent_keepalive_interval :: u16
  allowedips :: "wgallowedip list"

abbreviation (input) "WGDEVICE_REPLACE_PEERS \<equiv> 1 :: u32"
abbreviation (input) "WGDEVICE_HAS_PRIVATE_KEY \<equiv> 2 :: u32"
abbreviation (input) "WGDEVICE_HAS_PUBLIC_KEY \<equiv> 4 :: u32"
abbreviation (input) "WGDEVICE_HAS_LISTEN_PORT \<equiv> 8 :: u32"
abbreviation (input) "WGDEVICE_HAS_FWMARK \<equiv> 16 :: u32"

record wgdevice =
  dev_flags :: u32
  private_key :: "u8 list"
  fwmark :: u32
  listen_port :: u16
  peers :: "wgpeer list"

definition zero_key :: "u8 list" where
  "zero_key = replicate WG_KEY_LEN 0"

definition zero_peer :: wgpeer where
  "zero_peer = \<lparr>peer_flags = 0, public_key = zero_key, preshared_key = zero_key, endpoint = SA_NONE,
     persistent_keepalive_interval = 0, allowedips = []\<rparr>"

definition zero_device :: wgdevice where
  "zero_device = \<lparr>dev_flags = 0, private_key = zero_key, fwmark = 0, listen_port = 0, peers = []\<rparr>"

subsection \<open>Surroundings\<close>

text \<open>The resolver answers with an error code or with an address, which may be of another family.\<close>

datatype gai = Gai_Error int | Gai_Addr sockaddr

text \<open>A key file: it cannot be opened, or it has contents whose reading may end in an error.\<close>

datatype key_file = No_File | File string bool

record wg_env =
  char_signed :: bool
  ulong_bits :: nat
  resolve_port :: "string \<Rightarrow> gai"
  resolve_host :: "nat \<Rightarrow> string \<Rightarrow> string \<Rightarrow> gai"
  pton4 :: "string \<Rightarrow> u32 option"
  pton6 :: "string \<Rightarrow> 128 word option"
  retries_var :: "string option"
  open_key :: "string \<Rightarrow> key_file"

abbreviation is_space_char :: "wg_env \<Rightarrow> char \<Rightarrow> bool" where
  "is_space_char e c \<equiv> char_is_space (char_int (char_signed e) c)"

abbreviation is_digit_char :: "wg_env \<Rightarrow> char \<Rightarrow> bool" where
  "is_digit_char e c \<equiv> char_is_digit (char_int (char_signed e) c)"

subsection \<open>Values\<close>

definition get_value :: "string \<Rightarrow> string \<Rightarrow> string option" where
  "get_value line key =
     (if length key \<ge> length line then None
      else if strncasecmp line key (length key) then None
      else Some (drop (length key) line))"

definition parse_port :: "wg_env \<Rightarrow> u16 \<Rightarrow> u32 \<Rightarrow> string \<Rightarrow> bool \<times> u16 \<times> u32" where
  "parse_port e port flags v =
     (if v = [] then (False, port, flags)
      else (case resolve_port e v of
              Gai_Addr (SA_IN a p) \<Rightarrow> (True, p, flags OR WGDEVICE_HAS_LISTEN_PORT)
            | Gai_Addr (SA_IN6 a p f s) \<Rightarrow> (True, p, flags OR WGDEVICE_HAS_LISTEN_PORT)
            | _ \<Rightarrow> (False, port, flags)))"

text \<open>The first character of a string; the terminating zero when there is none.\<close>

definition at0 :: "string \<Rightarrow> char" where
  "at0 s = (case s of [] \<Rightarrow> CHR 0x00 | c # _ \<Rightarrow> c)"

definition parse_fwmark :: "wg_env \<Rightarrow> u32 \<Rightarrow> u32 \<Rightarrow> string \<Rightarrow> bool \<times> u32 \<times> u32" where
  "parse_fwmark e mark flags v =
     (if \<not> strcasecmp v ''off'' then (True, 0, flags OR WGDEVICE_HAS_FWMARK)
      else if \<not> is_digit_char e (at0 v) then (False, mark, flags)
      else (let base = (if length v > 2 \<and> v ! 0 = CHR ''0'' \<and> v ! 1 = CHR ''x'' then 16 else 10);
                (ret, rest) = strtoul (ulong_bits e) base v
            in if rest \<noteq> [] \<or> ret > 0xFFFFFFFF then (False, mark, flags)
               else (True, word_of_int ret, flags OR WGDEVICE_HAS_FWMARK)))"

definition parse_key :: "wg_env \<Rightarrow> u8 list \<Rightarrow> string \<Rightarrow> bool \<times> u8 list" where
  "parse_key e key v =
     (let (ok, k) = key_from_base64 (char_signed e) (map of_char v) key
      in if ok then (True, k) else (False, zero_key))"

text \<open>
  An empty file stands for the zero key. The bytes of the key are read as a string, so they end at a
  zero byte.
\<close>

definition parse_keyfile :: "wg_env \<Rightarrow> u8 list \<Rightarrow> string \<Rightarrow> bool \<times> u8 list" where
  "parse_keyfile e key path =
     (case open_key e path of
        No_File \<Rightarrow> (False, key)
      | File s err \<Rightarrow>
          (if length s < WG_KEY_LEN_BASE64 - 1
           then (if \<not> err \<and> s = [] then (True, zero_key) else (False, key))
           else if \<exists>c \<in> set (drop (WG_KEY_LEN_BASE64 - 1) s). \<not> is_space_char e c then (False, key)
           else if err then (False, key)
           else parse_key e key (c_str (take (WG_KEY_LEN_BASE64 - 1) s))))"

definition parse_ip :: "wg_env \<Rightarrow> string \<Rightarrow> bool \<times> ip_addr" where
  "parse_ip e v =
     (if CHR '':'' \<in> set v
      then (case pton6 e v of None \<Rightarrow> (False, AF_UNSPEC) | Some a \<Rightarrow> (True, AF_INET6 a))
      else (case pton4 e v of None \<Rightarrow> (False, AF_UNSPEC) | Some a \<Rightarrow> (True, AF_INET a)))"

text \<open>A variable that is no number ends the process.\<close>

definition parse_dns_retries :: "wg_env \<Rightarrow> int option" where
  "parse_dns_retries e =
     (case retries_var e of
        None \<Rightarrow> Some 15
      | Some v \<Rightarrow>
          if v = ''infinity'' then Some (- 1)
          else (let (ret, rest) = strtoul (ulong_bits e) 10 v
                in if rest \<noteq> [] \<or> ret > 2 ^ 31 - 1 then None else Some ret))"

text \<open>The host and the service of an endpoint, cut at the bracket or at the last colon.\<close>

definition split_endpoint :: "string \<Rightarrow> (string \<times> string) option" where
  "split_endpoint v =
     (if at0 v = CHR ''[''
      then (if CHR '']'' \<notin> set v then None
            else (let rest = tl (dropWhile (\<lambda>c. c \<noteq> CHR '']'') v)
                  in if at0 rest \<noteq> CHR '':'' \<or> tl rest = [] then None
                     else Some (takeWhile (\<lambda>c. c \<noteq> CHR '']'') (tl v), tl rest)))
      else (if CHR '':'' \<notin> set v then None
            else (let service = rev (takeWhile (\<lambda>c. c \<noteq> CHR '':'') (rev v));
                      host = rev (tl (dropWhile (\<lambda>c. c \<noteq> CHR '':'') (rev v)))
                  in if service = [] then None else Some (host, service))))"

definition gai_permanent :: "int \<Rightarrow> bool" where
  "gai_permanent ret \<longleftrightarrow> ret = 8 \<or> ret = 4 \<or> ret = 7"

text \<open>The resolver is asked until it answers, fails for good, or the retries are used up.\<close>

partial_function (option) resolve_loop ::
    "wg_env \<Rightarrow> string \<Rightarrow> string \<Rightarrow> nat \<Rightarrow> int \<Rightarrow> gai option" where
  "resolve_loop e host service i retries =
     (case resolve_host e i host service of
        Gai_Addr a \<Rightarrow> Some (Gai_Addr a)
      | Gai_Error ret \<Rightarrow>
          if gai_permanent ret \<or> retries = 0 then Some (Gai_Error ret)
          else resolve_loop e host service (Suc i) (if retries \<ge> 0 then retries - 1 else retries))"

definition parse_endpoint :: "wg_env \<Rightarrow> sockaddr \<Rightarrow> string \<Rightarrow> (bool \<times> sockaddr) option" where
  "parse_endpoint e ep v =
     do {
       retries \<leftarrow> parse_dns_retries e;
       if v = [] then Some (False, ep)
       else (case split_endpoint v of
               None \<Rightarrow> Some (False, ep)
             | Some (host, service) \<Rightarrow>
                 do {
                   r \<leftarrow> resolve_loop e host service 0 retries;
                   Some (case r of
                           Gai_Error ret \<Rightarrow> (False, ep)
                         | Gai_Addr SA_NONE \<Rightarrow> (False, ep)
                         | Gai_Addr a \<Rightarrow> (True, a)) }) }"

definition parse_persistent_keepalive :: "wg_env \<Rightarrow> u16 \<Rightarrow> u32 \<Rightarrow> string \<Rightarrow> bool \<times> u16 \<times> u32" where
  "parse_persistent_keepalive e interval flags v =
     (if \<not> strcasecmp v ''off'' then (True, 0, flags OR WGPEER_HAS_PERSISTENT_KEEPALIVE_INTERVAL)
      else if \<not> is_digit_char e (at0 v) then (False, interval, flags)
      else (let (ret, rest) = strtoul (ulong_bits e) 10 v
            in if rest \<noteq> [] \<or> ret > 65535 then (False, interval, flags)
               else (True, word_of_int ret, flags OR WGPEER_HAS_PERSISTENT_KEEPALIVE_INTERVAL)))"

subsection \<open>Allowed addresses\<close>

text \<open>The 32-bit groups of an address in host order, the first one at the top.\<close>

definition ip_words :: "ip_addr \<Rightarrow> u32 list" where
  "ip_words a =
     (case a of
        AF_INET x \<Rightarrow> [x]
      | AF_INET6 x \<Rightarrow> map (\<lambda>i. ucast (drop_bit (96 - 32 * i) x)) [0, 1, 2, 3]
      | AF_UNSPEC \<Rightarrow> [])"

text \<open>The loop over the groups from the last one down; \<open>n\<close> is one more than the code's index.\<close>

fun netmask_loop :: "u32 list \<Rightarrow> nat \<Rightarrow> nat \<Rightarrow> bool" where
  "netmask_loop ip len 0 = True"
| "netmask_loop ip len (Suc i) =
     (if len \<ge> 32 * (i + 1) then True
      else (let m = (if len > 32 * i then drop_bit (len - 32 * i) (- 1) else - 1)
            in if ip ! i AND m \<noteq> 0 then False else netmask_loop ip len i))"

definition validate_netmask :: "wgallowedip \<Rightarrow> bool" where
  "validate_netmask a =
     (case addr a of
        AF_UNSPEC \<Rightarrow> True
      | _ \<Rightarrow> netmask_loop (ip_words (addr a)) (unat (cidr a)) (length (ip_words (addr a))))"

definition parse_ip_prefix :: "wgpeer \<Rightarrow> u32 \<Rightarrow> string \<Rightarrow> wgpeer \<times> u32 \<times> string" where
  "parse_ip_prefix peer flags s =
     (if at0 s = CHR ''-''
      then (peer\<lparr>peer_flags := peer_flags peer AND NOT WGPEER_REPLACE_ALLOWEDIPS\<rparr>, flags OR WGALLOWEDIP_REMOVE_ME, tl s)
      else if at0 s = CHR ''+''
      then (peer\<lparr>peer_flags := peer_flags peer AND NOT WGPEER_REPLACE_ALLOWEDIPS\<rparr>, flags, tl s)
      else (peer, flags, s))"

text \<open>\<^verbatim>\<open>strsep\<close> with one separator: the first field, and what follows the separator if there is one.\<close>

definition strsep :: "char \<Rightarrow> string \<Rightarrow> string \<times> string option" where
  "strsep c s = (takeWhile (\<lambda>x. x \<noteq> c) s, if c \<in> set s then Some (tl (dropWhile (\<lambda>x. x \<noteq> c) s)) else None)"

text \<open>The length of the prefix: as written, or the whole address.\<close>

definition parse_cidr :: "wg_env \<Rightarrow> ip_addr \<Rightarrow> string option \<Rightarrow> int option" where
  "parse_cidr e a m =
     (case m of
        Some s \<Rightarrow>
          if \<not> is_digit_char e (at0 s) then None
          else (let (n, rest) = strtoul (ulong_bits e) 10 s
                in if rest \<noteq> [] \<or> (case a of AF_INET _ \<Rightarrow> n > 32 | AF_INET6 _ \<Rightarrow> n > 128 | AF_UNSPEC \<Rightarrow> False) then None
                   else Some n)
      | None \<Rightarrow> (case a of AF_INET _ \<Rightarrow> Some 32 | AF_INET6 _ \<Rightarrow> Some 128 | AF_UNSPEC \<Rightarrow> None))"

lemma strsep_shorter: "strsep c s = (f, Some r) \<Longrightarrow> length r < length s"
  using length_dropWhile_le [of "\<lambda>x. x \<noteq> c" s] unfolding strsep_def
  by (cases s) (auto split: if_splits)

function allowedips_loop :: "wg_env \<Rightarrow> wgpeer \<Rightarrow> string option \<Rightarrow> bool \<times> wgpeer" where
  "allowedips_loop e peer None = (True, peer)"
| "allowedips_loop e peer (Some s) =
     (let (field, sep) = strsep CHR '','' s;
          (peer1, flags, entry) = parse_ip_prefix peer 0 field;
          (ip, m) = strsep CHR ''/'' entry;
          (ok, a) = parse_ip e ip
      in if \<not> ok then (False, peer1)
         else (case parse_cidr e a m of
                 None \<Rightarrow> (False, peer1)
               | Some n \<Rightarrow>
                   allowedips_loop e
                     (peer1\<lparr>allowedips := allowedips peer1 @ [\<lparr>addr = a, cidr = word_of_int n, aip_flags = flags\<rparr>]\<rparr>) sep))"
  by pat_completeness auto
termination
  by (relation "measure (\<lambda>(e, p, s). case s of None \<Rightarrow> 0 | Some s \<Rightarrow> Suc (length s))")
    (auto split: option.splits dest: strsep_shorter [OF sym])

definition parse_allowedips :: "wg_env \<Rightarrow> wgpeer \<Rightarrow> string \<Rightarrow> bool \<times> wgpeer" where
  "parse_allowedips e peer v =
     (let peer1 = peer\<lparr>peer_flags := peer_flags peer OR WGPEER_REPLACE_ALLOWEDIPS\<rparr>
      in if v = [] then (True, peer1) else allowedips_loop e peer1 (Some v))"

subsection \<open>Lines\<close>

record config_ctx =
  device :: wgdevice
  is_peer_section :: bool
  is_device_section :: bool

abbreviation last_peer :: "config_ctx \<Rightarrow> wgpeer" where
  "last_peer ctx \<equiv> last (peers (device ctx))"

definition set_device :: "config_ctx \<Rightarrow> wgdevice \<Rightarrow> config_ctx" where
  "set_device ctx d = ctx\<lparr>device := d\<rparr>"

definition set_last_peer :: "config_ctx \<Rightarrow> wgpeer \<Rightarrow> config_ctx" where
  "set_last_peer ctx p = ctx\<lparr>device := (device ctx)\<lparr>peers := butlast (peers (device ctx)) @ [p]\<rparr>\<rparr>"

definition device_line :: "wg_env \<Rightarrow> config_ctx \<Rightarrow> string \<Rightarrow> bool \<times> config_ctx" where
  "device_line e ctx line =
     (let d = device ctx
      in case get_value line ''ListenPort='' of
           Some v \<Rightarrow> (let (ok, port, flags) = parse_port e (listen_port d) (dev_flags d) v
                     in (ok, set_device ctx (d\<lparr>listen_port := port, dev_flags := flags\<rparr>)))
         | None \<Rightarrow>
      case get_value line ''FwMark='' of
           Some v \<Rightarrow> (let (ok, mark, flags) = parse_fwmark e (fwmark d) (dev_flags d) v
                     in (ok, set_device ctx (d\<lparr>fwmark := mark, dev_flags := flags\<rparr>)))
         | None \<Rightarrow>
      case get_value line ''PrivateKey='' of
           Some v \<Rightarrow> (let (ok, key) = parse_key e (private_key d) v
                     in (ok, set_device ctx (d\<lparr>private_key := key,
                          dev_flags := (if ok then dev_flags d OR WGDEVICE_HAS_PRIVATE_KEY else dev_flags d)\<rparr>)))
         | None \<Rightarrow> (False, ctx))"

definition peer_line :: "wg_env \<Rightarrow> config_ctx \<Rightarrow> string \<Rightarrow> (bool \<times> config_ctx) option" where
  "peer_line e ctx line =
     (let p = last_peer ctx
      in case get_value line ''Endpoint='' of
           Some v \<Rightarrow> do { (ok, ep) \<leftarrow> parse_endpoint e (endpoint p) v;
                          Some (ok, set_last_peer ctx (p\<lparr>endpoint := ep\<rparr>)) }
         | None \<Rightarrow>
      case get_value line ''PublicKey='' of
           Some v \<Rightarrow> (let (ok, key) = parse_key e (public_key p) v
                     in Some (ok, set_last_peer ctx (p\<lparr>public_key := key,
                          peer_flags := (if ok then peer_flags p OR WGPEER_HAS_PUBLIC_KEY else peer_flags p)\<rparr>)))
         | None \<Rightarrow>
      case get_value line ''AllowedIPs='' of
           Some v \<Rightarrow> (let (ok, p1) = parse_allowedips e p v in Some (ok, set_last_peer ctx p1))
         | None \<Rightarrow>
      case get_value line ''PersistentKeepalive='' of
           Some v \<Rightarrow> (let (ok, n, flags) = parse_persistent_keepalive e (persistent_keepalive_interval p) (peer_flags p) v
                     in Some (ok, set_last_peer ctx (p\<lparr>persistent_keepalive_interval := n, peer_flags := flags\<rparr>)))
         | None \<Rightarrow>
      case get_value line ''PresharedKey='' of
           Some v \<Rightarrow> (let (ok, key) = parse_key e (preshared_key p) v
                     in Some (ok, set_last_peer ctx (p\<lparr>preshared_key := key,
                          peer_flags := (if ok then peer_flags p OR WGPEER_HAS_PRESHARED_KEY else peer_flags p)\<rparr>)))
         | None \<Rightarrow> Some (False, ctx))"

definition process_line :: "wg_env \<Rightarrow> config_ctx \<Rightarrow> string \<Rightarrow> (bool \<times> config_ctx) option" where
  "process_line e ctx line =
     (if \<not> strcasecmp line ''[Interface]''
      then Some (True, ctx\<lparr>is_peer_section := False, is_device_section := True\<rparr>)
      else if \<not> strcasecmp line ''[Peer]''
      then Some (True, ctx\<lparr>device := (device ctx)\<lparr>peers := peers (device ctx) @
             [zero_peer\<lparr>peer_flags := peer_flags zero_peer OR WGPEER_REPLACE_ALLOWEDIPS\<rparr>]\<rparr>,
             is_peer_section := True, is_device_section := False\<rparr>)
      else if is_device_section ctx then Some (device_line e ctx line)
      else if is_peer_section ctx then peer_line e ctx line
      else Some (False, ctx))"

text \<open>A line that is not understood frees the device: the inner \<open>None\<close>.\<close>

definition config_read_line :: "wg_env \<Rightarrow> config_ctx \<Rightarrow> string \<Rightarrow> config_ctx option option" where
  "config_read_line e ctx input =
     (let line = filter (\<lambda>c. \<not> is_space_char e c) (takeWhile (\<lambda>c. c \<noteq> CHR ''#'') input)
      in if line = [] then Some (Some ctx)
         else do { (ok, ctx1) \<leftarrow> process_line e ctx line; Some (if ok then Some ctx1 else None) })"

definition config_read_init :: "bool \<Rightarrow> config_ctx" where
  "config_read_init appending =
     \<lparr>device = (if appending then zero_device
        else zero_device\<lparr>dev_flags := WGDEVICE_REPLACE_PEERS OR WGDEVICE_HAS_PRIVATE_KEY OR WGDEVICE_HAS_FWMARK OR
               WGDEVICE_HAS_LISTEN_PORT\<rparr>),
      is_peer_section = False, is_device_section = False\<rparr>"

definition config_read_finish :: "config_ctx \<Rightarrow> wgdevice option" where
  "config_read_finish ctx =
     (if \<exists>p \<in> set (peers (device ctx)). peer_flags p AND WGPEER_HAS_PUBLIC_KEY = 0 then None else Some (device ctx))"

text \<open>The loop over the lines of a file in \<^verbatim>\<open>setconf_main\<close>.\<close>

fun read_lines :: "wg_env \<Rightarrow> config_ctx \<Rightarrow> string list \<Rightarrow> config_ctx option option" where
  "read_lines e ctx [] = Some (Some ctx)"
| "read_lines e ctx (l # ls) =
     do {
       r \<leftarrow> config_read_line e ctx l;
       (case r of None \<Rightarrow> Some None | Some ctx1 \<Rightarrow> read_lines e ctx1 ls) }"

definition read_config :: "wg_env \<Rightarrow> bool \<Rightarrow> string list \<Rightarrow> wgdevice option option" where
  "read_config e appending ls =
     do {
       r \<leftarrow> read_lines e (config_read_init appending) ls;
       Some (case r of None \<Rightarrow> None | Some ctx \<Rightarrow> config_read_finish ctx) }"

subsection \<open>Command lines\<close>

definition strip_spaces :: "wg_env \<Rightarrow> string \<Rightarrow> string" where
  "strip_spaces e s = filter (\<lambda>c. \<not> is_space_char e c) s"

text \<open>Whether a peer has been named, and a change of the last peer that may fail.\<close>

abbreviation has_peer :: "wgdevice \<Rightarrow> bool" where
  "has_peer d \<equiv> peers d \<noteq> []"

definition upd_last :: "wgdevice \<Rightarrow> wgpeer \<Rightarrow> wgdevice" where
  "upd_last d p = d\<lparr>peers := butlast (peers d) @ [p]\<rparr>"

text \<open>One option with its argument; the inner \<open>None\<close> is the error exit, which frees the device.\<close>

definition cmd_option :: "wg_env \<Rightarrow> wgdevice \<Rightarrow> string \<Rightarrow> string \<Rightarrow> wgdevice option option" where
  "cmd_option e d opt v =
     (let p = last (peers d)
      in if opt = ''listen-port'' \<and> \<not> has_peer d
         then (let (ok, port, flags) = parse_port e (listen_port d) (dev_flags d) v
               in Some (if ok then Some (d\<lparr>listen_port := port, dev_flags := flags\<rparr>) else None))
         else if opt = ''fwmark'' \<and> \<not> has_peer d
         then (let (ok, mark, flags) = parse_fwmark e (fwmark d) (dev_flags d) v
               in Some (if ok then Some (d\<lparr>fwmark := mark, dev_flags := flags\<rparr>) else None))
         else if opt = ''private-key'' \<and> \<not> has_peer d
         then (let (ok, key) = parse_keyfile e (private_key d) v
               in Some (if ok then Some (d\<lparr>private_key := key, dev_flags := dev_flags d OR WGDEVICE_HAS_PRIVATE_KEY\<rparr>) else None))
         else if opt = ''peer''
         then (let (ok, key) = parse_key e (public_key zero_peer) v
               in Some (if ok then Some (d\<lparr>peers := peers d @
                    [zero_peer\<lparr>public_key := key, peer_flags := peer_flags zero_peer OR WGPEER_HAS_PUBLIC_KEY\<rparr>]\<rparr>) else None))
         else if opt = ''endpoint'' \<and> has_peer d
         then do { (ok, ep) \<leftarrow> parse_endpoint e (endpoint p) v;
                   Some (if ok then Some (upd_last d (p\<lparr>endpoint := ep\<rparr>)) else None) }
         else if opt = ''allowed-ips'' \<and> has_peer d
         then (let (ok, p1) = parse_allowedips e p (strip_spaces e v)
               in Some (if ok then Some (upd_last d p1) else None))
         else if opt = ''persistent-keepalive'' \<and> has_peer d
         then (let (ok, n, flags) = parse_persistent_keepalive e (persistent_keepalive_interval p) (peer_flags p) v
               in Some (if ok then Some (upd_last d (p\<lparr>persistent_keepalive_interval := n, peer_flags := flags\<rparr>)) else None))
         else if opt = ''preshared-key'' \<and> has_peer d
         then (let (ok, key) = parse_keyfile e (preshared_key p) v
               in Some (if ok then Some (upd_last d (p\<lparr>preshared_key := key,
                    peer_flags := peer_flags p OR WGPEER_HAS_PRESHARED_KEY\<rparr>)) else None))
         else Some None)"

definition cmd_remove :: "wgdevice \<Rightarrow> wgdevice" where
  "cmd_remove d = upd_last d ((last (peers d))\<lparr>peer_flags := peer_flags (last (peers d)) OR WGPEER_REMOVE_ME\<rparr>)"

fun cmd_loop :: "wg_env \<Rightarrow> wgdevice \<Rightarrow> string list \<Rightarrow> wgdevice option option" where
  "cmd_loop e d [] = Some (Some d)"
| "cmd_loop e d [opt] = Some (if opt = ''remove'' \<and> has_peer d then Some (cmd_remove d) else None)"
| "cmd_loop e d (opt # v # argv) =
     (if opt = ''remove'' \<and> has_peer d then cmd_loop e (cmd_remove d) (v # argv)
      else do {
        r \<leftarrow> cmd_option e d opt v;
        (case r of None \<Rightarrow> Some None | Some d1 \<Rightarrow> cmd_loop e d1 argv) })"

definition config_read_cmd :: "wg_env \<Rightarrow> string list \<Rightarrow> wgdevice option option" where
  "config_read_cmd e argv = cmd_loop e zero_device argv"

end
