(* ===== verification/Wg_Config_Laws.thy ===== *)
theory Wg_Config_Laws
  imports Wg_Config
begin

text \<open>
  Correctness of the configuration reader: the branch-free character classes are the usual ones, the
  check of a netmask finds exactly the addresses with host bits, every configuration that is accepted is
  well-formed, and reading ends when the number of retries is limited.
\<close>

subsection \<open>Characters\<close>

lemma space_table:
  "list_all (\<lambda>n. \<forall>sg \<in> {True, False}. char_is_space (char_val sg (word_of_nat n)) = (n = 32 \<or> 9 \<le> n \<and> n \<le> 13)) [0..<256]"
  by code_simp

lemma of_char_word: "(of_char c :: u8) = word_of_nat (of_char c)"
  by (rule of_nat_of_char [symmetric])

lemma of_char_less: "(of_char c :: nat) < 256"
  by (metis mod_less_divisor of_char_mod_256 zero_less_numeral)

lemma char_is_space_iff: "char_is_space (char_int sg c) \<longleftrightarrow> is_space c"
proof -
  have "char_is_space (char_val sg (word_of_nat (of_char c))) \<longleftrightarrow>
      (of_char c :: nat) = 32 \<or> 9 \<le> (of_char c :: nat) \<and> (of_char c :: nat) \<le> 13"
    using space_table [unfolded list_all_iff, rule_format, of "of_char c" sg] of_char_less [of c]
    by (cases sg) simp_all
  moreover have "(of_char c :: nat) = 32 \<longleftrightarrow> c = CHR 0x20"
    using of_char_eq_iff [of c "CHR 0x20", where 'a = nat] by simp
  ultimately show ?thesis
    by (simp add: char_int_def of_char_word is_space_def)
qed

text \<open>The sign of a conjunction, read from the top bit of its 32-bit image.\<close>

lemma sign_bit_and:
  fixes a b :: int
  assumes "- (2 ^ 31) \<le> a" "a < 2 ^ 31" "- (2 ^ 31) \<le> b" "b < 2 ^ 31"
  shows "drop_bit 31 (word_of_int (a AND b) :: u32) \<noteq> 0 \<longleftrightarrow> a < 0 \<and> b < 0"
proof -
  have sgn: "bit x 31 \<longleftrightarrow> x < 0" if "- (2 ^ 31) \<le> x" "x < 2 ^ 31" for x :: int
    using drop_sign [OF that] by (auto simp: bit_iff_odd_drop_bit)
  have "drop_bit 31 (word_of_int (a AND b) :: u32) \<noteq> 0 \<longleftrightarrow> bit (word_of_int (a AND b) :: u32) 31"
  proof
    assume "drop_bit 31 (word_of_int (a AND b) :: u32) \<noteq> 0"
    then obtain n where "bit (drop_bit 31 (word_of_int (a AND b) :: u32)) n"
      by (metis bit_eqI bit_0_eq bot_apply bot_bool_def)
    then have "bit (word_of_int (a AND b) :: u32) (31 + n)"
      by (simp add: bit_drop_bit_eq)
    moreover from this have "31 + n < 32"
      using bit_imp_le_length by fastforce
    ultimately show "bit (word_of_int (a AND b) :: u32) 31"
      by (cases n) auto
  next
    assume "bit (word_of_int (a AND b) :: u32) 31"
    then have "bit (drop_bit 31 (word_of_int (a AND b) :: u32)) 0"
      by (simp only: bit_drop_bit_eq o_def) simp
    then show "drop_bit 31 (word_of_int (a AND b) :: u32) \<noteq> 0"
      by (metis bit_0_eq bot_apply bot_bool_def)
  qed
  then show ?thesis
    using assms by (simp add: bit_word_of_int_iff bit_and_iff sgn)
qed

lemma char_int_bounds: "- 128 \<le> char_int sg c" "char_int sg c < 256"
proof -
  have "- 128 \<le> sint (of_char c :: u8)" "sint (of_char c :: u8) < 256" "0 \<le> uint (of_char c :: u8)"
    "uint (of_char c :: u8) < 256"
    using sint_lt [of "of_char c :: u8"] sint_ge [of "of_char c :: u8"]
      unsigned_less [of "of_char c :: u8", where 'a = int] by simp_all
  moreover from this(3) have "- 128 \<le> uint (of_char c :: u8)"
    by linarith
  ultimately show "- 128 \<le> char_int sg c" "char_int sg c < 256"
    unfolding char_int_def char_val_def by (auto split: if_splits)
qed

lemma char_val_table:
  "list_all (\<lambda>n. \<forall>sg \<in> {True, False}.
     (48 \<le> char_val sg (word_of_nat n) \<and> char_val sg (word_of_nat n) \<le> 57) = (48 \<le> n \<and> n \<le> 57)) [0..<256]"
  by code_simp

lemma char_is_digit_iff: "char_is_digit (char_int sg c) \<longleftrightarrow> is_digit 10 c"
proof -
  have "char_is_digit (char_int sg c) \<longleftrightarrow> 48 \<le> char_int sg c \<and> char_int sg c \<le> 57"
    unfolding char_is_digit_def using char_int_bounds [of sg c] by (subst sign_bit_and) auto
  also have "\<dots> \<longleftrightarrow> 48 \<le> (of_char c :: nat) \<and> (of_char c :: nat) \<le> 57"
    using char_val_table [unfolded list_all_iff, rule_format, of "of_char c" sg] of_char_less [of c]
    by (cases sg) (simp_all add: char_int_def of_char_word)
  also have "\<dots> \<longleftrightarrow> is_digit 10 c"
    by (auto simp: is_digit_def digit_val_def Let_def simp flip: of_nat_of_char [where 'a = int] split: if_splits)
  finally show ?thesis .
qed

lemma char_class_simps [simp]:
  "is_space_char e c = is_space c" "is_digit_char e c = is_digit 10 c"
  by (simp_all add: char_is_space_iff char_is_digit_iff)

subsection \<open>Netmasks\<close>

lemma netmask_loop_iff:
  "netmask_loop ip len n \<longleftrightarrow>
     (\<forall>i < n. len < 32 * (i + 1) \<longrightarrow> ip ! i AND (if len > 32 * i then drop_bit (len - 32 * i) (- 1) else - 1) = 0)"
proof (induction n)
  case (Suc n)
  show ?case
  proof (cases "len \<ge> 32 * (n + 1)")
    case True
    then have "\<not> len < 32 * (i + 1)" if "i < Suc n" for i
      using that by (simp add: not_less)
    then show ?thesis
      using True by simp
  next
    case False
    then show ?thesis
      using Suc by (auto simp: Let_def less_Suc_eq not_le)
  qed
qed simp

lemma take_bit_zero_iff: "take_bit n w = 0 \<longleftrightarrow> (\<forall>j < n. \<not> bit w j)" for w :: "'a::len word"
  using bit_imp_le_length [of w] by (auto simp: bit_eq_iff [of "take_bit n w"] bit_take_bit_iff)

lemma and_drop_minus_one:
  fixes w :: u32
  assumes "k \<le> 32"
  shows "w AND drop_bit k (- 1) = 0 \<longleftrightarrow> (\<forall>j < 32 - k. \<not> bit w j)"
proof -
  have "w AND drop_bit k (- 1) = take_bit (32 - k) w"
    by (rule bit_eqI) (use assms in \<open>auto simp: bit_simps\<close>)
  then show ?thesis
    by (simp add: take_bit_zero_iff)
qed

lemma host_group_iff:
  fixes w :: u32
  assumes "len < 32 * (i + 1)"
  shows "w AND (if len > 32 * i then drop_bit (len - 32 * i) (- 1) else - 1) = 0 \<longleftrightarrow>
    (\<forall>j < 32. j < 32 * (i + 1) - len \<longrightarrow> \<not> bit w j)"
proof (cases "len > 32 * i")
  case True
  then have "32 - (len - 32 * i) = 32 * (i + 1) - len" "len - 32 * i \<le> 32"
    using assms by simp_all
  then show ?thesis
    using True and_drop_minus_one [of "len - 32 * i" w] by auto
next
  case False
  then show ?thesis
    using and_drop_minus_one [of 0 w] by auto
qed

text \<open>
  C40. The check of a netmask warns of exactly the addresses that have a bit set behind the prefix, for
  both families and every prefix length that can be read.
\<close>

theorem netmask_exact:
  "(unat (cidr a) \<le> 32 \<longrightarrow> addr a = AF_INET x \<longrightarrow> validate_netmask a = (take_bit (32 - unat (cidr a)) x = 0)) \<and>
   (unat (cidr a) \<le> 128 \<longrightarrow> addr a = AF_INET6 y \<longrightarrow> validate_netmask a = (take_bit (128 - unat (cidr a)) y = 0))"
proof (intro conjI impI)
  assume a: "unat (cidr a) \<le> 32" "addr a = AF_INET x"
  have "validate_netmask a \<longleftrightarrow> (unat (cidr a) < 32 \<longrightarrow> (\<forall>j < 32. j < 32 - unat (cidr a) \<longrightarrow> \<not> bit x j))"
    using a host_group_iff [of "unat (cidr a)" 0 x] by (simp add: validate_netmask_def ip_words_def netmask_loop_iff)
  also have "\<dots> \<longleftrightarrow> take_bit (32 - unat (cidr a)) x = 0"
    using a(1) by (auto simp: take_bit_zero_iff)
  finally show "validate_netmask a = (take_bit (32 - unat (cidr a)) x = 0)" .
next
  assume a: "unat (cidr a) \<le> 128" "addr a = AF_INET6 y"
  let ?n = "unat (cidr a)" and ?w = "ip_words (AF_INET6 y)"
  have l4: "length ?w = 4"
    by (simp add: ip_words_def)
  have w: "bit (?w ! i) j \<longleftrightarrow> bit y (96 - 32 * i + j)" if "i < 4" "j < 32" for i j
  proof -
    from that(1) have "i = 0 \<or> i = 1 \<or> i = 2 \<or> i = 3"
      by auto
    then show ?thesis
      using that(2) by (elim disjE) (simp_all add: ip_words_def bit_simps)
  qed
  have "validate_netmask a \<longleftrightarrow> (\<forall>i < 4. ?n < 32 * (i + 1) \<longrightarrow> (\<forall>j < 32. j < 32 * (i + 1) - ?n \<longrightarrow> \<not> bit (?w ! i) j))"
    using a host_group_iff by (simp add: validate_netmask_def netmask_loop_iff l4)
  also have "\<dots> \<longleftrightarrow> (\<forall>i < 4. ?n < 32 * (i + 1) \<longrightarrow> (\<forall>j < 32. j < 32 * (i + 1) - ?n \<longrightarrow> \<not> bit y (96 - 32 * i + j)))"
    using w by auto
  also have "\<dots> \<longleftrightarrow> (\<forall>k < 128 - ?n. \<not> bit y k)"
  proof (intro iffI allI impI)
    fix k
    assume l: "\<forall>i < 4. ?n < 32 * (i + 1) \<longrightarrow> (\<forall>j < 32. j < 32 * (i + 1) - ?n \<longrightarrow> \<not> bit y (96 - 32 * i + j))"
      and k: "k < 128 - ?n"
    define i j where "i = 3 - k div 32" and "j = k mod 32"
    have q: "k div 32 \<le> 3" "k = 32 * (k div 32) + j" "j < 32"
      using k by (auto simp: j_def)
    then have e: "96 - 32 * i + j = k" "i < 4" "32 * (i + 1) = 128 - 32 * (k div 32)"
      by (auto simp: i_def)
    with q k have "?n < 32 * (i + 1)" "j < 32 * (i + 1) - ?n"
      by auto
    with l e q(3) show "\<not> bit y k"
      by metis
  qed auto
  also have "\<dots> \<longleftrightarrow> take_bit (128 - ?n) y = 0"
    by (simp add: take_bit_zero_iff)
  finally show "validate_netmask a = (take_bit (128 - ?n) y = 0)" .
qed

theorem netmask_exact_witness:
  "validate_netmask \<lparr>addr = AF_INET 0x0A000000, cidr = 8, aip_flags = 0\<rparr> \<and>
   \<not> validate_netmask \<lparr>addr = AF_INET6 1, cidr = 127, aip_flags = 0\<rparr>"
  using netmask_exact [of "\<lparr>addr = AF_INET 0x0A000000, cidr = 8, aip_flags = 0\<rparr>" "0x0A000000"]
    netmask_exact [of "\<lparr>addr = AF_INET6 1, cidr = 127, aip_flags = 0\<rparr>" 0 1]
  by simp

text \<open>The warning of a host part is never printed for an address without a written prefix.\<close>

lemma whole_address_valid:
  "parse_cidr e (addr a) None = Some n \<Longrightarrow> cidr a = word_of_int n \<Longrightarrow> validate_netmask a"
  by (auto simp: parse_cidr_def validate_netmask_def netmask_loop_iff ip_words_def split: ip_addr.splits)

subsection \<open>Accepted configurations are well-formed\<close>

text \<open>
  A well-formed address, peer and device: prefixes fit the family, keys have their length, and a
  value is only there when its flag says so.
\<close>

definition wf_aip :: "wgallowedip \<Rightarrow> bool" where
  "wf_aip a \<longleftrightarrow>
     (case addr a of AF_UNSPEC \<Rightarrow> False | AF_INET _ \<Rightarrow> unat (cidr a) \<le> 32 | AF_INET6 _ \<Rightarrow> unat (cidr a) \<le> 128) \<and>
     aip_flags a \<in> {0, WGALLOWEDIP_REMOVE_ME}"

definition wf_peer :: "wgpeer \<Rightarrow> bool" where
  "wf_peer p \<longleftrightarrow>
     length (public_key p) = WG_KEY_LEN \<and> length (preshared_key p) = WG_KEY_LEN \<and> list_all wf_aip (allowedips p) \<and>
     (\<not> bit (peer_flags p) 2 \<longrightarrow> public_key p = zero_key) \<and>
     (\<not> bit (peer_flags p) 3 \<longrightarrow> preshared_key p = zero_key) \<and>
     (\<not> bit (peer_flags p) 4 \<longrightarrow> persistent_keepalive_interval p = 0)"

definition wf_device :: "wgdevice \<Rightarrow> bool" where
  "wf_device d \<longleftrightarrow> length (private_key d) = WG_KEY_LEN \<and> list_all wf_peer (peers d)"

lemma bit_flags:
  "bit (1 :: u32) n \<longleftrightarrow> n = 0" "bit (2 :: u32) n \<longleftrightarrow> n = 1" "bit (4 :: u32) n \<longleftrightarrow> n = 2"
  "bit (8 :: u32) n \<longleftrightarrow> n = 3" "bit (16 :: u32) n \<longleftrightarrow> n = 4"
  using bit_exp_iff [of 1 n, where 'a = u32] bit_exp_iff [of 2 n, where 'a = u32]
    bit_exp_iff [of 3 n, where 'a = u32] bit_exp_iff [of 4 n, where 'a = u32]
  by (auto simp: bit_1_iff)

lemma flag_set:
  "bit (f OR 1) n \<longleftrightarrow> bit f n \<or> n = 0" "bit (f OR 2) n \<longleftrightarrow> bit f n \<or> n = 1" "bit (f OR 4) n \<longleftrightarrow> bit f n \<or> n = 2"
  "bit (f OR 8) n \<longleftrightarrow> bit f n \<or> n = 3" "bit (f OR 16) n \<longleftrightarrow> bit f n \<or> n = 4" for f :: u32
  by (simp_all only: bit_or_iff bit_flags)

lemma flag_clear: "bit (f AND - 3) n \<longleftrightarrow> bit f n \<and> n \<noteq> 1" for f :: u32
proof -
  have "(- 3 :: u32) = NOT 2"
    by simp
  then have "bit (f AND - 3) n \<longleftrightarrow> bit f n \<and> bit (NOT 2 :: u32) n"
    by (simp only: bit_and_iff)
  also have "\<dots> \<longleftrightarrow> bit f n \<and> n \<noteq> 1"
    using bit_imp_le_length [of f n] by (auto simp only: bit_not_iff bit_flags possible_bit_word)
  finally show ?thesis .
qed

lemma flag_test: "f AND 4 = 0 \<longleftrightarrow> \<not> bit f 2" "f AND 8 = 0 \<longleftrightarrow> \<not> bit f 3" for f :: u32
  using and_exp_eq_0_iff_not_bit [of f 2] and_exp_eq_0_iff_not_bit [of f 3] by simp_all

lemmas flag_simps = flag_set flag_clear flag_test

lemma key_from_base64_length:
  assumes "key_from_base64 sg s old = (True, key)"
  shows "length key = WG_KEY_LEN"
proof -
  have l: "length s = 44" and d: "decode_groups sg s 0 = (fst (decode_groups sg s 0), key)"
    using assms
    by (auto simp: key_from_base64_def WG_KEY_LEN_BASE64_def WG_KEY_LEN_def split: if_splits prod.splits)
  then have "length (snd (decode_groups sg s 0)) + 1 = 33"
    using decode_groups_length [of s sg 0] by fastforce
  then show ?thesis
    using d by (metis WG_KEY_LEN_def add_right_cancel numeral_plus_one semiring_norm(5) snd_conv add.commute numeral_eq_iff one_plus_numeral)
qed

lemma parse_key_length: "parse_key e old v = (ok, key) \<Longrightarrow> length key = WG_KEY_LEN"
  by (auto simp: parse_key_def zero_key_def split: prod.splits if_splits dest: key_from_base64_length)

lemma read_digits_nonneg: "0 \<le> base \<Longrightarrow> 0 \<le> read_digits base s"
proof -
  assume "0 \<le> base"
  then have "0 \<le> foldl (\<lambda>acc c. acc * base + digit_val c) acc ds" if "0 \<le> acc" "\<forall>c \<in> set ds. is_digit base c" for acc ds
    using that by (induction ds arbitrary: acc) (auto simp: is_digit_def)
  moreover have "\<forall>c \<in> set (takeWhile (is_digit base) s). is_digit base c"
    by (auto dest: set_takeWhileD)
  ultimately show ?thesis
    by (simp add: read_digits_def)
qed

lemma strtoul_nonneg: "0 \<le> base \<Longrightarrow> strtoul bits base s = (n, rest) \<Longrightarrow> 0 \<le> n"
  using read_digits_nonneg [of base]
  by (auto simp: strtoul_def Let_def split: prod.splits if_splits)

lemma parse_cidr_bound:
  assumes "parse_cidr e a m = Some n"
  shows "wf_aip \<lparr>addr = a, cidr = word_of_int n, aip_flags = f\<rparr> \<longleftrightarrow> a \<noteq> AF_UNSPEC \<and> f \<in> {0, 1}"
proof -
  have "0 \<le> n"
    using assms strtoul_nonneg [of 10 "ulong_bits e"]
    by (auto simp: parse_cidr_def split: option.splits if_splits prod.splits ip_addr.splits)
  moreover have "n \<le> 32 \<or> \<not> (\<exists>x. a = AF_INET x)" "n \<le> 128 \<or> \<not> (\<exists>x. a = AF_INET6 x)"
    using assms by (auto simp: parse_cidr_def split: option.splits if_splits prod.splits ip_addr.splits)
  moreover have "unat (word_of_int n :: u8) = nat n" if "0 \<le> n" "n \<le> 128"
    using that by (simp add: unat_eq_nat_uint take_bit_int_eq_self unsigned_of_int)
  ultimately show ?thesis
    by (auto simp: wf_aip_def split: ip_addr.splits)
qed

lemma parse_ip_family: "parse_ip e v = (True, a) \<Longrightarrow> a \<noteq> AF_UNSPEC"
  by (auto simp: parse_ip_def split: if_splits option.splits)

text \<open>Reading addresses changes a peer's addresses and one of its flags only.\<close>

definition same_but_aips :: "wgpeer \<Rightarrow> wgpeer \<Rightarrow> bool" where
  "same_but_aips p q \<longleftrightarrow>
     public_key q = public_key p \<and> preshared_key q = preshared_key p \<and> endpoint q = endpoint p \<and>
     persistent_keepalive_interval q = persistent_keepalive_interval p \<and>
     (\<forall>n. n \<noteq> 1 \<longrightarrow> bit (peer_flags q) n = bit (peer_flags p) n)"

lemma same_but_aips_trans: "same_but_aips p q \<Longrightarrow> same_but_aips q r \<Longrightarrow> same_but_aips p r"
  by (simp add: same_but_aips_def)

lemma parse_ip_prefix_effect:
  assumes "parse_ip_prefix p 0 s = (p1, f, t)"
  shows "same_but_aips p p1" "f \<in> {0, 1}" "allowedips p1 = allowedips p"
  using assms by (auto simp: parse_ip_prefix_def same_but_aips_def flag_simps split: if_splits)

lemma allowedips_loop_effect:
  assumes "allowedips_loop e p so = (ok, q)" "list_all wf_aip (allowedips p)"
  shows "same_but_aips p q \<and> list_all wf_aip (allowedips q)"
  using assms
proof (induction e p so arbitrary: ok q rule: allowedips_loop.induct)
  case (1 e p)
  then show ?case
    by (simp add: same_but_aips_def)
next
  case (2 e p s)
  obtain field sep p1 f entry ip m ok1 a where
    f: "strsep CHR '','' s = (field, sep)" "parse_ip_prefix p 0 field = (p1, f, entry)"
      "strsep CHR ''/'' entry = (ip, m)" "parse_ip e ip = (ok1, a)"
    by (metis prod_cases3 surj_pair)
  note pre = parse_ip_prefix_effect [OF f(2)]
  show ?case
  proof (cases "ok1 \<and> parse_cidr e a m \<noteq> None")
    case True
    then obtain n where n: "parse_cidr e a m = Some n" and ok1
      by auto
    let ?aip = "\<lparr>addr = a, cidr = word_of_int n, aip_flags = f\<rparr>"
    let ?p = "p1\<lparr>allowedips := allowedips p1 @ [?aip]\<rparr>"
    have "allowedips_loop e ?p sep = (ok, q)"
      using "2.prems"(1) f n \<open>ok1\<close> by simp
    moreover have "wf_aip ?aip"
      using parse_cidr_bound [OF n] parse_ip_family f(4) \<open>ok1\<close> pre(2) by auto
    ultimately have "same_but_aips ?p q \<and> list_all wf_aip (allowedips q)"
      using "2.IH" [OF f(1) [symmetric] refl f(2) [symmetric] refl refl f(3) [symmetric] refl f(4) [symmetric] refl _ n]
        \<open>ok1\<close> "2.prems"(2) pre(3) by simp
    moreover have "same_but_aips p ?p"
      using pre(1) by (simp add: same_but_aips_def)
    ultimately show ?thesis
      using same_but_aips_trans by blast
  next
    case False
    then show ?thesis
      using "2.prems" f pre by (auto split: if_splits option.splits)
  qed
qed

lemma parse_allowedips_effect:
  assumes "parse_allowedips e p v = (ok, q)" "list_all wf_aip (allowedips p)"
  shows "same_but_aips p q" "list_all wf_aip (allowedips q)"
proof -
  let ?p = "p\<lparr>peer_flags := peer_flags p OR 2\<rparr>"
  have "same_but_aips p ?p"
    by (simp add: same_but_aips_def flag_simps)
  moreover have "same_but_aips ?p q \<and> list_all wf_aip (allowedips q)"
  proof (cases "v = []")
    case True
    then show ?thesis
      using assms by (auto simp: parse_allowedips_def same_but_aips_def Let_def)
  next
    case False
    then have "allowedips_loop e ?p (Some v) = (ok, q)"
      using assms(1) by (simp add: parse_allowedips_def Let_def del: allowedips_loop.simps)
    from allowedips_loop_effect [OF this] assms(2) show ?thesis
      by simp
  qed
  ultimately show "same_but_aips p q" "list_all wf_aip (allowedips q)"
    using same_but_aips_trans by blast+
qed

lemma wf_peer_aips:
  "wf_peer p \<Longrightarrow> same_but_aips p q \<Longrightarrow> list_all wf_aip (allowedips q) \<Longrightarrow> wf_peer q"
  by (simp add: wf_peer_def same_but_aips_def)

lemma parse_keepalive_flag:
  assumes "parse_persistent_keepalive e i f v = (ok, n, g)" "\<not> bit f 4 \<longrightarrow> i = 0"
  shows "(\<not> bit g 4 \<longrightarrow> n = 0) \<and> (\<forall>m. m \<noteq> 4 \<longrightarrow> bit g m = bit f m)"
  using assms by (auto simp: parse_persistent_keepalive_def flag_simps Let_def split: if_splits prod.splits)

lemma parse_keyfile_length:
  "parse_keyfile e old path = (ok, key) \<Longrightarrow> length old = WG_KEY_LEN \<Longrightarrow> length key = WG_KEY_LEN"
  by (auto simp: parse_keyfile_def zero_key_def split: key_file.splits if_splits dest: parse_key_length)

text \<open>What holds of the reader between two lines.\<close>

definition wf_ctx :: "config_ctx \<Rightarrow> bool" where
  "wf_ctx ctx \<longleftrightarrow> wf_device (device ctx) \<and> (\<forall>p \<in> set (peers (device ctx)). \<not> bit (peer_flags p) 0) \<and>
     (is_peer_section ctx \<longrightarrow> peers (device ctx) \<noteq> [])"

lemma length_zero_key [simp]: "length zero_key = WG_KEY_LEN"
  by (simp add: zero_key_def)

lemma wf_zero_peer: "wf_peer (zero_peer\<lparr>peer_flags := f\<rparr>)"
  by (simp add: wf_peer_def zero_peer_def)

lemma wf_ctx_last:
  "wf_ctx ctx \<Longrightarrow> is_peer_section ctx \<Longrightarrow> wf_peer (last_peer ctx) \<and> \<not> bit (peer_flags (last_peer ctx)) 0"
  by (auto simp: wf_ctx_def wf_device_def list_all_iff)

lemma wf_set_last_peer:
  "wf_ctx ctx \<Longrightarrow> wf_peer q \<Longrightarrow> \<not> bit (peer_flags q) 0 \<Longrightarrow> wf_ctx (set_last_peer ctx q)"
  by (auto simp: wf_ctx_def wf_device_def set_last_peer_def list_all_iff dest: in_set_butlastD)

lemma wf_device_line:
  assumes "device_line e ctx line = (ok, ctx')" "wf_ctx ctx"
  shows "wf_ctx ctx'"
  using assms
  by (auto simp: device_line_def set_device_def wf_ctx_def wf_device_def Let_def
      split: option.splits prod.splits dest: parse_key_length)

lemma wf_peer_line:
  assumes "peer_line e ctx line = Some (ok, ctx')" "wf_ctx ctx" "is_peer_section ctx"
  shows "wf_ctx ctx'"
proof -
  note wf = wf_ctx_last [OF assms(2,3)]
  note set_wf = wf_set_last_peer [OF assms(2)]
  let ?p = "last_peer ctx"
  have ep: "wf_ctx (set_last_peer ctx (?p\<lparr>endpoint := x\<rparr>))" for x
    by (rule set_wf) (use wf in \<open>auto simp: wf_peer_def\<close>)
  have pk: "wf_ctx (set_last_peer ctx (?p\<lparr>public_key := k, peer_flags := (if b then peer_flags ?p OR 4 else peer_flags ?p)\<rparr>))"
    if "parse_key e (public_key ?p) v = (b, k)" for v b k
    by (rule set_wf) (use wf parse_key_length [OF that] that in
      \<open>auto simp: wf_peer_def flag_simps parse_key_def split: if_splits prod.splits\<close>)
  have ps: "wf_ctx (set_last_peer ctx (?p\<lparr>preshared_key := k, peer_flags := (if b then peer_flags ?p OR 8 else peer_flags ?p)\<rparr>))"
    if "parse_key e (preshared_key ?p) v = (b, k)" for v b k
    by (rule set_wf) (use wf parse_key_length [OF that] that in
      \<open>auto simp: wf_peer_def flag_simps parse_key_def split: if_splits prod.splits\<close>)
  have ka: "wf_ctx (set_last_peer ctx (?p\<lparr>persistent_keepalive_interval := n, peer_flags := g\<rparr>))"
    if "parse_persistent_keepalive e (persistent_keepalive_interval ?p) (peer_flags ?p) v = (b, n, g)" for v b n g
    by (rule set_wf) (use wf parse_keepalive_flag [OF that] in \<open>auto simp: wf_peer_def\<close>)
  have ai: "wf_ctx (set_last_peer ctx q)" if "parse_allowedips e ?p v = (b, q)" for v b q
    by (rule set_wf) (use wf parse_allowedips_effect [OF that] wf_peer_aips [of ?p q] in
      \<open>auto simp: wf_peer_def same_but_aips_def\<close>)
  show ?thesis
    using assms(1,2)
    by (auto simp: peer_line_def Let_def bind_eq_Some_conv split: option.splits prod.splits split del: if_split
        intro: ep pk ps ka ai)
qed

lemma wf_process_line:
  assumes "process_line e ctx line = Some (ok, ctx')" "wf_ctx ctx"
  shows "wf_ctx ctx'"
proof -
  have "wf_ctx (ctx\<lparr>device := (device ctx)\<lparr>peers := peers (device ctx) @
      [zero_peer\<lparr>peer_flags := peer_flags zero_peer OR 2\<rparr>]\<rparr>, is_peer_section := True, is_device_section := False\<rparr>)"
    using assms(2) wf_zero_peer [of 2] by (auto simp: wf_ctx_def wf_device_def zero_peer_def bit_flags)
  then show ?thesis
    using assms wf_device_line wf_peer_line
    by (auto simp: process_line_def wf_ctx_def [of "ctx\<lparr>is_peer_section := False, is_device_section := True\<rparr>"]
        split: if_splits) (auto simp: wf_ctx_def)
qed

lemma wf_read_lines:
  "read_lines e ctx ls = Some (Some ctx') \<Longrightarrow> wf_ctx ctx \<Longrightarrow> wf_ctx ctx'"
proof (induction ls arbitrary: ctx)
  case (Cons l ls)
  then obtain ctx1 where "config_read_line e ctx l = Some (Some ctx1)" "read_lines e ctx1 ls = Some (Some ctx')"
    by (auto simp: bind_eq_Some_conv split: option.splits)
  moreover from this(1) Cons.prems(2) have "wf_ctx ctx1"
    by (auto simp: config_read_line_def Let_def bind_eq_Some_conv split: if_splits prod.splits dest: wf_process_line)
  ultimately show ?case
    using Cons.IH by blast
qed simp

text \<open>The same for command lines, where peers may be marked for removal.\<close>

definition wf_cmd :: "wgdevice \<Rightarrow> bool" where
  "wf_cmd d \<longleftrightarrow> wf_device d \<and> (\<forall>p \<in> set (peers d). bit (peer_flags p) 2)"

lemma wf_upd_last: "wf_cmd d \<Longrightarrow> wf_peer q \<Longrightarrow> bit (peer_flags q) 2 \<Longrightarrow> wf_cmd (upd_last d q)"
  by (auto simp: wf_cmd_def wf_device_def upd_last_def list_all_iff dest: in_set_butlastD)

lemma wf_cmd_last: "wf_cmd d \<Longrightarrow> has_peer d \<Longrightarrow> wf_peer (last (peers d)) \<and> bit (peer_flags (last (peers d))) 2"
  by (auto simp: wf_cmd_def wf_device_def list_all_iff)

lemma wf_cmd_remove: "wf_cmd d \<Longrightarrow> has_peer d \<Longrightarrow> wf_cmd (cmd_remove d)"
  unfolding cmd_remove_def
  by (rule wf_upd_last) (use wf_cmd_last in \<open>auto simp: wf_peer_def flag_simps\<close>)

lemma wf_cmd_option:
  assumes "cmd_option e d opt v = Some (Some d')" "wf_cmd d"
  shows "wf_cmd d'"
proof -
  let ?p = "last (peers d)"
  have dev: "wf_cmd (d\<lparr>listen_port := x, dev_flags := f\<rparr>)" "wf_cmd (d\<lparr>fwmark := y, dev_flags := f\<rparr>)" for x y f
    using assms(2) by (simp_all add: wf_cmd_def wf_device_def)
  have key: "wf_cmd (d\<lparr>private_key := k, dev_flags := f\<rparr>)" if "parse_keyfile e (private_key d) v = (True, k)" for k f
    using assms(2) parse_keyfile_length [OF that] by (simp add: wf_cmd_def wf_device_def)
  have new: "wf_cmd (d\<lparr>peers := peers d @ [zero_peer\<lparr>public_key := k, peer_flags := peer_flags zero_peer OR 4\<rparr>]\<rparr>)"
    if "parse_key e (public_key zero_peer) v = (True, k)" for k
    using assms(2) parse_key_length [OF that]
    by (simp add: wf_cmd_def wf_device_def wf_peer_def zero_peer_def flag_simps bit_flags)
  have ep: "wf_cmd (upd_last d (?p\<lparr>endpoint := x\<rparr>))" if "has_peer d" for x
    by (rule wf_upd_last) (use wf_cmd_last [OF assms(2) that] assms(2) in \<open>auto simp: wf_peer_def\<close>)
  have ai: "wf_cmd (upd_last d q)" if "has_peer d" "parse_allowedips e ?p x = (True, q)" for q x
    by (rule wf_upd_last) (use wf_cmd_last [OF assms(2) that(1)] assms(2) parse_allowedips_effect [OF that(2)]
      wf_peer_aips [of ?p q] in \<open>auto simp: wf_peer_def same_but_aips_def\<close>)
  have ka: "wf_cmd (upd_last d (?p\<lparr>persistent_keepalive_interval := n, peer_flags := g\<rparr>))"
    if "has_peer d" "parse_persistent_keepalive e (persistent_keepalive_interval ?p) (peer_flags ?p) v = (True, n, g)" for n g
    by (rule wf_upd_last) (use wf_cmd_last [OF assms(2) that(1)] assms(2) parse_keepalive_flag [OF that(2)] in
      \<open>auto simp: wf_peer_def\<close>)
  have ps: "wf_cmd (upd_last d (?p\<lparr>preshared_key := k, peer_flags := peer_flags ?p OR 8\<rparr>))"
    if "has_peer d" "parse_keyfile e (preshared_key ?p) v = (True, k)" for k
    by (rule wf_upd_last) (use wf_cmd_last [OF assms(2) that(1)] assms(2) parse_keyfile_length [OF that(2)] in
      \<open>auto simp: wf_peer_def flag_simps\<close>)
  show ?thesis
    using assms(1)
    by (auto simp: cmd_option_def Let_def bind_eq_Some_conv split: if_splits prod.splits
        intro: dev key new ep ai ka ps)
qed

lemma wf_cmd_loop: "cmd_loop e d argv = Some (Some d') \<Longrightarrow> wf_cmd d \<Longrightarrow> wf_cmd d'"
proof (induction e d argv rule: cmd_loop.induct)
  case (2 e d opt)
  then show ?case
    by (auto split: if_splits intro: wf_cmd_remove)
next
  case (3 e d opt v argv)
  show ?case
  proof (cases "opt = ''remove'' \<and> has_peer d")
    case True
    with 3 show ?thesis
      by (auto intro: wf_cmd_remove)
  next
    case False
    then obtain d1 where "cmd_option e d opt v = Some (Some d1)" "cmd_loop e d1 argv = Some (Some d')"
      using "3.prems"(1) by (auto simp: bind_eq_Some_conv split: if_splits option.splits)
    then show ?thesis
      using "3.IH"(2) [OF False] "3.prems"(2) wf_cmd_option by blast
  qed
qed simp


text \<open>A surrounding that knows one address.\<close>

definition demo_env :: wg_env where
  "demo_env = \<lparr>char_signed = False, ulong_bits = 32,
     resolve_port = (\<lambda>s. if s = ''51820'' then Gai_Addr (SA_IN 0 51820) else Gai_Error 8),
     resolve_host = (\<lambda>i h s. if h = ''10.1.2.3'' \<and> s = ''5000'' then Gai_Addr (SA_IN 0x0A010203 5000) else Gai_Error 8),
     pton4 = (\<lambda>s. if s = ''10.0.0.0'' then Some 0x0A000000 else None), pton6 = (\<lambda>_. None),
     retries_var = None, open_key = (\<lambda>_. No_File)\<rparr>"

definition demo_lines :: "string list" where
  "demo_lines = [''[Interface]'', ''ListenPort = 51820'', ''[Peer]  # first'',
     ''PublicKey = '' @ replicate 43 CHR ''A'' @ ''='', ''AllowedIPs = 10.0.0.0/8'']"

lemma demo_config: "\<exists>d. read_config demo_env False demo_lines = Some (Some d) \<and> length (peers d) = 1"
proof -
  have "(case read_config demo_env False demo_lines of Some (Some d) \<Rightarrow> length (peers d) = 1 | _ \<Rightarrow> False)"
    by code_simp
  then show ?thesis
    by (auto split: option.splits)
qed


subsection \<open>Reading ends\<close>

lemma resolve_loop_returns: "0 \<le> retries \<Longrightarrow> resolve_loop e host service i retries \<noteq> None"
proof (induction "nat retries" arbitrary: i retries)
  case 0
  then show ?case
    by (subst resolve_loop.simps) (auto split: gai.splits)
next
  case (Suc n)
  then have "resolve_loop e host service (Suc i) (retries - 1) \<noteq> None"
    by (intro Suc.hyps(1)) auto
  then show ?case
    using Suc by (subst resolve_loop.simps) (auto split: gai.splits)
qed

lemma parse_endpoint_returns:
  assumes "parse_dns_retries e = Some n" "0 \<le> n"
  shows "\<exists>r. parse_endpoint e ep v = Some r"
proof (cases "split_endpoint v")
  case (Some hs)
  obtain host service where hs: "hs = (host, service)"
    by (cases hs)
  obtain g where "resolve_loop e host service 0 n = Some g"
    using resolve_loop_returns [OF assms(2)] by blast
  with Some hs assms(1) show ?thesis
    by (auto simp: parse_endpoint_def)
qed (auto simp: parse_endpoint_def assms(1))

lemma peer_line_returns:
  assumes "parse_dns_retries e = Some n" "0 \<le> n"
  shows "\<exists>r. peer_line e ctx l = Some r"
proof (cases "get_value l ''Endpoint=''")
  case (Some v)
  obtain ok ep where "parse_endpoint e (endpoint (last_peer ctx)) v = Some (ok, ep)"
    using parse_endpoint_returns [OF assms] by (metis surj_pair)
  with Some show ?thesis
    by (simp add: peer_line_def Let_def)
next
  case None
  then show ?thesis
    by (auto simp: peer_line_def Let_def split: option.splits prod.splits)
qed

lemma config_read_line_returns:
  assumes "parse_dns_retries e = Some n" "0 \<le> n"
  shows "\<exists>r. config_read_line e ctx l = Some r"
proof -
  have "\<exists>ok c. process_line e ctx l' = Some (ok, c)" for l'
    using peer_line_returns [OF assms, of ctx l'] by (cases "device_line e ctx l'") (auto simp: process_line_def)
  then obtain ok c where "process_line e ctx (filter (\<lambda>c. \<not> is_space_char e c) (takeWhile (\<lambda>c. c \<noteq> CHR ''#'') l)) = Some (ok, c)"
    by blast
  then show ?thesis
    by (simp only: config_read_line_def Let_def) auto
qed

lemma read_lines_returns:
  assumes "parse_dns_retries e = Some n" "0 \<le> n"
  shows "\<exists>r. read_lines e ctx ls = Some r"
proof (induction ls arbitrary: ctx)
  case (Cons l ls)
  obtain x where "config_read_line e ctx l = Some x"
    using config_read_line_returns [OF assms] by blast
  then show ?case
    using Cons by (cases x) simp_all
qed simp

text \<open>With a limited number of retries reading ends, with a device or a refusal.\<close>

lemma read_config_returns:
  assumes "parse_dns_retries e = Some n" "0 \<le> n"
  shows "\<exists>r. read_config e appending ls = Some r"
proof -
  obtain x where "read_lines e (config_read_init appending) ls = Some x"
    using read_lines_returns [OF assms] by blast
  then show ?thesis
    by (simp add: read_config_def)
qed

text \<open>
  On a target whose \<^verbatim>\<open>unsigned long\<close> has 32 bits, a mark that is too large is not refused: the
  conversion saturates at the largest mark.
\<close>

lemma fwmark_saturates:
  "ulong_bits e = 32 \<Longrightarrow> parse_fwmark e m f ''4294967296'' = (True, 0xFFFFFFFF, f OR 16)"
  "ulong_bits e = 64 \<Longrightarrow> parse_fwmark e m f ''4294967296'' = (False, m, f)"
  by (simp_all add: parse_fwmark_def strcasecmp_def to_lower_def at0_def strtoul_def c_number_defs char_of_def Let_def)

end
