(* ===== verification/Wg_Sync.thy ===== *)
theory Wg_Sync
  imports Wg_Config_Laws "HOL-Library.Multiset"
begin

text \<open>
  Setting a configuration (\<^verbatim>\<open>wireguard-tools/src/setconf.c\<close>): the description read from a file is sent to
  the kernel as it is, or first turned into the difference to the running configuration
  (\<^verbatim>\<open>syncconf\<close>), so that peers in both keep their sessions.

  The array of peer pointers is a list of positions in the two peer lists. \<^verbatim>\<open>qsort\<close> is a parameter:
  it leaves equal elements in any order. New entries go in front of the file's peers, which the
  pointers of the array keep designating; they are collected apart and put in front at the end.
\<close>

subsection \<open>Model\<close>

record peer_origin =
  from_file :: bool
  pos :: nat

definition origin_key :: "wgdevice \<Rightarrow> wgdevice \<Rightarrow> peer_origin \<Rightarrow> u8 list" where
  "origin_key file runtime o' = public_key ((if from_file o' then peers file else peers runtime) ! pos o')"

fun memcmp :: "u8 list \<Rightarrow> u8 list \<Rightarrow> int" where
  "memcmp (a # as) (b # bs) = (if a = b then memcmp as bs else uint a - uint b)"
| "memcmp _ _ = 0"

definition peer_cmp :: "wgdevice \<Rightarrow> wgdevice \<Rightarrow> peer_origin \<Rightarrow> peer_origin \<Rightarrow> int" where
  "peer_cmp file runtime a b =
     (let ret = memcmp (origin_key file runtime a) (origin_key file runtime b)
      in if ret \<noteq> 0 then ret else of_bool (from_file a) - of_bool (from_file b))"

definition all_origins :: "wgdevice \<Rightarrow> wgdevice \<Rightarrow> peer_origin list" where
  "all_origins file runtime =
     map (\<lambda>i. \<lparr>from_file = True, pos = i\<rparr>) [0..<length (peers file)] @
     map (\<lambda>i. \<lparr>from_file = False, pos = i\<rparr>) [0..<length (peers runtime)]"

text \<open>A file peer that has to undo a setting of the running peer.\<close>

definition reset_psk :: "wgpeer \<Rightarrow> wgpeer \<Rightarrow> wgpeer" where
  "reset_psk running p =
     (if peer_flags running AND WGPEER_HAS_PRESHARED_KEY \<noteq> 0 \<and> peer_flags p AND WGPEER_HAS_PRESHARED_KEY = 0
      then p\<lparr>preshared_key := zero_key, peer_flags := peer_flags p OR WGPEER_HAS_PRESHARED_KEY\<rparr> else p)"

definition reset_keepalive :: "wgpeer \<Rightarrow> wgpeer \<Rightarrow> wgpeer" where
  "reset_keepalive running p =
     (if persistent_keepalive_interval running \<noteq> 0 \<and> peer_flags p AND WGPEER_HAS_PERSISTENT_KEEPALIVE_INTERVAL = 0
      then p\<lparr>persistent_keepalive_interval := 0, peer_flags := peer_flags p OR WGPEER_HAS_PERSISTENT_KEEPALIVE_INTERVAL\<rparr>
      else p)"

definition removal :: "u8 list \<Rightarrow> wgpeer" where
  "removal key = zero_peer\<lparr>peer_flags := WGPEER_REMOVE_ME, public_key := key\<rparr>"

text \<open>The loop over the sorted array: the removals so far, the newest first, and the file's peers.\<close>

fun sync_loop :: "wgdevice \<Rightarrow> wgdevice \<Rightarrow> peer_origin list \<Rightarrow> wgpeer list \<Rightarrow> wgpeer list \<Rightarrow> wgpeer list \<times> wgpeer list" where
  "sync_loop file runtime [] removed fp = (removed, fp)"
| "sync_loop file runtime (o1 # os) removed fp =
     (if from_file o1 then sync_loop file runtime os removed fp
      else if os = [] \<or> \<not> from_file (hd os) \<or> memcmp (origin_key file runtime o1) (origin_key file runtime (hd os)) \<noteq> 0
      then sync_loop file runtime os (removal (origin_key file runtime o1) # removed) fp
      else (let running = peers runtime ! pos o1; j = pos (hd os)
            in sync_loop file runtime os removed (fp[j := reset_keepalive running (reset_psk running (fp ! j))])))"

text \<open>\<open>None\<close> is a device that cannot be queried; \<open>sort_with\<close> is \<^verbatim>\<open>qsort\<close> with the given comparison.\<close>

definition sync_conf ::
    "((peer_origin \<Rightarrow> peer_origin \<Rightarrow> int) \<Rightarrow> peer_origin list \<Rightarrow> peer_origin list) \<Rightarrow> wgdevice option \<Rightarrow> wgdevice \<Rightarrow>
     bool \<times> wgdevice" where
  "sync_conf sort_with running file =
     (if peers file = [] then (True, file)
      else (case running of
              None \<Rightarrow> (False, file)
            | Some runtime \<Rightarrow>
                if peers runtime = [] then (True, file)
                else (let ps = sort_with (peer_cmp file runtime) (all_origins file runtime);
                          (removed, fp) = sync_loop file runtime ps [] (peers file)
                      in (True, file\<lparr>dev_flags := dev_flags file AND NOT WGDEVICE_REPLACE_PEERS,
                                     peers := removed @ fp\<rparr>))))"

text \<open>
  \<^verbatim>\<open>setconf\<close>, \<^verbatim>\<open>addconf\<close> and \<^verbatim>\<open>syncconf\<close> with their two arguments: the exit code and the device sent to the
  kernel, if one is sent. The file is \<open>None\<close> when it cannot be opened; \<open>ipc_set\<close> tells whether the kernel accepts.
\<close>

definition setconf_main ::
    "wg_env \<Rightarrow> ((peer_origin \<Rightarrow> peer_origin \<Rightarrow> int) \<Rightarrow> peer_origin list \<Rightarrow> peer_origin list) \<Rightarrow> (string \<Rightarrow> string list option) \<Rightarrow>
     (string \<Rightarrow> wgdevice option) \<Rightarrow> (string \<Rightarrow> wgdevice \<Rightarrow> bool) \<Rightarrow> string list \<Rightarrow> (int \<times> (string \<times> wgdevice) option) option" where
  "setconf_main e sort_with open_conf ipc_get ipc_set argv =
     (case argv of
        [cmd, ifname, path] \<Rightarrow>
          (case open_conf path of
             None \<Rightarrow> Some (1, None)
           | Some ls \<Rightarrow>
               do {
                 r \<leftarrow> read_config e (cmd = ''addconf'') ls;
                 (case r of
                    None \<Rightarrow> Some (1, None)
                  | Some d \<Rightarrow>
                      (let name = take 15 ifname;
                           (ok, d1) = (if cmd = ''syncconf'' then sync_conf sort_with (ipc_get name) d else (True, d))
                       in if \<not> ok then Some (1, None)
                          else if \<not> ipc_set name d1 then Some (1, Some (name, d1)) else Some (0, Some (name, d1)))) })
      | _ \<Rightarrow> Some (1, None))"

definition set_main :: "wg_env \<Rightarrow> (string \<Rightarrow> wgdevice \<Rightarrow> bool) \<Rightarrow> string list \<Rightarrow> (int \<times> (string \<times> wgdevice) option) option" where
  "set_main e ipc_set argv =
     (if length argv < 3 then Some (1, None)
      else do {
        r \<leftarrow> config_read_cmd e (drop 2 argv);
        (case r of
           None \<Rightarrow> Some (1, None)
         | Some d \<Rightarrow> (let name = take 15 (argv ! 1)
                     in if \<not> ipc_set name d then Some (1, Some (name, d)) else Some (0, Some (name, d)))) })"

subsection \<open>The sorted array\<close>

text \<open>
  What \<^verbatim>\<open>qsort\<close> promises for one call: a permutation, in which no element compares greater than a later
  one.
\<close>

definition sorts :: "(peer_origin \<Rightarrow> peer_origin \<Rightarrow> int) \<Rightarrow> peer_origin list \<Rightarrow> peer_origin list \<Rightarrow> bool" where
  "sorts cmp xs ys \<longleftrightarrow> mset ys = mset xs \<and> sorted_wrt (\<lambda>a b. cmp a b \<le> 0) ys"

lemma memcmp_anti: "length a = length b \<Longrightarrow> memcmp a b = - memcmp b a"
  by (induction a b rule: memcmp.induct) auto

lemma memcmp_refl [simp]: "memcmp a a = 0"
  by (induction a) auto

lemma memcmp_eq_0: "length a = length b \<Longrightarrow> memcmp a b = 0 \<longleftrightarrow> a = b"
  by (induction a b rule: memcmp.induct) (auto simp: word_uint_eq_iff)

text \<open>
  Two devices whose peers have keys of the same length, each key once in either: the positions in the array designate
  peers, and the key determines the position.
\<close>

definition two_devices :: "wgdevice \<Rightarrow> wgdevice \<Rightarrow> bool" where
  "two_devices conf runtime \<longleftrightarrow>
     (\<forall>p \<in> set (peers conf) \<union> set (peers runtime). length (public_key p) = WG_KEY_LEN) \<and>
     distinct (map public_key (peers conf)) \<and> distinct (map public_key (peers runtime))"

lemma origins_distinct: "distinct (all_origins conf runtime)"
  by (auto simp: all_origins_def distinct_map inj_on_def)

lemma origin_bound:
  "o1 \<in> set (all_origins conf runtime) \<Longrightarrow> pos o1 < length (if from_file o1 then peers conf else peers runtime)"
  by (auto simp: all_origins_def)

lemma origin_key_len:
  "two_devices conf runtime \<Longrightarrow> o1 \<in> set (all_origins conf runtime) \<Longrightarrow> length (origin_key conf runtime o1) = WG_KEY_LEN"
  using origin_bound [of o1 conf runtime] by (auto simp: two_devices_def origin_key_def)

lemma origin_unique:
  assumes tw: "two_devices conf runtime"
    and "o1 \<in> set (all_origins conf runtime)" "o2 \<in> set (all_origins conf runtime)"
    "from_file o1 = from_file o2" "origin_key conf runtime o1 = origin_key conf runtime o2"
  shows "o1 = o2"
proof -
  let ?ps = "if from_file o1 then peers conf else peers runtime"
  have "distinct (map public_key ?ps)"
    using tw by (simp add: two_devices_def)
  then have "pos o1 = pos o2"
    using assms(2-) origin_bound [OF assms(2)] origin_bound [OF assms(3)]
    by (auto simp: origin_key_def distinct_conv_nth split: if_splits)
  with assms(4) show ?thesis
    by simp
qed

lemma in_file_keys:
  "k \<in> public_key ` set (peers conf) \<longleftrightarrow>
    (\<exists>o1 \<in> set (all_origins conf runtime). from_file o1 \<and> origin_key conf runtime o1 = k)"
  by (force simp: all_origins_def origin_key_def in_set_conv_nth)

text \<open>Behind a running peer stands its partner from the file, if there is one.\<close>

lemma partner_next:
  assumes tw: "two_devices conf runtime"
    and srt: "sorts (peer_cmp conf runtime) (all_origins conf runtime) (pre @ o1 # os)"
    and rt: "\<not> from_file o1" and k: "origin_key conf runtime o1 \<in> public_key ` set (peers conf)"
  shows "os \<noteq> [] \<and> from_file (hd os) \<and> origin_key conf runtime (hd os) = origin_key conf runtime o1"
proof -
  have st: "set (pre @ o1 # os) = set (all_origins conf runtime)"
    using srt unfolding sorts_def by (metis set_mset_mset)
  have sw: "sorted_wrt (\<lambda>a b. peer_cmp conf runtime a b \<le> 0) (pre @ o1 # os)"
    using srt by (simp add: sorts_def)
  obtain f where f: "f \<in> set (pre @ o1 # os)" "from_file f" "origin_key conf runtime f = origin_key conf runtime o1"
    using k unfolding in_file_keys [of _ conf runtime] st by auto
  have "f \<notin> set pre"
    using sw f rt by (fastforce simp: sorted_wrt_append peer_cmp_def)
  with f rt have fos: "f \<in> set os"
    by auto
  then obtain o2 os' where os: "os = o2 # os'"
    by (cases os) auto
  show ?thesis
  proof (cases "f = o2")
    case False
    have c: "peer_cmp conf runtime o1 o2 \<le> 0" "peer_cmp conf runtime o2 f \<le> 0"
      using sw fos os False by (auto simp: sorted_wrt_append)
    have mem: "o1 \<in> set (all_origins conf runtime)" "o2 \<in> set (all_origins conf runtime)"
      "f \<in> set (all_origins conf runtime)"
      using st os f(1) by auto
    have l: "length (origin_key conf runtime o2) = length (origin_key conf runtime o1)"
      using origin_key_len [OF tw] mem by simp
    have "memcmp (origin_key conf runtime o1) (origin_key conf runtime o2) = 0"
      using c f(3) memcmp_anti [OF l] by (auto simp: peer_cmp_def Let_def split: if_splits)
    then have e: "origin_key conf runtime o2 = origin_key conf runtime o1"
      using memcmp_eq_0 [OF l] memcmp_anti [OF l] by simp
    have "distinct (pre @ o1 # os)"
      using origins_distinct srt unfolding sorts_def by (metis mset_eq_imp_distinct_iff)
    then have "o1 \<noteq> o2"
      using os by auto
    then have "from_file o2"
      using origin_unique [OF tw mem(1,2)] e rt by auto
    then show ?thesis
      using e os by simp
  qed (use f os in auto)
qed

lemma removal_test:
  assumes tw: "two_devices conf runtime"
    and srt: "sorts (peer_cmp conf runtime) (all_origins conf runtime) (pre @ o1 # os)" and rt: "\<not> from_file o1"
  shows "(os = [] \<or> \<not> from_file (hd os) \<or> memcmp (origin_key conf runtime o1) (origin_key conf runtime (hd os)) \<noteq> 0) \<longleftrightarrow>
    origin_key conf runtime o1 \<notin> public_key ` set (peers conf)"
proof -
  have st: "set (pre @ o1 # os) = set (all_origins conf runtime)"
    using srt unfolding sorts_def by (metis set_mset_mset)
  have "origin_key conf runtime o1 \<in> public_key ` set (peers conf)"
    if "os \<noteq> []" "from_file (hd os)" "memcmp (origin_key conf runtime o1) (origin_key conf runtime (hd os)) = 0"
  proof -
    have "hd os \<in> set os"
      using that(1) by simp
    then have mem: "o1 \<in> set (all_origins conf runtime)" "hd os \<in> set (all_origins conf runtime)"
      unfolding st [symmetric] by simp_all
    then have "origin_key conf runtime (hd os) = origin_key conf runtime o1"
      using that(3) origin_key_len [OF tw] memcmp_eq_0 [of "origin_key conf runtime o1" "origin_key conf runtime (hd os)"] by simp
    then show ?thesis
      unfolding in_file_keys [of _ conf runtime] using mem(2) that(2) by blast
  qed
  then show ?thesis
    using partner_next [OF tw srt rt] by auto
qed

subsection \<open>The difference\<close>

text \<open>The running peer with a key, and what becomes of a peer of the file.\<close>

definition running_peer :: "wgdevice \<Rightarrow> u8 list \<Rightarrow> wgpeer option" where
  "running_peer runtime k = find (\<lambda>p. public_key p = k) (peers runtime)"

definition adjust :: "wgpeer option \<Rightarrow> wgpeer \<Rightarrow> wgpeer" where
  "adjust r p = (case r of None \<Rightarrow> p | Some running \<Rightarrow> reset_keepalive running (reset_psk running p))"

definition seen_peer :: "wgdevice \<Rightarrow> wgdevice \<Rightarrow> peer_origin list \<Rightarrow> u8 list \<Rightarrow> wgpeer option" where
  "seen_peer conf runtime os k =
     map_option (\<lambda>o1. peers runtime ! pos o1) (find (\<lambda>o1. \<not> from_file o1 \<and> origin_key conf runtime o1 = k) os)"

definition to_remove :: "wgdevice \<Rightarrow> wgdevice \<Rightarrow> peer_origin list \<Rightarrow> u8 list list" where
  "to_remove conf runtime os =
     [origin_key conf runtime o1. o1 \<leftarrow> os, \<not> from_file o1 \<and> origin_key conf runtime o1 \<notin> public_key ` set (peers conf)]"

lemma sync_loop_effect:
  assumes tw: "two_devices conf runtime"
    and "sorts (peer_cmp conf runtime) (all_origins conf runtime) (pre @ os)" "length fp = length (peers conf)"
  shows "sync_loop conf runtime os removed fp =
    (rev (map removal (to_remove conf runtime os)) @ removed,
     map (\<lambda>j. adjust (seen_peer conf runtime os (public_key (peers conf ! j))) (fp ! j)) [0..<length fp])"
  using assms(2,3)
proof (induction os arbitrary: pre removed fp)
  case Nil
  then show ?case
    by (simp add: to_remove_def seen_peer_def adjust_def) (metis map_nth)
next
  case (Cons o1 os)
  have srt: "sorts (peer_cmp conf runtime) (all_origins conf runtime) ((pre @ [o1]) @ os)"
    using Cons.prems(1) by simp
  note IH = Cons.IH [OF srt]
  have st: "set (pre @ o1 # os) = set (all_origins conf runtime)"
    using Cons.prems(1) unfolding sorts_def by (metis set_mset_mset)
  have dis: "distinct (pre @ o1 # os)"
    using origins_distinct Cons.prems(1) unfolding sorts_def by (metis mset_eq_imp_distinct_iff)
  consider (f) "from_file o1" | (rem) "\<not> from_file o1" "origin_key conf runtime o1 \<notin> public_key ` set (peers conf)"
    | (keep) "\<not> from_file o1" "origin_key conf runtime o1 \<in> public_key ` set (peers conf)"
    by blast
  then show ?case
  proof cases
    case f
    then show ?thesis
      using IH [OF Cons.prems(2)] by (simp add: to_remove_def seen_peer_def)
  next
    case rem
    then have "seen_peer conf runtime (o1 # os) (public_key (peers conf ! j)) =
        seen_peer conf runtime os (public_key (peers conf ! j))" if "j < length fp" for j
      using that Cons.prems(2) by (auto simp: seen_peer_def)
    then show ?thesis
      using rem IH [OF Cons.prems(2)] removal_test [OF tw Cons.prems(1) rem(1)]
      by (simp add: to_remove_def cong: map_cong)
  next
    case keep
    note nxt = partner_next [OF tw Cons.prems(1) keep]
    let ?j = "pos (hd os)" and ?r = "peers runtime ! pos o1"
    have "hd os \<in> set (all_origins conf runtime)"
      using nxt unfolding st [symmetric] by simp
    then have j: "?j < length fp" "public_key (peers conf ! ?j) = origin_key conf runtime o1"
      using origin_bound [of "hd os"] nxt Cons.prems(2) by (auto simp: origin_key_def)
    have uniq: "find (\<lambda>o1'. \<not> from_file o1' \<and> origin_key conf runtime o1' = origin_key conf runtime o1) os = None"
      unfolding find_None_iff
    proof safe
      fix x
      assume x: "x \<in> set os" "\<not> from_file x" "origin_key conf runtime x = origin_key conf runtime o1"
      have "x = o1"
        by (rule origin_unique [OF tw]) (use x keep st in auto)
      with x(1) dis show False
        by simp
    qed
    have other: "public_key (peers conf ! i) \<noteq> origin_key conf runtime o1" if "i < length fp" "i \<noteq> ?j" for i
      using tw that j Cons.prems(2) unfolding two_devices_def by (metis distinct_conv_nth length_map nth_map)
    let ?fp = "fp[?j := reset_keepalive ?r (reset_psk ?r (fp ! ?j))]"
    have "sync_loop conf runtime (o1 # os) removed fp = sync_loop conf runtime os removed ?fp"
      using keep removal_test [OF tw Cons.prems(1) keep(1)] by (simp add: Let_def)
    also have "\<dots> = (rev (map removal (to_remove conf runtime os)) @ removed,
        map (\<lambda>i. adjust (seen_peer conf runtime os (public_key (peers conf ! i))) (?fp ! i)) [0..<length ?fp])"
      using IH [of ?fp removed] Cons.prems(2) by simp
    also have "map (\<lambda>i. adjust (seen_peer conf runtime os (public_key (peers conf ! i))) (?fp ! i)) [0..<length ?fp] =
        map (\<lambda>i. adjust (seen_peer conf runtime (o1 # os) (public_key (peers conf ! i))) (fp ! i)) [0..<length fp]"
    proof (rule map_cong)
      fix i
      assume "i \<in> set [0..<length fp]"
      then have i: "i < length fp"
        by simp
      show "adjust (seen_peer conf runtime os (public_key (peers conf ! i))) (?fp ! i) =
          adjust (seen_peer conf runtime (o1 # os) (public_key (peers conf ! i))) (fp ! i)"
      proof (cases "i = ?j")
        case True
        then show ?thesis
          using j keep uniq i by (simp add: seen_peer_def adjust_def)
      next
        case False
        then show ?thesis
          using other [OF i False] by (auto simp: seen_peer_def)
      qed
    qed simp
    also have "to_remove conf runtime os = to_remove conf runtime (o1 # os)"
      using keep by (simp add: to_remove_def)
    finally show ?thesis .
  qed
qed

lemma find_unique:
  assumes "distinct (map f xs)" "x \<in> set xs"
  shows "find (\<lambda>y. f y = f x) xs = Some x"
  using assms by (induction xs) (auto simp: image_iff)

lemma seen_all:
  assumes tw: "two_devices conf runtime" and st: "set os = set (all_origins conf runtime)"
  shows "seen_peer conf runtime os k = running_peer runtime k"
proof (cases "find (\<lambda>o1. \<not> from_file o1 \<and> origin_key conf runtime o1 = k) os")
  case None
  have "\<nexists>p. p \<in> set (peers runtime) \<and> public_key p = k"
  proof
    assume "\<exists>p. p \<in> set (peers runtime) \<and> public_key p = k"
    then obtain i where "i < length (peers runtime)" "public_key (peers runtime ! i) = k"
      by (auto simp: in_set_conv_nth)
    then have "\<lparr>from_file = False, pos = i\<rparr> \<in> set os" "origin_key conf runtime \<lparr>from_file = False, pos = i\<rparr> = k"
      unfolding st by (auto simp: all_origins_def origin_key_def)
    with None show False
      by (force simp: find_None_iff)
  qed
  then have "running_peer runtime k = None"
    unfolding running_peer_def find_None_iff by blast
  with None show ?thesis
    by (simp add: seen_peer_def)
next
  case (Some o1)
  then have o1: "o1 \<in> set os" "\<not> from_file o1" "origin_key conf runtime o1 = k"
    by (auto simp: find_Some_iff)
  then have "peers runtime ! pos o1 \<in> set (peers runtime)" "public_key (peers runtime ! pos o1) = k"
    using origin_bound [of o1 conf runtime] unfolding st by (auto simp: origin_key_def)
  then have "running_peer runtime k = Some (peers runtime ! pos o1)"
    using tw find_unique [of public_key "peers runtime" "peers runtime ! pos o1"]
    by (simp add: running_peer_def two_devices_def)
  with Some show ?thesis
    by (simp add: seen_peer_def)
qed

lemma to_remove_keys:
  assumes tw: "two_devices conf runtime" and ms: "mset os = mset (all_origins conf runtime)"
  shows "distinct (to_remove conf runtime os) \<and>
    set (to_remove conf runtime os) = public_key ` set (peers runtime) - public_key ` set (peers conf)"
proof -
  have st: "set os = set (all_origins conf runtime)"
    using ms by (metis set_mset_mset)
  have dis: "distinct os"
    using origins_distinct ms by (metis mset_eq_imp_distinct_iff)
  have tr: "to_remove conf runtime os = map (origin_key conf runtime)
      (filter (\<lambda>o1. \<not> from_file o1 \<and> origin_key conf runtime o1 \<notin> public_key ` set (peers conf)) os)"
    by (induction os) (auto simp: to_remove_def)
  have "inj_on (origin_key conf runtime) {o1 \<in> set os. \<not> from_file o1}"
    unfolding inj_on_def st by (auto intro: origin_unique [OF tw])
  then have "distinct (to_remove conf runtime os)"
    unfolding tr using dis by (auto simp: distinct_map intro: inj_on_subset)
  moreover have "origin_key conf runtime ` {o1 \<in> set os. \<not> from_file o1} = public_key ` set (peers runtime)"
    unfolding st by (force simp: all_origins_def origin_key_def in_set_conv_nth image_iff)
  moreover have "set (to_remove conf runtime os) =
      origin_key conf runtime ` {o1 \<in> set os. \<not> from_file o1} - public_key ` set (peers conf)"
    unfolding tr by auto
  ultimately show ?thesis
    by simp
qed

lemma map_upt_nth: "map (\<lambda>j. f (xs ! j)) [0..<length xs] = map f xs"
  by (rule nth_equalityI) simp_all


lemma distinct_singleton_set: "distinct xs \<Longrightarrow> set xs = {a} \<Longrightarrow> xs = [a]"
  by (cases xs; cases "tl xs") auto

text \<open>Two running peers, one of which is in the file, which drops its interval.\<close>

definition demo_peer :: "u8 \<Rightarrow> u16 \<Rightarrow> wgpeer" where
  "demo_peer k n = zero_peer\<lparr>peer_flags := 4, public_key := replicate 32 k, persistent_keepalive_interval := n\<rparr>"


end
