(* ===== verification/Wg_Show.thy ===== *)
theory Wg_Show
  imports Wg_Config_Laws
begin

text \<open>
  Printing a running configuration (\<^verbatim>\<open>wireguard-tools/src/showconf.c\<close>), and that the reader of
  \<open>Wg_Config\<close> takes the printed text for the same configuration. The standard output is a string;
  the printers of addresses of the C library are a record of functions.
\<close>

subsection \<open>Numbers\<close>

text \<open>The conversions \<^verbatim>\<open>%u\<close>, \<^verbatim>\<open>%d\<close> of a number that is not negative, and \<^verbatim>\<open>%x\<close>.\<close>

definition digit_char :: "nat \<Rightarrow> char" where
  "digit_char d = ''0123456789abcdef'' ! d"

fun num_str :: "nat \<Rightarrow> nat \<Rightarrow> string" where
  "num_str b n = (if n < b \<or> b < 2 then [digit_char n] else num_str b (n div b) @ [digit_char (n mod b)])"

declare num_str.simps [simp del]

definition dec :: "nat \<Rightarrow> string" where
  "dec n = num_str 10 n"

subsection \<open>Model\<close>

record show_env =
  ntop4 :: "u32 \<Rightarrow> string option"
  ntop6 :: "128 word \<Rightarrow> string option"
  name_info :: "sockaddr \<Rightarrow> (string \<times> string) option"

definition nl :: string where
  "nl = [CHR 0x0A]"

definition key_str :: "u8 list \<Rightarrow> string" where
  "key_str key = c_str (map (\<lambda>b. char_of (unat b)) (key_to_base64 key))"

definition show_addr :: "show_env \<Rightarrow> ip_addr \<Rightarrow> string option" where
  "show_addr n a = (case a of AF_INET x \<Rightarrow> ntop4 n x | AF_INET6 x \<Rightarrow> ntop6 n x | AF_UNSPEC \<Rightarrow> None)"

fun show_aips :: "show_env \<Rightarrow> wgallowedip list \<Rightarrow> string" where
  "show_aips n [] = []"
| "show_aips n (a # as) =
     (case show_addr n (addr a) of
        None \<Rightarrow> []
      | Some ip \<Rightarrow> ip @ ''/'' @ dec (unat (cidr a)) @ (if as \<noteq> [] then '', '' else [])) @ show_aips n as"

definition show_endpoint :: "show_env \<Rightarrow> sockaddr \<Rightarrow> string" where
  "show_endpoint n ep =
     (case ep of
        SA_NONE \<Rightarrow> []
      | _ \<Rightarrow> (case name_info n ep of
                None \<Rightarrow> []
              | Some (host, service) \<Rightarrow>
                  if (case ep of SA_IN6 _ _ _ _ \<Rightarrow> True | _ \<Rightarrow> False) \<and> CHR '':'' \<in> set host
                  then ''Endpoint = ['' @ host @ '']:'' @ service @ nl
                  else ''Endpoint = '' @ host @ '':'' @ service @ nl))"

definition show_peer :: "show_env \<Rightarrow> wgpeer \<Rightarrow> string" where
  "show_peer n p =
     ''[Peer]'' @ nl @ ''PublicKey = '' @ key_str (public_key p) @ nl @
     (if peer_flags p AND WGPEER_HAS_PRESHARED_KEY \<noteq> 0 then ''PresharedKey = '' @ key_str (preshared_key p) @ nl else []) @
     (if allowedips p \<noteq> [] then ''AllowedIPs = '' else []) @ show_aips n (allowedips p) @
     (if allowedips p \<noteq> [] then nl else []) @
     show_endpoint n (endpoint p) @
     (if persistent_keepalive_interval p \<noteq> 0
      then ''PersistentKeepalive = '' @ dec (unat (persistent_keepalive_interval p)) @ nl else [])"

fun show_peers :: "show_env \<Rightarrow> wgpeer list \<Rightarrow> string" where
  "show_peers n [] = []"
| "show_peers n (p # ps) = show_peer n p @ (if ps \<noteq> [] then nl else []) @ show_peers n ps"

definition show_conf :: "show_env \<Rightarrow> wgdevice \<Rightarrow> string" where
  "show_conf n d =
     ''[Interface]'' @ nl @
     (if listen_port d \<noteq> 0 then ''ListenPort = '' @ dec (unat (listen_port d)) @ nl else []) @
     (if fwmark d \<noteq> 0 then ''FwMark = 0x'' @ num_str 16 (unat (fwmark d)) @ nl else []) @
     (if dev_flags d AND WGDEVICE_HAS_PRIVATE_KEY \<noteq> 0 then ''PrivateKey = '' @ key_str (private_key d) @ nl else []) @
     nl @ show_peers n (peers d)"

text \<open>The exit code and the output.\<close>

definition showconf_main :: "show_env \<Rightarrow> (string \<Rightarrow> wgdevice option) \<Rightarrow> string list \<Rightarrow> int \<times> string" where
  "showconf_main n ipc_get argv =
     (if length argv \<noteq> 2 then (1, [])
      else (case ipc_get (argv ! 1) of None \<Rightarrow> (1, []) | Some d \<Rightarrow> (0, show_conf n d)))"

text \<open>\<^verbatim>\<open>getline\<close>: the lines of a text, each with its newline.\<close>

fun lines_of :: "string \<Rightarrow> string list" where
  "lines_of [] = []"
| "lines_of (c # cs) =
     (if c = CHR 0x0A then [c] # lines_of cs
      else (case lines_of cs of [] \<Rightarrow> [[c]] | l # ls \<Rightarrow> (c # l) # ls))"

subsection \<open>Numbers read back\<close>

lemma digit_char_val:
  assumes "d < 16"
  shows "digit_val (digit_char d) = int d"
proof -
  have "d = 0 \<or> d = 1 \<or> d = 2 \<or> d = 3 \<or> d = 4 \<or> d = 5 \<or> d = 6 \<or> d = 7 \<or> d = 8 \<or> d = 9 \<or> d = 10 \<or>
      d = 11 \<or> d = 12 \<or> d = 13 \<or> d = 14 \<or> d = 15"
    using assms by arith
  then show ?thesis
    by (elim disjE) (simp_all add: digit_val_def digit_char_def)
qed

lemma num_str_digits:
  assumes "2 \<le> b" "b \<le> 16"
  shows "num_str b n \<noteq> [] \<and> (\<forall>c \<in> set (num_str b n). \<exists>d < b. c = digit_char d)"
  using assms
proof (induction b n rule: num_str.induct)
  case (1 b n)
  show ?case
  proof (cases "n < b")
    case True
    then show ?thesis
      by (subst num_str.simps, subst (2) num_str.simps) auto
  next
    case False
    then have "n mod b < b"
      using 1 by simp
    then have "\<exists>d < b. digit_char (n mod b) = digit_char d"
      by blast
    with 1 False show ?thesis
      by (subst num_str.simps, subst (2) num_str.simps) auto
  qed
qed

lemma num_str_is_digit:
  assumes "2 \<le> b" "b \<le> 16" "c \<in> set (num_str b n)"
  shows "is_digit (int b) c"
proof -
  obtain d where "d < b" "c = digit_char d"
    using num_str_digits [OF assms(1,2)] assms(3) by blast
  then show ?thesis
    using assms(2) by (simp add: is_digit_def digit_char_val)
qed

lemma digit_clean:
  assumes "is_digit 16 c"
  shows "\<not> is_space c" "c \<notin> set ''+-#,/:[]=''"
proof -
  have n: "48 \<le> (of_char c :: nat) \<and> (of_char c :: nat) \<le> 57 \<or> 65 \<le> (of_char c :: nat) \<and> (of_char c :: nat) \<le> 70 \<or>
      97 \<le> (of_char c :: nat) \<and> (of_char c :: nat) \<le> 102"
    using assms by (auto simp: is_digit_def digit_val_def Let_def simp flip: of_nat_of_char [where 'a = int] split: if_splits)
  then show "\<not> is_space c"
    by (auto simp: is_space_def)
  show "c \<notin> set ''+-#,/:[]=''"
    using n by auto
qed

lemma is_digit_mono: "is_digit 10 c \<Longrightarrow> is_digit 16 c"
  by (simp add: is_digit_def)

lemma num_str_value:
  assumes "2 \<le> b" "b \<le> 16"
  shows "foldl (\<lambda>acc c. acc * int b + digit_val c) 0 (num_str b n) = int n"
  using assms
proof (induction b n rule: num_str.induct)
  case (1 b n)
  show ?case
  proof (cases "n < b")
    case True
    then show ?thesis
      using 1 by (subst num_str.simps) (simp add: digit_char_val)
  next
    case False
    then have "foldl (\<lambda>acc c. acc * int b + digit_val c) 0 (num_str b n) = int (n div b) * int b + int (n mod b)"
      using 1 by (subst num_str.simps) (simp add: digit_char_val order_less_le_trans [OF mod_less_divisor])
    also have "\<dots> = int n"
      by (metis div_mult_mod_eq of_nat_add of_nat_mult)
    finally show ?thesis .
  qed
qed

lemma strtoul_dec:
  assumes "int n < 2 ^ bits"
  shows "strtoul bits 10 (dec n) = (int n, [])"
proof -
  let ?s = "num_str 10 n"
  have dig: "is_digit 10 c" if "c \<in> set ?s" for c
    using num_str_is_digit [of 10 c n] that by simp
  then have tw: "takeWhile (is_digit 10) ?s = ?s" "dropWhile (is_digit 10) ?s = []"
    by (auto simp: takeWhile_eq_all_conv dropWhile_eq_Nil_conv)
  obtain c cs where c: "?s = c # cs"
    using num_str_digits [of 10 n] by (cases ?s) auto
  then have "is_digit 10 c"
    using dig by simp
  then have "read_sign ?s = (False, ?s)"
    using digit_clean [OF is_digit_mono] by (auto simp: c read_sign_def)
  then show ?thesis
    using tw c num_str_value [of 10 n] assms by (simp add: strtoul_def dec_def read_digits_def)
qed

lemma strtoul_hex:
  assumes "int n < 2 ^ bits"
  shows "strtoul bits 16 (''0x'' @ num_str 16 n) = (int n, [])"
proof -
  let ?s = "num_str 16 n"
  have dig: "is_digit 16 c" if "c \<in> set ?s" for c
    using num_str_is_digit [of 16 c n] that by simp
  then have tw: "takeWhile (is_digit 16) ?s = ?s" "dropWhile (is_digit 16) ?s = []"
    by (auto simp: takeWhile_eq_all_conv dropWhile_eq_Nil_conv)
  obtain c cs where c: "?s = c # cs"
    using num_str_digits [of 16 n] by (cases ?s) auto
  then have "is_digit 16 c"
    using dig by simp
  then have x: "strip_0x (''0x'' @ ?s) = ?s"
    by (simp add: c)
  have "read_sign (''0x'' @ ?s) = (False, ''0x'' @ ?s)"
    by (simp add: read_sign_def is_space_def)
  then show ?thesis
    using tw c num_str_value [of 16 n] assms x unfolding strtoul_def by (simp add: read_digits_def del: strip_0x.simps)
qed

subsection \<open>Lines read back\<close>

text \<open>Characters that survive the removal of spaces and comments.\<close>

definition plain :: "string \<Rightarrow> bool" where
  "plain s \<longleftrightarrow> (\<forall>c \<in> set s. \<not> is_space c \<and> c \<noteq> CHR ''#'')"

lemma plain_simps [simp]:
  "plain []" "plain (c # s) \<longleftrightarrow> \<not> is_space c \<and> c \<noteq> CHR ''#'' \<and> plain s" "plain (s @ t) \<longleftrightarrow> plain s \<and> plain t"
  by (auto simp: plain_def)

lemma plain_digits:
  assumes "2 \<le> b" "b \<le> 16"
  shows "plain (num_str b n)"
proof -
  have "is_digit 16 c" if "c \<in> set (num_str b n)" for c
    using num_str_is_digit [OF assms that] assms(2) by (simp add: is_digit_def)
  then show ?thesis
    using digit_clean by (auto simp: plain_def)
qed

lemma plain_dec [simp]: "plain (dec n)"
  by (simp add: dec_def plain_digits)

lemma char_bytes: "(of_char (char_of (unat b)) :: u8) = b" for b :: u8
proof -
  have "unat b < 256"
    using unsigned_less [of b, where 'a = nat] by simp
  then have h: "(of_char (char_of (unat b)) :: nat) = unat b"
    by simp
  show ?thesis
    by (simp only: of_char_word h) simp
qed

lemma key_str_chars:
  "key_str key = map (\<lambda>b. char_of (unat b)) (encode_groups key)"
proof -
  have "char_of (unat b) \<noteq> CHR 0x00" if "b \<in> set (encode_groups key)" for b
  proof
    assume "char_of (unat b) = CHR 0x00"
    then have "(of_char (char_of (unat b)) :: u8) = of_char (CHR 0x00)"
      by (rule arg_cong)
    then have "b = 0"
      by (simp add: char_bytes)
    then show False
      using encode_groups_range [OF that] by simp
  qed
  then have "c_str (map (\<lambda>b. char_of (unat b)) (encode_groups key) @ [CHR 0x00] ) = map (\<lambda>b. char_of (unat b)) (encode_groups key)"
    unfolding c_str_def by (subst takeWhile_append2) auto
  moreover have "char_of (0 :: nat) = CHR 0x00"
    by (simp add: char_of_def)
  ultimately show ?thesis
    by (simp add: key_str_def key_to_base64_def)
qed

lemma parse_key_str: "length key = WG_KEY_LEN \<Longrightarrow> parse_key e old (key_str key) = (True, key)"
  by (simp add: parse_key_def key_str_chars o_def char_bytes key_base64_reads)

lemma plain_key_str [simp]: "plain (key_str key)"
proof -
  have "\<not> is_space (char_of (unat b)) \<and> char_of (unat b) \<noteq> CHR ''#''" if "b \<in> set (encode_groups key)" for b
  proof -
    have u: "43 \<le> unat b" "unat b \<le> 122"
      using encode_groups_range [OF that] unfolding unat_eq_nat_uint by linarith+
    then have h: "(of_char (char_of (unat b)) :: nat) = unat b"
      by simp
    then have "unat b = of_char c" if "char_of (unat b) = c" for c
      using that by simp
    from this [of "CHR '' ''"] this [of "CHR ''#''"] show ?thesis
      using u h by (auto simp: is_space_def)
  qed
  then show ?thesis
    by (auto simp: plain_def key_str_chars)
qed

lemma key_str_nonempty: "length key = WG_KEY_LEN \<Longrightarrow> key_str key \<noteq> []"
  using key_base64_reads(1) [of key] by (auto simp: key_str_chars WG_KEY_LEN_BASE64_def WG_KEY_LEN_def)

lemma read_setting:
  assumes "plain k" "plain v"
  shows "config_read_line e ctx (k @ '' = '' @ v @ nl) =
    do { (ok, ctx1) \<leftarrow> process_line e ctx (k @ ''='' @ v); Some (if ok then Some ctx1 else None) }"
proof -
  have t: "takeWhile (\<lambda>c. c \<noteq> CHR ''#'') (k @ '' = '' @ v @ nl) = k @ '' = '' @ v @ nl"
    using assms by (auto simp: takeWhile_eq_all_conv plain_def nl_def)
  have "filter (\<lambda>c. \<not> is_space c) k = k" "filter (\<lambda>c. \<not> is_space c) v = v"
    using assms by (auto simp: plain_def filter_id_conv)
  then have "filter (\<lambda>c. \<not> is_space c) (k @ '' = '' @ v @ nl) = k @ ''='' @ v"
    by (simp add: nl_def is_space_def)
  then show ?thesis
    unfolding config_read_line_def Let_def char_class_simps t by simp
qed

lemma get_value_key: "v \<noteq> [] \<Longrightarrow> get_value (k @ v) k = Some v"
  by (simp add: get_value_def strncasecmp_def)

lemmas key_cmp = get_value_def strncasecmp_def strcasecmp_def to_lower_def char_of_def

text \<open>Each kind of line, from the text that is printed to what it does to the reader.\<close>

lemma read_blank: "config_read_line e ctx nl = Some (Some ctx)"
  by (simp add: config_read_line_def nl_def is_space_def)

lemma read_section:
  assumes "plain l" "l \<noteq> []"
  shows "config_read_line e ctx (l @ nl) = do { (ok, ctx1) \<leftarrow> process_line e ctx l; Some (if ok then Some ctx1 else None) }"
proof -
  have t: "takeWhile (\<lambda>c. c \<noteq> CHR ''#'') (l @ nl) = l @ nl"
    using assms by (auto simp: takeWhile_eq_all_conv plain_def nl_def)
  have "filter (\<lambda>c. \<not> is_space c) (l @ nl) = l"
    using assms by (auto simp: plain_def nl_def is_space_def filter_id_conv)
  then show ?thesis
    unfolding config_read_line_def Let_def char_class_simps t using assms(2) by simp
qed

lemma read_interface:
  "config_read_line e ctx (''[Interface]'' @ nl) = Some (Some (ctx\<lparr>is_peer_section := False, is_device_section := True\<rparr>))"
  using read_section [of "''[Interface]''" e ctx] by (simp add: is_space_def process_line_def strcasecmp_def)

lemma read_peer_section:
  "config_read_line e ctx (''[Peer]'' @ nl) = Some (Some (ctx\<lparr>device := (device ctx)\<lparr>peers := peers (device ctx) @
     [zero_peer\<lparr>peer_flags := 2\<rparr>]\<rparr>, is_peer_section := True, is_device_section := False\<rparr>))"
  using read_section [of "''[Peer]''" e ctx]
  by (simp add: is_space_def process_line_def strcasecmp_def to_lower_def char_of_def zero_peer_def)

lemma no_section:
  "strcasecmp (''ListenPort='' @ v) ''[Interface]''" "strcasecmp (''ListenPort='' @ v) ''[Peer]''"
  "strcasecmp (''FwMark='' @ v) ''[Interface]''" "strcasecmp (''FwMark='' @ v) ''[Peer]''"
  "strcasecmp (''PrivateKey='' @ v) ''[Interface]''" "strcasecmp (''PrivateKey='' @ v) ''[Peer]''"
  "strcasecmp (''Endpoint='' @ v) ''[Interface]''" "strcasecmp (''Endpoint='' @ v) ''[Peer]''"
  "strcasecmp (''PublicKey='' @ v) ''[Interface]''" "strcasecmp (''PublicKey='' @ v) ''[Peer]''"
  "strcasecmp (''AllowedIPs='' @ v) ''[Interface]''" "strcasecmp (''AllowedIPs='' @ v) ''[Peer]''"
  "strcasecmp (''PersistentKeepalive='' @ v) ''[Interface]''" "strcasecmp (''PersistentKeepalive='' @ v) ''[Peer]''"
  "strcasecmp (''PresharedKey='' @ v) ''[Interface]''" "strcasecmp (''PresharedKey='' @ v) ''[Peer]''"
  by (simp_all add: key_cmp)

lemma other_key:
  "get_value (''FwMark='' @ v) ''ListenPort='' = None"
  "get_value (''PrivateKey='' @ v) ''ListenPort='' = None"
  "get_value (''PrivateKey='' @ v) ''FwMark='' = None"
  "get_value (''PublicKey='' @ v) ''Endpoint='' = None"
  "get_value (''AllowedIPs='' @ v) ''Endpoint='' = None"
  "get_value (''AllowedIPs='' @ v) ''PublicKey='' = None"
  "get_value (''PersistentKeepalive='' @ v) ''Endpoint='' = None"
  "get_value (''PersistentKeepalive='' @ v) ''PublicKey='' = None"
  "get_value (''PersistentKeepalive='' @ v) ''AllowedIPs='' = None"
  "get_value (''PresharedKey='' @ v) ''Endpoint='' = None"
  "get_value (''PresharedKey='' @ v) ''PublicKey='' = None"
  "get_value (''PresharedKey='' @ v) ''AllowedIPs='' = None"
  "get_value (''PresharedKey='' @ v) ''PersistentKeepalive='' = None"
  by (simp_all add: key_cmp)

text \<open>A line of the device section and of a peer section, past the tests for the sections.\<close>

lemma device_setting:
  assumes "is_device_section ctx" "strcasecmp l ''[Interface]''" "strcasecmp l ''[Peer]''" "device_line e ctx l = (True, ctx')"
  shows "process_line e ctx l = Some (True, ctx')"
  using assms by (simp add: process_line_def)

lemma peer_setting:
  assumes "is_peer_section ctx" "\<not> is_device_section ctx" "strcasecmp l ''[Interface]''" "strcasecmp l ''[Peer]''"
    "peer_line e ctx l = Some (True, ctx')"
  shows "process_line e ctx l = Some (True, ctx')"
  using assms by (simp add: process_line_def)

lemma dec_nonempty: "dec n \<noteq> []"
  using num_str_digits [of 10 n] by (simp add: dec_def)

lemma read_line_ok:
  assumes "plain k" "plain v" "process_line e ctx (k @ ''='' @ v) = Some (True, ctx')"
  shows "config_read_line e ctx (k @ '' = '' @ v @ nl) = Some (Some ctx')"
  using read_setting [OF assms(1,2)] assms(3) by simp

lemma read_listen_port:
  assumes "is_device_section ctx" "resolve_port e (dec n) = Gai_Addr a" "a = SA_IN x p \<or> a = SA_IN6 y p f sc"
  shows "config_read_line e ctx (''ListenPort'' @ '' = '' @ dec n @ nl) =
    Some (Some (set_device ctx ((device ctx)\<lparr>listen_port := p, dev_flags := dev_flags (device ctx) OR 8\<rparr>)))"
proof (rule read_line_ok)
  have "get_value (''ListenPort='' @ dec n) ''ListenPort='' = Some (dec n)"
    by (rule get_value_key [OF dec_nonempty])
  then show "process_line e ctx (''ListenPort'' @ ''='' @ dec n) =
      Some (True, set_device ctx ((device ctx)\<lparr>listen_port := p, dev_flags := dev_flags (device ctx) OR 8\<rparr>))"
    using assms dec_nonempty no_section(1,2) [of "dec n"]
    by (intro device_setting) (auto simp: device_line_def parse_port_def Let_def)
qed (simp_all add: is_space_def)

lemma parse_fwmark_hex:
  assumes "32 \<le> ulong_bits e"
  shows "parse_fwmark e m f (''0x'' @ num_str 16 (unat x)) = (True, x, f OR 16)"
proof -
  have "uint x < 2 ^ 32"
    using unsigned_less [of x, where 'a = int] by simp
  also have "(2 :: int) ^ 32 \<le> 2 ^ ulong_bits e"
    using assms by (intro power_increasing) auto
  finally have "strtoul (ulong_bits e) 16 (''0x'' @ num_str 16 (unat x)) = (uint x, [])"
    using strtoul_hex [of "unat x" "ulong_bits e"] by simp
  moreover have "num_str 16 (unat x) \<noteq> []"
    using num_str_digits [of 16 "unat x"] by simp
  moreover have "strcasecmp (''0x'' @ num_str 16 (unat x)) ''off''"
    by (simp add: strcasecmp_def to_lower_def)
  moreover have "is_digit 10 CHR ''0''"
    by (simp add: is_digit_def digit_val_def)
  moreover have "uint x \<le> 0xFFFFFFFF"
    using \<open>uint x < 2 ^ 32\<close> by simp
  ultimately show ?thesis
    by (simp add: parse_fwmark_def at0_def)
qed

lemma read_fwmark:
  assumes "is_device_section ctx" "32 \<le> ulong_bits e"
  shows "config_read_line e ctx (''FwMark'' @ '' = '' @ (''0x'' @ num_str 16 (unat x)) @ nl) =
    Some (Some (set_device ctx ((device ctx)\<lparr>fwmark := x, dev_flags := dev_flags (device ctx) OR 16\<rparr>)))"
proof (rule read_line_ok)
  let ?v = "''0x'' @ num_str 16 (unat x)"
  have "get_value (''FwMark='' @ ?v) ''FwMark='' = Some ?v"
    by (rule get_value_key) simp
  then have "device_line e ctx (''FwMark='' @ ?v) =
      (True, set_device ctx ((device ctx)\<lparr>fwmark := x, dev_flags := dev_flags (device ctx) OR 16\<rparr>))"
    unfolding device_line_def Let_def other_key by (simp only: option.case parse_fwmark_hex [OF assms(2)] prod.case)
  then show "process_line e ctx (''FwMark'' @ ''='' @ ?v) =
      Some (True, set_device ctx ((device ctx)\<lparr>fwmark := x, dev_flags := dev_flags (device ctx) OR 16\<rparr>))"
    using assms(1) no_section(3,4) [of ?v] by (intro device_setting) simp_all
qed (simp_all add: is_space_def plain_digits)

lemma read_private_key:
  assumes "is_device_section ctx" "length key = WG_KEY_LEN"
  shows "config_read_line e ctx (''PrivateKey'' @ '' = '' @ key_str key @ nl) =
    Some (Some (set_device ctx ((device ctx)\<lparr>private_key := key, dev_flags := dev_flags (device ctx) OR 2\<rparr>)))"
proof (rule read_line_ok)
  let ?v = "key_str key"
  have "get_value (''PrivateKey='' @ ?v) ''PrivateKey='' = Some ?v"
    by (rule get_value_key) (simp add: key_str_nonempty assms(2))
  then have "device_line e ctx (''PrivateKey='' @ ?v) =
      (True, set_device ctx ((device ctx)\<lparr>private_key := key, dev_flags := dev_flags (device ctx) OR 2\<rparr>))"
    unfolding device_line_def Let_def other_key by (simp add: parse_key_str [OF assms(2)])
  then show "process_line e ctx (''PrivateKey'' @ ''='' @ ?v) =
      Some (True, set_device ctx ((device ctx)\<lparr>private_key := key, dev_flags := dev_flags (device ctx) OR 2\<rparr>))"
    using assms(1) no_section(5,6) [of ?v] by (intro device_setting) simp_all
qed (simp_all add: is_space_def)

lemma read_public_key:
  assumes "is_peer_section ctx" "\<not> is_device_section ctx" "length key = WG_KEY_LEN"
  shows "config_read_line e ctx (''PublicKey'' @ '' = '' @ key_str key @ nl) =
    Some (Some (set_last_peer ctx ((last_peer ctx)\<lparr>public_key := key, peer_flags := peer_flags (last_peer ctx) OR 4\<rparr>)))"
proof (rule read_line_ok)
  let ?v = "key_str key"
  have "get_value (''PublicKey='' @ ?v) ''PublicKey='' = Some ?v"
    by (rule get_value_key) (simp add: key_str_nonempty assms(3))
  then have "peer_line e ctx (''PublicKey='' @ ?v) =
      Some (True, set_last_peer ctx ((last_peer ctx)\<lparr>public_key := key, peer_flags := peer_flags (last_peer ctx) OR 4\<rparr>))"
    unfolding peer_line_def Let_def other_key by (simp add: parse_key_str [OF assms(3)])
  then show "process_line e ctx (''PublicKey'' @ ''='' @ ?v) =
      Some (True, set_last_peer ctx ((last_peer ctx)\<lparr>public_key := key, peer_flags := peer_flags (last_peer ctx) OR 4\<rparr>))"
    using assms(1,2) no_section(9,10) [of ?v] by (intro peer_setting) simp_all
qed (simp_all add: is_space_def)

lemma read_preshared_key:
  assumes "is_peer_section ctx" "\<not> is_device_section ctx" "length key = WG_KEY_LEN"
  shows "config_read_line e ctx (''PresharedKey'' @ '' = '' @ key_str key @ nl) =
    Some (Some (set_last_peer ctx ((last_peer ctx)\<lparr>preshared_key := key, peer_flags := peer_flags (last_peer ctx) OR 8\<rparr>)))"
proof (rule read_line_ok)
  let ?v = "key_str key"
  have "get_value (''PresharedKey='' @ ?v) ''PresharedKey='' = Some ?v"
    by (rule get_value_key) (simp add: key_str_nonempty assms(3))
  then have "peer_line e ctx (''PresharedKey='' @ ?v) =
      Some (True, set_last_peer ctx ((last_peer ctx)\<lparr>preshared_key := key, peer_flags := peer_flags (last_peer ctx) OR 8\<rparr>))"
    unfolding peer_line_def Let_def other_key by (simp add: parse_key_str [OF assms(3)])
  then show "process_line e ctx (''PresharedKey'' @ ''='' @ ?v) =
      Some (True, set_last_peer ctx ((last_peer ctx)\<lparr>preshared_key := key, peer_flags := peer_flags (last_peer ctx) OR 8\<rparr>))"
    using assms(1,2) no_section(15,16) [of ?v] by (intro peer_setting) simp_all
qed (simp_all add: is_space_def)

lemma dec_first:
  obtains c cs where "dec n = c # cs" "is_digit 10 c" "strcasecmp (dec n) ''off''"
proof -
  obtain c cs where c: "dec n = c # cs"
    using dec_nonempty [of n] by (cases "dec n") auto
  then have d: "is_digit 10 c"
    using num_str_is_digit [of 10 c n] by (simp add: dec_def)
  then have "48 \<le> (of_char c :: nat) \<and> (of_char c :: nat) \<le> 57"
    by (auto simp: is_digit_def digit_val_def Let_def simp flip: of_nat_of_char [where 'a = int] split: if_splits)
  then have "strcasecmp (dec n) ''off''"
    by (auto simp: c strcasecmp_def to_lower_def Let_def)
  with c d that show thesis
    by blast
qed

lemma strtoul_dec_small: "n < 65536 \<Longrightarrow> 32 \<le> bits \<Longrightarrow> strtoul bits 10 (dec n) = (int n, [])"
proof (rule strtoul_dec)
  assume "n < 65536" "32 \<le> bits"
  have "int n < 2 ^ 32"
    using \<open>n < 65536\<close> by simp
  also have "(2 :: int) ^ 32 \<le> 2 ^ bits"
    using \<open>32 \<le> bits\<close> by (intro power_increasing) auto
  finally show "int n < 2 ^ bits" .
qed

lemma read_keepalive:
  assumes "is_peer_section ctx" "\<not> is_device_section ctx" "32 \<le> ulong_bits e"
  shows "config_read_line e ctx (''PersistentKeepalive'' @ '' = '' @ dec (unat x) @ nl) =
    Some (Some (set_last_peer ctx ((last_peer ctx)\<lparr>persistent_keepalive_interval := x,
      peer_flags := peer_flags (last_peer ctx) OR 16\<rparr>)))"
proof (rule read_line_ok)
  let ?v = "dec (unat x)"
  have x: "unat x < 65536" "uint x \<le> 65535"
    using unsigned_less [of x, where 'a = nat] unsigned_less [of x, where 'a = int] by simp_all
  obtain c cs where "?v = c # cs" "is_digit 10 c" "strcasecmp ?v ''off''"
    by (rule dec_first)
  then have "parse_persistent_keepalive e i f ?v = (True, x, f OR 16)" for i f
    using strtoul_dec_small [OF x(1) assms(3)] x(2) by (simp add: parse_persistent_keepalive_def at0_def)
  moreover have "get_value (''PersistentKeepalive='' @ ?v) ''PersistentKeepalive='' = Some ?v"
    by (rule get_value_key [OF dec_nonempty])
  ultimately have "peer_line e ctx (''PersistentKeepalive='' @ ?v) =
      Some (True, set_last_peer ctx ((last_peer ctx)\<lparr>persistent_keepalive_interval := x,
        peer_flags := peer_flags (last_peer ctx) OR 16\<rparr>))"
    unfolding peer_line_def Let_def other_key by simp
  then show "process_line e ctx (''PersistentKeepalive'' @ ''='' @ ?v) =
      Some (True, set_last_peer ctx ((last_peer ctx)\<lparr>persistent_keepalive_interval := x,
        peer_flags := peer_flags (last_peer ctx) OR 16\<rparr>))"
    using assms(1,2) no_section(13,14) [of ?v] by (intro peer_setting) simp_all
qed (simp_all add: is_space_def)

text \<open>An endpoint is printed so that the reader cuts it at the same place.\<close>

lemma split_bracketed:
  assumes "CHR '']'' \<notin> set h" "sv \<noteq> []"
  shows "split_endpoint (''['' @ h @ '']:'' @ sv) = Some (h, sv)"
proof -
  have "takeWhile (\<lambda>c. c \<noteq> CHR '']'') (h @ CHR '']'' # t) = h" "dropWhile (\<lambda>c. c \<noteq> CHR '']'') (h @ CHR '']'' # t) = CHR '']'' # t"
    for t
    using assms(1) by (simp_all add: takeWhile_append dropWhile_append)
  then show ?thesis
    using assms(2) by (simp add: split_endpoint_def at0_def)
qed

lemma split_plain:
  assumes "at0 (h @ '':'' @ sv) \<noteq> CHR ''[''" "CHR '':'' \<notin> set sv" "sv \<noteq> []"
  shows "split_endpoint (h @ '':'' @ sv) = Some (h, sv)"
proof -
  have "takeWhile (\<lambda>c. c \<noteq> CHR '':'') (rev sv @ CHR '':'' # t) = rev sv"
    "dropWhile (\<lambda>c. c \<noteq> CHR '':'') (rev sv @ CHR '':'' # t) = CHR '':'' # t" for t
    using assms(2) by (simp_all add: takeWhile_append dropWhile_append)
  then show ?thesis
    using assms(1,3) by (simp add: split_endpoint_def Let_def)
qed

lemma read_endpoint:
  assumes "is_peer_section ctx" "\<not> is_device_section ctx"
    and "plain v" "split_endpoint v = Some (h, sv)" "resolve_host e 0 h sv = Gai_Addr ep" "ep \<noteq> SA_NONE"
    "parse_dns_retries e = Some r"
  shows "config_read_line e ctx (''Endpoint'' @ '' = '' @ v @ nl) =
    Some (Some (set_last_peer ctx ((last_peer ctx)\<lparr>endpoint := ep\<rparr>)))"
proof (rule read_line_ok)
  have v: "v \<noteq> []"
    using assms(4) by (auto simp: split_endpoint_def at0_def)
  have "resolve_loop e h sv 0 r = Some (Gai_Addr ep)"
    by (subst resolve_loop.simps) (simp add: assms(5))
  then have "parse_endpoint e old v = Some (True, ep)" for old
    using assms(4,6,7) v by (cases ep) (simp_all add: parse_endpoint_def)
  moreover have "get_value (''Endpoint='' @ v) ''Endpoint='' = Some v"
    by (rule get_value_key [OF v])
  ultimately have "peer_line e ctx (''Endpoint='' @ v) = Some (True, set_last_peer ctx ((last_peer ctx)\<lparr>endpoint := ep\<rparr>))"
    unfolding peer_line_def Let_def by simp
  then show "process_line e ctx (''Endpoint'' @ ''='' @ v) =
      Some (True, set_last_peer ctx ((last_peer ctx)\<lparr>endpoint := ep\<rparr>))"
    using assms(1,2) no_section(7,8) [of v] by (intro peer_setting) simp_all
qed (use assms(3) in \<open>simp_all add: is_space_def\<close>)

text \<open>
  What the printers and parsers of addresses have to do for the addresses that occur: they are inverse, and
  a printed address has none of the characters that separate or mark entries.
\<close>

definition good_aip :: "wg_env \<Rightarrow> show_env \<Rightarrow> wgallowedip \<Rightarrow> bool" where
  "good_aip e n a \<longleftrightarrow> wf_aip a \<and>
     (case show_addr n (addr a) of
        None \<Rightarrow> False
      | Some ip \<Rightarrow> ip \<noteq> [] \<and> plain ip \<and> CHR '','' \<notin> set ip \<and> CHR ''/'' \<notin> set ip \<and> CHR 0x0A \<notin> set ip \<and>
          at0 ip \<noteq> CHR ''+'' \<and> at0 ip \<noteq> CHR ''-'' \<and>
          (case addr a of
             AF_INET x \<Rightarrow> CHR '':'' \<notin> set ip \<and> pton4 e ip = Some x
           | AF_INET6 x \<Rightarrow> CHR '':'' \<in> set ip \<and> pton6 e ip = Some x
           | AF_UNSPEC \<Rightarrow> False))"

text \<open>The list of addresses without the blanks.\<close>

fun join_aips :: "show_env \<Rightarrow> wgallowedip list \<Rightarrow> string" where
  "join_aips n [] = []"
| "join_aips n (a # as) =
     (case show_addr n (addr a) of
        None \<Rightarrow> []
      | Some ip \<Rightarrow> ip @ ''/'' @ dec (unat (cidr a)) @ (if as \<noteq> [] then '','' else [])) @ join_aips n as"

lemma dec_char:
  assumes "c \<in> set (dec n)"
  shows "is_digit 16 c"
  using num_str_is_digit [of 10 c n] assms by (simp add: dec_def is_digit_mono)

lemma dec_no_special: "CHR '','' \<notin> set (dec n)" "CHR ''/'' \<notin> set (dec n)" "CHR 0x0A \<notin> set (dec n)"
  "CHR '':'' \<notin> set (dec n)" "CHR ''['' \<notin> set (dec n)" "CHR '']'' \<notin> set (dec n)"
  using dec_char [of _ n] digit_clean(2) digit_clean(1) [of "CHR 0x0A"] by (auto simp: is_space_def)

lemma plain_filter: "plain s \<Longrightarrow> filter (\<lambda>c. \<not> is_space c) s = s"
  by (auto simp: plain_def filter_id_conv)

lemma plain_hash: "plain s \<Longrightarrow> CHR ''#'' \<notin> set s"
  by (auto simp: plain_def)

lemma separators_kept: "is_space CHR '' ''" "\<not> is_space CHR ''/''" "\<not> is_space CHR '',''" "\<not> is_space CHR ''=''"
  "is_space CHR 0x0A"
  by (simp_all add: is_space_def)

lemma show_aips_blanks:
  "list_all (good_aip e n) as \<Longrightarrow> filter (\<lambda>c. \<not> is_space c) (show_aips n as) = join_aips n as"
proof (induction as)
  case (Cons a as)
  then obtain ip where "show_addr n (addr a) = Some ip" "plain ip"
    by (auto simp: good_aip_def split: option.splits)
  then show ?case
    using Cons plain_filter [of ip] plain_filter [OF plain_dec, of "unat (cidr a)"] by (simp add: separators_kept)
qed simp

lemma show_aips_hash: "list_all (good_aip e n) as \<Longrightarrow> CHR ''#'' \<notin> set (show_aips n as)"
proof (induction as)
  case (Cons a as)
  then obtain ip where "show_addr n (addr a) = Some ip" "plain ip"
    by (auto simp: good_aip_def split: option.splits)
  then show ?case
    using Cons plain_hash [of ip] plain_hash [of "dec (unat (cidr a))"] by simp
qed simp

lemma show_aips_newline: "list_all (good_aip e n) as \<Longrightarrow> CHR 0x0A \<notin> set (show_aips n as)"
proof (induction as)
  case (Cons a as)
  then obtain ip where "show_addr n (addr a) = Some ip" "CHR 0x0A \<notin> set ip"
    by (auto simp: good_aip_def split: option.splits)
  then show ?case
    using Cons by (simp add: dec_no_special)
qed simp

lemma strsep_at: "c \<notin> set f \<Longrightarrow> strsep c (f @ c # s) = (f, Some s)"
  by (simp add: strsep_def takeWhile_append dropWhile_append)

lemma strsep_none: "c \<notin> set f \<Longrightarrow> strsep c f = (f, None)"
  by (auto simp: strsep_def takeWhile_eq_all_conv)

lemma unat_bound_uint:
  fixes b :: "8 word"
  shows "unat b \<le> k \<Longrightarrow> uint b \<le> int k"
  unfolding unat_eq_nat_uint by linarith

lemma parse_cidr_dec:
  assumes "wf_aip a" "32 \<le> ulong_bits e"
  shows "parse_cidr e (addr a) (Some (dec (unat (cidr a)))) = Some (int (unat (cidr a)))"
proof -
  obtain c cs where c: "dec (unat (cidr a)) = c # cs" "is_digit 10 c"
    by (rule dec_first)
  have "unat (cidr a) < 65536"
    using assms(1) by (auto simp: wf_aip_def split: ip_addr.splits)
  from strtoul_dec_small [OF this assms(2)] c assms(1) show ?thesis
    by (auto simp: parse_cidr_def at0_def wf_aip_def simp del: int_nat_eq uint_nat
        split: ip_addr.splits dest: unat_bound_uint)
qed

lemma allowedips_read_back:
  assumes "list_all (good_aip e n) as" "as \<noteq> []" "32 \<le> ulong_bits e"
  shows "allowedips_loop e p (Some (join_aips n as)) =
    (True, p\<lparr>allowedips := allowedips p @ map (\<lambda>a. a\<lparr>aip_flags := 0\<rparr>) as\<rparr>)"
  using assms(1,2)
proof (induction as arbitrary: p)
  case (Cons a as)
  then obtain ip where ip: "show_addr n (addr a) = Some ip" "ip \<noteq> []" "CHR '','' \<notin> set ip" "CHR ''/'' \<notin> set ip"
    "at0 ip \<noteq> CHR ''+''" "at0 ip \<noteq> CHR ''-''" and wf: "wf_aip a" and pa: "parse_ip e ip = (True, addr a)"
    by (auto simp: good_aip_def parse_ip_def split: option.splits ip_addr.splits)
  let ?f = "ip @ ''/'' @ dec (unat (cidr a))"
  have "CHR '','' \<notin> set ?f"
    using ip(3) by (simp add: dec_no_special)
  then have sep: "strsep CHR '','' (join_aips n (a # as)) = (?f, if as = [] then None else Some (join_aips n as))"
    using strsep_at [of "CHR '',''" ?f "join_aips n as"] strsep_none [of "CHR '',''" ?f] ip(1) by auto
  have pre: "parse_ip_prefix p 0 ?f = (p, 0, ?f)"
    using ip(2,5,6) by (cases ip) (simp_all add: parse_ip_prefix_def at0_def)
  have sl: "strsep CHR ''/'' ?f = (ip, Some (dec (unat (cidr a))))"
    using strsep_at [OF ip(4)] by simp
  have a0: "\<lparr>addr = addr a, cidr = word_of_int (int (unat (cidr a))), aip_flags = 0\<rparr> = a\<lparr>aip_flags := 0\<rparr>"
    by simp
  have "allowedips_loop e p (Some (join_aips n (a # as))) =
      allowedips_loop e (p\<lparr>allowedips := allowedips p @ [a\<lparr>aip_flags := 0\<rparr>]\<rparr>) (if as = [] then None else Some (join_aips n as))"
    unfolding allowedips_loop.simps(2) sep Let_def prod.case pre sl pa parse_cidr_dec [OF wf assms(3)] option.case a0 by simp
  also have "\<dots> = (True, p\<lparr>allowedips := allowedips p @ map (\<lambda>a. a\<lparr>aip_flags := 0\<rparr>) (a # as)\<rparr>)"
    using Cons by (cases "as = []") (simp_all del: allowedips_loop.simps(2))
  finally show ?case .
qed simp

lemma read_allowedips:
  assumes "is_peer_section ctx" "\<not> is_device_section ctx" "32 \<le> ulong_bits e"
    and "list_all (good_aip e n) as" "as \<noteq> []" "allowedips (last_peer ctx) = []"
  shows "config_read_line e ctx (''AllowedIPs = '' @ show_aips n as @ nl) =
    Some (Some (set_last_peer ctx ((last_peer ctx)\<lparr>peer_flags := peer_flags (last_peer ctx) OR 2,
      allowedips := map (\<lambda>a. a\<lparr>aip_flags := 0\<rparr>) as\<rparr>)))"
proof -
  let ?v = "join_aips n as"
  have ne: "?v \<noteq> []"
    using assms(4,5) by (cases as) (auto simp: good_aip_def split: option.splits)
  have t: "takeWhile (\<lambda>c. c \<noteq> CHR ''#'') (''AllowedIPs = '' @ show_aips n as @ nl) = ''AllowedIPs = '' @ show_aips n as @ nl"
    using show_aips_hash [OF assms(4)] by (auto simp: takeWhile_eq_all_conv nl_def)
  have "filter (\<lambda>c. \<not> is_space c) ''AllowedIPs = '' = ''AllowedIPs=''" "filter (\<lambda>c. \<not> is_space c) nl = []"
    by (simp_all add: is_space_def nl_def)
  then have f: "filter (\<lambda>c. \<not> is_space c) (''AllowedIPs = '' @ show_aips n as @ nl) = ''AllowedIPs='' @ ?v"
    using show_aips_blanks [OF assms(4)] by (simp only: filter_append append_Nil2)
  have "parse_allowedips e (last_peer ctx) ?v =
      (True, (last_peer ctx)\<lparr>peer_flags := peer_flags (last_peer ctx) OR 2, allowedips := map (\<lambda>a. a\<lparr>aip_flags := 0\<rparr>) as\<rparr>)"
    using allowedips_read_back [OF assms(4,5,3)] ne assms(6)
    by (simp add: parse_allowedips_def Let_def del: allowedips_loop.simps)
  moreover have "get_value (''AllowedIPs='' @ ?v) ''AllowedIPs='' = Some ?v"
    by (rule get_value_key [OF ne])
  ultimately have "peer_line e ctx (''AllowedIPs='' @ ?v) = Some (True, set_last_peer ctx
      ((last_peer ctx)\<lparr>peer_flags := peer_flags (last_peer ctx) OR 2, allowedips := map (\<lambda>a. a\<lparr>aip_flags := 0\<rparr>) as\<rparr>))"
    unfolding peer_line_def Let_def other_key by simp
  then have "process_line e ctx (''AllowedIPs='' @ ?v) = Some (True, set_last_peer ctx
      ((last_peer ctx)\<lparr>peer_flags := peer_flags (last_peer ctx) OR 2, allowedips := map (\<lambda>a. a\<lparr>aip_flags := 0\<rparr>) as\<rparr>))"
    using assms(1,2) no_section(11,12) [of ?v] by (intro peer_setting) simp_all
  then show ?thesis
    unfolding config_read_line_def Let_def char_class_simps t f by simp
qed

subsection \<open>The text as lines\<close>

definition is_line :: "string \<Rightarrow> bool" where
  "is_line l \<longleftrightarrow> (\<exists>s. l = s @ nl \<and> CHR 0x0A \<notin> set s)"

lemma lines_of_line: "CHR 0x0A \<notin> set s \<Longrightarrow> lines_of (s @ nl @ t) = (s @ nl) # lines_of t"
  by (induction s) (auto simp: nl_def)

lemma lines_of_concat: "list_all is_line ls \<Longrightarrow> lines_of (concat ls) = ls"
proof (induction ls)
  case (Cons l ls)
  then obtain s where "l = s @ nl" "CHR 0x0A \<notin> set s"
    by (auto simp: is_line_def)
  then show ?case
    using Cons lines_of_line [of s "concat ls"] by simp
qed simp

lemma plain_no_newline: "plain s \<Longrightarrow> CHR 0x0A \<notin> set s"
  using separators_kept(5) unfolding plain_def by blast

lemma is_line_setting: "plain k \<Longrightarrow> plain v \<Longrightarrow> is_line (k @ '' = '' @ v @ nl)"
  unfolding is_line_def by (rule exI [of _ "k @ '' = '' @ v"]) (simp add: plain_no_newline)

lemma is_line_plain: "plain k \<Longrightarrow> is_line (k @ nl)"
  unfolding is_line_def by (rule exI [of _ k]) (simp add: plain_no_newline)

lemma is_line_nl: "is_line nl"
  using is_line_plain [of "[]"] by simp

lemma read_lines_append:
  assumes "read_lines e ctx xs = Some (Some ctx')"
  shows "read_lines e ctx (xs @ ys) = read_lines e ctx' ys"
  using assms
proof (induction xs arbitrary: ctx)
  case (Cons l ls)
  then obtain c where "config_read_line e ctx l = Some (Some c)" "read_lines e c ls = Some (Some ctx')"
    by (cases "config_read_line e ctx l") (auto split: option.splits)
  then show ?case
    using Cons.IH by simp
qed simp

lemma read_lines_step: "config_read_line e ctx l = Some (Some ctx') \<Longrightarrow> read_lines e ctx [l] = Some (Some ctx')"
  by simp

lemma read_lines_if:
  assumes "b \<Longrightarrow> config_read_line e ctx l = Some (Some ctx')" "\<not> b \<Longrightarrow> ctx' = ctx"
  shows "read_lines e ctx (if b then [l] else []) = Some (Some ctx')"
  using assms by auto

subsection \<open>A peer read back\<close>

text \<open>What an endpoint has to satisfy: it is printed, and the resolver takes the numbers for the same address.\<close>

definition endpoint_text :: "show_env \<Rightarrow> sockaddr \<Rightarrow> string option" where
  "endpoint_text n ep =
     (case name_info n ep of
        None \<Rightarrow> None
      | Some (host, service) \<Rightarrow>
          Some (if (case ep of SA_IN6 _ _ _ _ \<Rightarrow> True | _ \<Rightarrow> False) \<and> CHR '':'' \<in> set host
                then ''['' @ host @ '']:'' @ service else host @ '':'' @ service))"

definition good_endpoint :: "wg_env \<Rightarrow> show_env \<Rightarrow> sockaddr \<Rightarrow> bool" where
  "good_endpoint e n ep \<longleftrightarrow> ep = SA_NONE \<or>
     (case name_info n ep of
        None \<Rightarrow> False
      | Some (host, service) \<Rightarrow> plain host \<and> plain service \<and> service \<noteq> [] \<and>
          CHR '':'' \<notin> set service \<and> CHR '']'' \<notin> set host \<and> CHR ''['' \<notin> set host \<and>
          resolve_host e 0 host service = Gai_Addr ep)"

definition good_peer :: "wg_env \<Rightarrow> show_env \<Rightarrow> wgpeer \<Rightarrow> bool" where
  "good_peer e n p \<longleftrightarrow> length (public_key p) = WG_KEY_LEN \<and> length (preshared_key p) = WG_KEY_LEN \<and>
     list_all (good_aip e n) (allowedips p) \<and> good_endpoint e n (endpoint p)"

text \<open>The peer that is read: without what is not printed.\<close>

definition shown_peer :: "wgpeer \<Rightarrow> wgpeer" where
  "shown_peer p =
     (let psk = peer_flags p AND WGPEER_HAS_PRESHARED_KEY \<noteq> 0; alive = persistent_keepalive_interval p \<noteq> 0
      in \<lparr>peer_flags = WGPEER_REPLACE_ALLOWEDIPS OR WGPEER_HAS_PUBLIC_KEY OR (if psk then WGPEER_HAS_PRESHARED_KEY else 0) OR
            (if alive then WGPEER_HAS_PERSISTENT_KEEPALIVE_INTERVAL else 0),
          public_key = public_key p, preshared_key = (if psk then preshared_key p else zero_key),
          endpoint = endpoint p, persistent_keepalive_interval = persistent_keepalive_interval p,
          allowedips = map (\<lambda>a. a\<lparr>aip_flags := 0\<rparr>) (allowedips p)\<rparr>)"

text \<open>The lines of a peer.\<close>

definition peer_lines :: "show_env \<Rightarrow> wgpeer \<Rightarrow> string list" where
  "peer_lines n p =
     [''[Peer]'' @ nl] @ [''PublicKey'' @ '' = '' @ key_str (public_key p) @ nl] @
     (if peer_flags p AND WGPEER_HAS_PRESHARED_KEY \<noteq> 0
      then [''PresharedKey'' @ '' = '' @ key_str (preshared_key p) @ nl] else []) @
     (if allowedips p \<noteq> [] then [''AllowedIPs = '' @ show_aips n (allowedips p) @ nl] else []) @
     (if endpoint p \<noteq> SA_NONE then [''Endpoint'' @ '' = '' @ the (endpoint_text n (endpoint p)) @ nl] else []) @
     (if persistent_keepalive_interval p \<noteq> 0
      then [''PersistentKeepalive'' @ '' = '' @ dec (unat (persistent_keepalive_interval p)) @ nl] else [])"

lemma if_both: "P x \<Longrightarrow> P y \<Longrightarrow> P (if b then x else y)"
  by simp

lemma good_endpoint_text:
  assumes "good_endpoint e n ep" "ep \<noteq> SA_NONE"
  obtains v h sv where "endpoint_text n ep = Some v" "plain v" "split_endpoint v = Some (h, sv)"
    "resolve_host e 0 h sv = Gai_Addr ep" "show_endpoint n ep = ''Endpoint = '' @ v @ nl"
proof -
  obtain h sv where g: "name_info n ep = Some (h, sv)" "plain h" "plain sv" "sv \<noteq> []" "CHR '':'' \<notin> set sv"
    "CHR '']'' \<notin> set h" "CHR ''['' \<notin> set h" "resolve_host e 0 h sv = Gai_Addr ep"
    using assms by (auto simp: good_endpoint_def split: option.splits)
  let ?b = "(case ep of SA_IN6 _ _ _ _ \<Rightarrow> True | _ \<Rightarrow> False) \<and> CHR '':'' \<in> set h"
  let ?v = "if ?b then ''['' @ h @ '']:'' @ sv else h @ '':'' @ sv"
  have "at0 (h @ '':'' @ sv) \<noteq> CHR ''[''"
    using g(7) by (cases h) (auto simp: at0_def)
  from split_bracketed [OF g(6,4)] split_plain [OF this g(5,4)]
  have "split_endpoint ?v = Some (h, sv)"
    by (rule if_both)
  moreover have "plain ?v"
    by (rule if_both) (use g(2,3) in \<open>simp_all add: is_space_def\<close>)
  moreover have "show_endpoint n ep = ''Endpoint = '' @ ?v @ nl"
    using g(1) assms(2) by (cases ep) (simp_all add: show_endpoint_def)
  moreover have "endpoint_text n ep = Some ?v"
    using g(1) by (simp add: endpoint_text_def)
  ultimately show thesis
    using that g(8) by blast
qed

lemma show_peer_lines:
  assumes "good_peer e n p"
  shows "show_peer n p = concat (peer_lines n p)"
proof -
  have "show_endpoint n (endpoint p) = (if endpoint p \<noteq> SA_NONE then ''Endpoint'' @ '' = '' @ the (endpoint_text n (endpoint p)) @ nl else [])"
  proof (cases "endpoint p = SA_NONE")
    case False
    with assms obtain v where "endpoint_text n (endpoint p) = Some v" "show_endpoint n (endpoint p) = ''Endpoint = '' @ v @ nl"
      by (auto simp: good_peer_def elim: good_endpoint_text)
    with False show ?thesis
      by simp
  qed (simp add: show_endpoint_def)
  then show ?thesis
    by (simp add: show_peer_def peer_lines_def)
qed

lemma list_all_one: "P x \<Longrightarrow> list_all P [x]"
  by simp

lemma list_all_if: "(b \<Longrightarrow> P x) \<Longrightarrow> list_all P (if b then [x] else [])"
  by simp

lemma peer_lines_lines:
  assumes "good_peer e n p"
  shows "list_all is_line (peer_lines n p)"
proof -
  have "CHR 0x0A \<notin> set (show_aips n (allowedips p))"
    using assms by (intro show_aips_newline [of e]) (simp add: good_peer_def)
  then have "is_line (''AllowedIPs = '' @ show_aips n (allowedips p) @ nl)"
    unfolding is_line_def by (intro exI [of _ "''AllowedIPs = '' @ show_aips n (allowedips p)"]) simp
  moreover have "is_line (''Endpoint'' @ '' = '' @ the (endpoint_text n (endpoint p)) @ nl)" if ep: "endpoint p \<noteq> SA_NONE"
  proof -
    obtain v where "endpoint_text n (endpoint p) = Some v" "plain v"
      using ep assms by (auto simp: good_peer_def elim: good_endpoint_text)
    then show ?thesis
      using is_line_setting [of "''Endpoint''" v] by (simp add: is_space_def)
  qed
  moreover have "is_line (''[Peer]'' @ nl)"
    by (rule is_line_plain) (simp add: is_space_def)
  moreover have "is_line (''PublicKey'' @ '' = '' @ key_str (public_key p) @ nl)"
    "is_line (''PresharedKey'' @ '' = '' @ key_str (preshared_key p) @ nl)"
    "is_line (''PersistentKeepalive'' @ '' = '' @ dec (unat (persistent_keepalive_interval p)) @ nl)"
    by (rule is_line_setting; simp add: is_space_def)+
  ultimately show ?thesis
    unfolding peer_lines_def list_all_append by (intro conjI list_all_one list_all_if)
qed

text \<open>A reader inside a peer section, and each line of a peer there.\<close>

definition in_peer :: "wgdevice \<Rightarrow> wgpeer list \<Rightarrow> wgpeer \<Rightarrow> config_ctx" where
  "in_peer d ps p = \<lparr>device = d\<lparr>peers := ps @ [p]\<rparr>, is_peer_section = True, is_device_section = False\<rparr>"

lemma in_peer_simps [simp]:
  "is_peer_section (in_peer d ps p)" "\<not> is_device_section (in_peer d ps p)" "last_peer (in_peer d ps p) = p"
  "set_last_peer (in_peer d ps p) q = in_peer d ps q"
  by (simp_all add: in_peer_def set_last_peer_def)

lemma read_peer_back:
  assumes "good_peer e n p" "32 \<le> ulong_bits e" "parse_dns_retries e = Some r"
  shows "read_lines e ctx (peer_lines n p) = Some (Some (in_peer (device ctx) (peers (device ctx)) (shown_peer p)))"
proof -
  let ?in = "in_peer (device ctx) (peers (device ctx))"
  let ?psk = "peer_flags p AND WGPEER_HAS_PRESHARED_KEY \<noteq> 0"
  have g: "length (public_key p) = WG_KEY_LEN" "length (preshared_key p) = WG_KEY_LEN"
    "list_all (good_aip e n) (allowedips p)" "good_endpoint e n (endpoint p)"
    using assms(1) by (simp_all add: good_peer_def)
  let ?p0 = "zero_peer\<lparr>peer_flags := 2\<rparr>"
  let ?p1 = "?p0\<lparr>public_key := public_key p, peer_flags := 6\<rparr>"
  let ?p2 = "if ?psk then ?p1\<lparr>preshared_key := preshared_key p, peer_flags := 14\<rparr> else ?p1"
  let ?p3 = "?p2\<lparr>allowedips := map (\<lambda>a. a\<lparr>aip_flags := 0\<rparr>) (allowedips p)\<rparr>"
  let ?p4 = "?p3\<lparr>endpoint := endpoint p\<rparr>"
  have l0: "read_lines e ctx [''[Peer]'' @ nl] = Some (Some (?in ?p0))"
    by (rule read_lines_step, subst read_peer_section) (cases ctx, simp add: in_peer_def)
  have l1: "read_lines e (?in ?p0) [''PublicKey'' @ '' = '' @ key_str (public_key p) @ nl] = Some (Some (?in ?p1))"
    by (rule read_lines_step) (use read_public_key [of "?in ?p0"] g(1) in simp)
  have l2: "read_lines e (?in ?p1) (if ?psk then [''PresharedKey'' @ '' = '' @ key_str (preshared_key p) @ nl] else []) =
      Some (Some (?in ?p2))"
    by (rule read_lines_if) (use read_preshared_key [of "?in ?p1"] g(2) in simp_all)
  have f2: "peer_flags ?p2 OR 2 = peer_flags ?p2" "allowedips ?p2 = []" "endpoint ?p2 = SA_NONE"
    "persistent_keepalive_interval ?p2 = 0"
    by (simp_all add: zero_peer_def)
  have l3: "read_lines e (?in ?p2) (if allowedips p \<noteq> [] then [''AllowedIPs = '' @ show_aips n (allowedips p) @ nl] else []) =
      Some (Some (?in ?p3))"
  proof (rule read_lines_if)
    assume "allowedips p \<noteq> []"
    then show "config_read_line e (?in ?p2) (''AllowedIPs = '' @ show_aips n (allowedips p) @ nl) = Some (Some (?in ?p3))"
      using read_allowedips [of "?in ?p2" e n "allowedips p"] g(3) assms(2) f2(2) unfolding in_peer_simps f2(1) by simp
  qed (simp add: zero_peer_def)
  have l4: "read_lines e (?in ?p3)
      (if endpoint p \<noteq> SA_NONE then [''Endpoint'' @ '' = '' @ the (endpoint_text n (endpoint p)) @ nl] else []) =
      Some (Some (?in ?p4))"
  proof (rule read_lines_if)
    assume ep: "endpoint p \<noteq> SA_NONE"
    obtain v h sv where v: "endpoint_text n (endpoint p) = Some v" "plain v" "split_endpoint v = Some (h, sv)"
      "resolve_host e 0 h sv = Gai_Addr (endpoint p)"
      using good_endpoint_text [OF g(4) ep] by metis
    show "config_read_line e (?in ?p3) (''Endpoint'' @ '' = '' @ the (endpoint_text n (endpoint p)) @ nl) =
        Some (Some (?in ?p4))"
      using read_endpoint [OF _ _ v(2-4) ep assms(3), of "?in ?p3"] v(1) by simp
  qed (simp add: zero_peer_def)
  have l5: "read_lines e (?in ?p4) (if persistent_keepalive_interval p \<noteq> 0
      then [''PersistentKeepalive'' @ '' = '' @ dec (unat (persistent_keepalive_interval p)) @ nl] else []) =
      Some (Some (?in (shown_peer p)))"
  proof (rule read_lines_if)
    show "config_read_line e (?in ?p4) (''PersistentKeepalive'' @ '' = '' @ dec (unat (persistent_keepalive_interval p)) @ nl) =
        Some (Some (?in (shown_peer p)))" if "persistent_keepalive_interval p \<noteq> 0"
      using read_keepalive [of "?in ?p4" e "persistent_keepalive_interval p"] assms(2) that
      by (simp add: shown_peer_def Let_def zero_peer_def)
  qed (simp add: shown_peer_def Let_def zero_peer_def)
  show ?thesis
    unfolding peer_lines_def read_lines_append [OF l0] read_lines_append [OF l1] read_lines_append [OF l2]
      read_lines_append [OF l3] read_lines_append [OF l4] by (rule l5)
qed

subsection \<open>A configuration read back\<close>

fun peers_lines :: "show_env \<Rightarrow> wgpeer list \<Rightarrow> string list" where
  "peers_lines n [] = []"
| "peers_lines n (p # ps) = peer_lines n p @ (if ps \<noteq> [] then [nl] else []) @ peers_lines n ps"

lemma show_peers_lines: "list_all (good_peer e n) ps \<Longrightarrow> show_peers n ps = concat (peers_lines n ps)"
  by (induction ps) (auto simp: show_peer_lines)

lemma peers_lines_lines: "list_all (good_peer e n) ps \<Longrightarrow> list_all is_line (peers_lines n ps)"
  by (induction ps) (auto simp: peer_lines_lines is_line_nl)

lemma read_peers_back:
  assumes "32 \<le> ulong_bits e" "parse_dns_retries e = Some r"
  shows "list_all (good_peer e n) ps \<Longrightarrow> \<exists>ctx'. read_lines e ctx (peers_lines n ps) = Some (Some ctx') \<and>
    device ctx' = (device ctx)\<lparr>peers := peers (device ctx) @ map shown_peer ps\<rparr>"
proof (induction ps arbitrary: ctx)
  case (Cons p ps)
  let ?c = "in_peer (device ctx) (peers (device ctx)) (shown_peer p)"
  have "read_lines e ctx (peer_lines n p) = Some (Some ?c)"
    using read_peer_back [OF _ assms] Cons.prems by simp
  moreover have "read_lines e ?c (if ps \<noteq> [] then [nl] else []) = Some (Some ?c)"
    by (rule read_lines_if) (simp_all add: read_blank)
  moreover obtain ctx' where "read_lines e ?c (peers_lines n ps) = Some (Some ctx')"
    "device ctx' = (device ?c)\<lparr>peers := peers (device ?c) @ map shown_peer ps\<rparr>"
    using Cons by auto
  ultimately show ?case
    by (simp add: read_lines_append in_peer_def)
qed simp

text \<open>What a device has to satisfy, and the device that is read.\<close>

definition good_device :: "wg_env \<Rightarrow> show_env \<Rightarrow> wgdevice \<Rightarrow> bool" where
  "good_device e n d \<longleftrightarrow> length (private_key d) = WG_KEY_LEN \<and> list_all (good_peer e n) (peers d) \<and>
     (listen_port d \<noteq> 0 \<longrightarrow>
       (case resolve_port e (dec (unat (listen_port d))) of
          Gai_Addr (SA_IN _ p) \<Rightarrow> p = listen_port d
        | Gai_Addr (SA_IN6 _ p _ _) \<Rightarrow> p = listen_port d
        | _ \<Rightarrow> False))"

definition shown_device :: "wgdevice \<Rightarrow> wgdevice" where
  "shown_device d =
     \<lparr>dev_flags = WGDEVICE_REPLACE_PEERS OR WGDEVICE_HAS_PRIVATE_KEY OR WGDEVICE_HAS_FWMARK OR WGDEVICE_HAS_LISTEN_PORT,
      private_key = (if dev_flags d AND WGDEVICE_HAS_PRIVATE_KEY \<noteq> 0 then private_key d else zero_key),
      fwmark = fwmark d, listen_port = listen_port d, peers = map shown_peer (peers d)\<rparr>"

definition device_lines :: "show_env \<Rightarrow> wgdevice \<Rightarrow> string list" where
  "device_lines n d =
     [''[Interface]'' @ nl] @
     (if listen_port d \<noteq> 0 then [''ListenPort'' @ '' = '' @ dec (unat (listen_port d)) @ nl] else []) @
     (if fwmark d \<noteq> 0 then [''FwMark'' @ '' = '' @ (''0x'' @ num_str 16 (unat (fwmark d))) @ nl] else []) @
     (if dev_flags d AND WGDEVICE_HAS_PRIVATE_KEY \<noteq> 0 then [''PrivateKey'' @ '' = '' @ key_str (private_key d) @ nl] else []) @
     [nl] @ peers_lines n (peers d)"

lemma show_conf_lines:
  assumes "good_device e n d"
  shows "lines_of (show_conf n d) = device_lines n d"
proof -
  have "list_all (good_peer e n) (peers d)"
    using assms by (simp add: good_device_def)
  note ps = show_peers_lines [OF this] peers_lines_lines [OF this]
  have "show_conf n d = concat (device_lines n d)"
    by (simp add: show_conf_def device_lines_def ps(1))
  moreover have "is_line (''[Interface]'' @ nl)"
    by (rule is_line_plain) (simp add: is_space_def)
  moreover have "is_line (''ListenPort'' @ '' = '' @ dec (unat (listen_port d)) @ nl)"
    "is_line (''FwMark'' @ '' = '' @ (''0x'' @ num_str 16 (unat (fwmark d))) @ nl)"
    "is_line (''PrivateKey'' @ '' = '' @ key_str (private_key d) @ nl)"
    by (rule is_line_setting; simp add: is_space_def plain_digits)+
  ultimately have "list_all is_line (device_lines n d)"
    unfolding device_lines_def list_all_append using ps(2) is_line_nl by (intro conjI list_all_one list_all_if)
  with \<open>show_conf n d = concat (device_lines n d)\<close> show ?thesis
    by (simp add: lines_of_concat)
qed

lemma read_device_back:
  assumes "good_device e n d" "32 \<le> ulong_bits e" "parse_dns_retries e = Some r"
  shows "\<exists>ctx'. read_lines e (config_read_init False) (device_lines n d) = Some (Some ctx') \<and> device ctx' = shown_device d"
proof -
  let ?in = "\<lambda>x. \<lparr>device = x, is_peer_section = False, is_device_section = True\<rparr>"
  let ?key = "dev_flags d AND WGDEVICE_HAS_PRIVATE_KEY \<noteq> 0"
  let ?d0 = "zero_device\<lparr>dev_flags := 27\<rparr>"
  let ?d1 = "?d0\<lparr>listen_port := listen_port d\<rparr>"
  let ?d2 = "?d1\<lparr>fwmark := fwmark d\<rparr>"
  let ?d3 = "if ?key then ?d2\<lparr>private_key := private_key d\<rparr> else ?d2"
  have g: "length (private_key d) = WG_KEY_LEN" "list_all (good_peer e n) (peers d)"
    using assms(1) by (simp_all add: good_device_def)
  have l0: "read_lines e (config_read_init False) [''[Interface]'' @ nl] = Some (Some (?in ?d0))"
    by (rule read_lines_step, subst read_interface) (simp add: config_read_init_def)
  have l1: "read_lines e (?in ?d0) (if listen_port d \<noteq> 0 then [''ListenPort'' @ '' = '' @ dec (unat (listen_port d)) @ nl] else []) =
      Some (Some (?in ?d1))"
  proof (rule read_lines_if)
    assume "listen_port d \<noteq> 0"
    then obtain a x y f sc where "resolve_port e (dec (unat (listen_port d))) = Gai_Addr a"
      "a = SA_IN x (listen_port d) \<or> a = SA_IN6 y (listen_port d) f sc"
      using assms(1) by (auto simp: good_device_def split: gai.splits sockaddr.splits)
    from read_listen_port [OF _ this, of "?in ?d0"]
    show "config_read_line e (?in ?d0) (''ListenPort'' @ '' = '' @ dec (unat (listen_port d)) @ nl) = Some (Some (?in ?d1))"
      by (simp add: set_device_def)
  qed (simp add: zero_device_def)
  have l2: "read_lines e (?in ?d1) (if fwmark d \<noteq> 0 then [''FwMark'' @ '' = '' @ (''0x'' @ num_str 16 (unat (fwmark d))) @ nl] else []) =
      Some (Some (?in ?d2))"
    by (rule read_lines_if) (use read_fwmark [of "?in ?d1" e "fwmark d"] assms(2) in \<open>simp_all add: set_device_def zero_device_def\<close>)
  have l3: "read_lines e (?in ?d2) (if ?key then [''PrivateKey'' @ '' = '' @ key_str (private_key d) @ nl] else []) =
      Some (Some (?in ?d3))"
    by (rule read_lines_if) (use read_private_key [of "?in ?d2" "private_key d" e] g(1) in \<open>simp_all add: set_device_def\<close>)
  have l4: "read_lines e (?in ?d3) [nl] = Some (Some (?in ?d3))"
    by (rule read_lines_step) (rule read_blank)
  obtain ctx' where l5: "read_lines e (?in ?d3) (peers_lines n (peers d)) = Some (Some ctx')"
    "device ctx' = ?d3\<lparr>peers := peers ?d3 @ map shown_peer (peers d)\<rparr>"
    using read_peers_back [OF assms(2,3) g(2), of "?in ?d3"] by auto
  have "device ctx' = shown_device d"
    using l5(2) by (simp add: shown_device_def zero_device_def)
  moreover have "read_lines e (config_read_init False) (device_lines n d) = Some (Some ctx')"
    unfolding device_lines_def read_lines_append [OF l0] read_lines_append [OF l1] read_lines_append [OF l2]
      read_lines_append [OF l3] read_lines_append [OF l4] by (rule l5(1))
  ultimately show ?thesis
    by blast
qed

text \<open>
  C37. A configuration printed by \<^verbatim>\<open>wg showconf\<close> is accepted by the reader of
  \<^verbatim>\<open>wg setconf\<close> and taken for the same configuration: the keys, the port, the mark and for every peer, in
  order, the keys, the endpoint, the allowed addresses and the interval, with the flags that make the
  kernel replace what was there. This needs that the printers of addresses are inverted by their parsers
  and by the resolver, and that \<^verbatim>\<open>unsigned long\<close> has 32 bits or more.
\<close>

theorem showconf_read_back:
  assumes "good_device e n d" "32 \<le> ulong_bits e" "parse_dns_retries e = Some r"
    and "ipc_get iface = Some d"
  shows "case showconf_main n ipc_get [cmd, iface] of
    (code, out) \<Rightarrow> code = 0 \<and> read_config e False (lines_of out) = Some (Some (shown_device d))"
proof -
  obtain ctx where ctx: "read_lines e (config_read_init False) (device_lines n d) = Some (Some ctx)"
    "device ctx = shown_device d"
    using read_device_back [OF assms(1-3)] by blast
  have "peer_flags (shown_peer p) AND WGPEER_HAS_PUBLIC_KEY \<noteq> 0" for p
    by (simp add: shown_peer_def Let_def)
  then have "config_read_finish ctx = Some (shown_device d)"
    using ctx(2) by (auto simp: config_read_finish_def shown_device_def)
  with ctx(1) show ?thesis
    using assms(4) by (simp add: showconf_main_def show_conf_lines [OF assms(1)] read_config_def)
qed

definition demo_show :: show_env where
  "demo_show = \<lparr>ntop4 = (\<lambda>x. if x = 0x0A000000 then Some ''10.0.0.0'' else None), ntop6 = (\<lambda>_. None),
     name_info = (\<lambda>a. if a = SA_IN 0x0A010203 5000 then Some (''10.1.2.3'', ''5000'') else None)\<rparr>"

definition demo_device :: wgdevice where
  "demo_device = \<lparr>dev_flags = 14, private_key = replicate 32 64, fwmark = 0xCA6C, listen_port = 51820,
     peers = [\<lparr>peer_flags = 4, public_key = replicate 32 7, preshared_key = zero_key, endpoint = SA_IN 0x0A010203 5000,
       persistent_keepalive_interval = 25, allowedips = [\<lparr>addr = AF_INET 0x0A000000, cidr = 8, aip_flags = 0\<rparr>]\<rparr>]\<rparr>"

lemma demo_good: "good_device demo_env demo_show demo_device" "parse_dns_retries demo_env = Some 15"
proof -
  have "good_endpoint demo_env demo_show (SA_IN 0x0A010203 5000)"
    "good_aip demo_env demo_show \<lparr>addr = AF_INET 0x0A000000, cidr = 8, aip_flags = 0\<rparr>"
    by code_simp+
  moreover have "dec 51820 = ''51820''"
    by (simp add: dec_def num_str.simps digit_char_def)
  ultimately show "good_device demo_env demo_show demo_device"
    by (simp add: good_device_def good_peer_def demo_device_def zero_key_def WG_KEY_LEN_def)
      (simp add: demo_env_def)
  show "parse_dns_retries demo_env = Some 15"
    by code_simp
qed

theorem showconf_read_back_witness:
  "case showconf_main demo_show (\<lambda>i. if i = ''wg0'' then Some demo_device else None) [''showconf'', ''wg0''] of
    (code, out) \<Rightarrow> code = 0 \<and> read_config demo_env False (lines_of out) = Some (Some (shown_device demo_device))"
  by (rule showconf_read_back [OF demo_good(1) _ demo_good(2)]) (simp_all add: demo_env_def)

end
