(* ===== verification/Wg_Field.thy ===== *)
theory Wg_Field
  imports Prelude
begin

text \<open>
  Arithmetic of the field of Curve25519 (\<^verbatim>\<open>wireguard-tools/src/curve25519-fiat32.h\<close>, the variant for
  machines without 128-bit integers, which is the one built for the 32-bit ARM target): ten limbs of
  alternately 26 and 25 bits in 32-bit words. Every operation reads its operands before it
  writes its result, so results are values and operands may overlap. The theorems give the value of each
  result modulo the prime, for limbs within the bounds that the comments of the code state.
\<close>

subsection \<open>Model\<close>

datatype fe = Fe u32 u32 u32 u32 u32 u32 u32 u32 u32 u32

type_synonym fe_loose = fe

text \<open>\<open>(u64)x * y\<close>.\<close>

abbreviation umull :: "u32 \<Rightarrow> u32 \<Rightarrow> u64" where
  "umull x y \<equiv> ucast x * ucast y"

text \<open>The three additions by which a high column is added 19 times to a low one.\<close>

definition fold19 :: "u64 \<Rightarrow> u64 \<Rightarrow> u64" where
  "fold19 lo hi = lo + push_bit 4 hi + push_bit 1 hi + hi"

text \<open>The carries through the ten columns, which squaring and multiplying share.\<close>

definition carry_columns :: "u64 \<Rightarrow> u64 \<Rightarrow> u64 \<Rightarrow> u64 \<Rightarrow> u64 \<Rightarrow> u64 \<Rightarrow> u64 \<Rightarrow> u64 \<Rightarrow> u64 \<Rightarrow> u64 \<Rightarrow> fe" where
  "carry_columns x85 x82 x79 x76 x73 x70 x67 x64 x61 x49 =
     (let
        x86 = drop_bit 26 x85;
        x87 = (ucast x85 :: u32) AND 0x3ffffff;
        x88 = x86 + x82;
        x89 = drop_bit 25 x88;
        x90 = ucast x88 AND 0x1ffffff;
        x91 = x89 + x79;
        x92 = drop_bit 26 x91;
        x93 = ucast x91 AND 0x3ffffff;
        x94 = x92 + x76;
        x95 = drop_bit 25 x94;
        x96 = ucast x94 AND 0x1ffffff;
        x97 = x95 + x73;
        x98 = drop_bit 26 x97;
        x99 = ucast x97 AND 0x3ffffff;
        x100 = x98 + x70;
        x101 = drop_bit 25 x100;
        x102 = ucast x100 AND 0x1ffffff;
        x103 = x101 + x67;
        x104 = drop_bit 26 x103;
        x105 = ucast x103 AND 0x3ffffff;
        x106 = x104 + x64;
        x107 = drop_bit 25 x106;
        x108 = ucast x106 AND 0x1ffffff;
        x109 = x107 + x61;
        x110 = drop_bit 26 x109;
        x111 = ucast x109 AND 0x3ffffff;
        x112 = x110 + x49;
        x113 = drop_bit 25 x112;
        x114 = ucast x112 AND 0x1ffffff;
        x115 = ucast x87 + 19 * x113;
        x116 = (ucast (drop_bit 26 x115) :: u32);
        x117 = ucast x115 AND 0x3ffffff;
        x118 = x116 + x90;
        x119 = drop_bit 25 x118;
        x120 = x118 AND 0x1ffffff
      in Fe x117 x120 (x119 + x93) x96 x99 x102 x105 x108 x111 x114)"

fun fe_mul_impl :: "fe_loose \<Rightarrow> fe_loose \<Rightarrow> fe" where
  "fe_mul_impl (Fe x5 x7 x9 x11 x13 x15 x17 x19 x21 x20) (Fe x23 x25 x27 x29 x31 x33 x35 x37 x39 x38) =
     (let
        x40 = umull x23 x5;
        x41 = umull x23 x7 + umull x25 x5;
        x42 = umull (2 * x25) x7 + umull x23 x9 + umull x27 x5;
        x43 = umull x25 x9 + umull x27 x7 + umull x23 x11 + umull x29 x5;
        x44 = umull x27 x9 + 2 * (umull x25 x11 + umull x29 x7) + umull x23 x13 + umull x31 x5;
        x45 = umull x27 x11 + umull x29 x9 + umull x25 x13 + umull x31 x7 + umull x23 x15 + umull x33 x5;
        x46 = 2 * (umull x29 x11 + umull x25 x15 + umull x33 x7) + umull x27 x13 + umull x31 x9 + umull x23 x17 + umull x35 x5;
        x47 = umull x29 x13 + umull x31 x11 + umull x27 x15 + umull x33 x9 + umull x25 x17 + umull x35 x7 + umull x23 x19 + umull x37 x5;
        x48 = umull x31 x13 + 2 * (umull x29 x15 + umull x33 x11 + umull x25 x19 + umull x37 x7) + umull x27 x17 + umull x35 x9 + umull x23 x21 + umull x39 x5;
        x49 = umull x31 x15 + umull x33 x13 + umull x29 x17 + umull x35 x11 + umull x27 x19 + umull x37 x9 + umull x25 x21 + umull x39 x7 + umull x23 x20 + umull x38 x5;
        x50 = 2 * (umull x33 x15 + umull x29 x19 + umull x37 x11 + umull x25 x20 + umull x38 x7) + umull x31 x17 + umull x35 x13 + umull x27 x21 + umull x39 x9;
        x51 = umull x33 x17 + umull x35 x15 + umull x31 x19 + umull x37 x13 + umull x29 x21 + umull x39 x11 + umull x27 x20 + umull x38 x9;
        x52 = umull x35 x17 + 2 * (umull x33 x19 + umull x37 x15 + umull x29 x20 + umull x38 x11) + umull x31 x21 + umull x39 x13;
        x53 = umull x35 x19 + umull x37 x17 + umull x33 x21 + umull x39 x15 + umull x31 x20 + umull x38 x13;
        x54 = 2 * (umull x37 x19 + umull x33 x20 + umull x38 x15) + umull x35 x21 + umull x39 x17;
        x55 = umull x37 x21 + umull x39 x19 + umull x35 x20 + umull x38 x17;
        x56 = umull x39 x21 + 2 * (umull x37 x20 + umull x38 x19);
        x57 = umull x39 x20 + umull x38 x21;
        x58 = umull (2 * x38) x20
      in carry_columns (fold19 x40 x50) (fold19 x41 x51) (fold19 x42 x52) (fold19 x43 x53) (fold19 x44 x54)
           (fold19 x45 x55) (fold19 x46 x56) (fold19 x47 x57) (fold19 x48 x58) x49)"

fun fe_sqr_impl :: "fe_loose \<Rightarrow> fe" where
  "fe_sqr_impl (Fe x2 x4 x6 x8 x10 x12 x14 x16 x18 x17) =
     (let
        x19 = umull x2 x2;
        x20 = umull (2 * x2) x4;
        x21 = 2 * (umull x4 x4 + umull x2 x6);
        x22 = 2 * (umull x4 x6 + umull x2 x8);
        x23 = umull x6 x6 + umull (4 * x4) x8 + umull (2 * x2) x10;
        x24 = 2 * (umull x6 x8 + umull x4 x10 + umull x2 x12);
        x25 = 2 * (umull x8 x8 + umull x6 x10 + umull x2 x14 + umull (2 * x4) x12);
        x26 = 2 * (umull x8 x10 + umull x6 x12 + umull x4 x14 + umull x2 x16);
        x27 = umull x10 x10 + 2 * (umull x6 x14 + umull x2 x18 + 2 * (umull x4 x16 + umull x8 x12));
        x28 = 2 * (umull x10 x12 + umull x8 x14 + umull x6 x16 + umull x4 x18 + umull x2 x17);
        x29 = 2 * (umull x12 x12 + umull x10 x14 + umull x6 x18 + 2 * (umull x8 x16 + umull x4 x17));
        x30 = 2 * (umull x12 x14 + umull x10 x16 + umull x8 x18 + umull x6 x17);
        x31 = umull x14 x14 + 2 * (umull x10 x18 + 2 * (umull x12 x16 + umull x8 x17));
        x32 = 2 * (umull x14 x16 + umull x12 x18 + umull x10 x17);
        x33 = 2 * (umull x16 x16 + umull x14 x18 + umull (2 * x12) x17);
        x34 = 2 * (umull x16 x18 + umull x14 x17);
        x35 = umull x18 x18 + umull (4 * x16) x17;
        x36 = umull (2 * x18) x17;
        x37 = umull (2 * x17) x17
      in carry_columns (fold19 x19 x29) (fold19 x20 x30) (fold19 x21 x31) (fold19 x22 x32) (fold19 x23 x33)
           (fold19 x24 x34) (fold19 x25 x35) (fold19 x26 x36) (fold19 x27 x37) x28)"

text \<open>The same code with the second operand fixed to 121666.\<close>

definition fe_mul_121666_impl :: "fe_loose \<Rightarrow> fe" where
  "fe_mul_121666_impl f = fe_mul_impl f (Fe 121666 0 0 0 0 0 0 0 0 0)"

fun fe_add_impl :: "fe \<Rightarrow> fe \<Rightarrow> fe_loose" where
  "fe_add_impl (Fe x5 x7 x9 x11 x13 x15 x17 x19 x21 x20) (Fe x23 x25 x27 x29 x31 x33 x35 x37 x39 x38) =
     Fe (x5 + x23) (x7 + x25) (x9 + x27) (x11 + x29) (x13 + x31)
       (x15 + x33) (x17 + x35) (x19 + x37) (x21 + x39) (x20 + x38)"

fun fe_sub_impl :: "fe \<Rightarrow> fe \<Rightarrow> fe_loose" where
  "fe_sub_impl (Fe x5 x7 x9 x11 x13 x15 x17 x19 x21 x20) (Fe x23 x25 x27 x29 x31 x33 x35 x37 x39 x38) =
     Fe ((0x7ffffda + x5) - x23) ((0x3fffffe + x7) - x25) ((0x7fffffe + x9) - x27) ((0x3fffffe + x11) - x29) ((0x7fffffe + x13) - x31)
       ((0x3fffffe + x15) - x33) ((0x7fffffe + x17) - x35) ((0x3fffffe + x19) - x37) ((0x7fffffe + x21) - x39) ((0x3fffffe + x20) - x38)"

text \<open>The conditional exchange, limb by limb; \<open>b\<close> is 0 or 1.\<close>

definition cswap_limb :: "u32 \<Rightarrow> u32 \<Rightarrow> u32 \<Rightarrow> u32 \<times> u32" where
  "cswap_limb b f g = (let x = (f XOR g) AND b in (f XOR x, g XOR x))"

fun fe_cswap :: "fe \<Rightarrow> fe \<Rightarrow> u32 \<Rightarrow> fe \<times> fe" where
  "fe_cswap (Fe f0 f1 f2 f3 f4 f5 f6 f7 f8 f9) (Fe g0 g1 g2 g3 g4 g5 g6 g7 g8 g9) b =
     (let b = 0 - b;
        (h0, k0) = cswap_limb b f0 g0;
        (h1, k1) = cswap_limb b f1 g1;
        (h2, k2) = cswap_limb b f2 g2;
        (h3, k3) = cswap_limb b f3 g3;
        (h4, k4) = cswap_limb b f4 g4;
        (h5, k5) = cswap_limb b f5 g5;
        (h6, k6) = cswap_limb b f6 g6;
        (h7, k7) = cswap_limb b f7 g7;
        (h8, k8) = cswap_limb b f8 g8;
        (h9, k9) = cswap_limb b f9 g9
      in (Fe h0 h1 h2 h3 h4 h5 h6 h7 h8 h9, Fe k0 k1 k2 k3 k4 k5 k6 k7 k8 k9))"

text \<open>The inverse as a power. \<open>sq_loop n\<close> is the loop that squares in place \<open>n\<close> times.\<close>

abbreviation sq_loop :: "nat \<Rightarrow> fe \<Rightarrow> fe" where
  "sq_loop n \<equiv> fe_sqr_impl ^^ n"

definition fe_loose_invert :: "fe_loose \<Rightarrow> fe" where
  "fe_loose_invert z =
     (let
        t0 = fe_sqr_impl z;
        t1 = sq_loop 1 (fe_sqr_impl t0);
        t1 = fe_mul_impl z t1;
        t0 = fe_mul_impl t0 t1;
        t2 = fe_sqr_impl t0;
        t1 = fe_mul_impl t1 t2;
        t2 = sq_loop 4 (fe_sqr_impl t1);
        t1 = fe_mul_impl t2 t1;
        t2 = sq_loop 9 (fe_sqr_impl t1);
        t2 = fe_mul_impl t2 t1;
        t3 = sq_loop 19 (fe_sqr_impl t2);
        t2 = fe_mul_impl t3 t2;
        t2 = sq_loop 9 (fe_sqr_impl t2);
        t1 = fe_mul_impl t2 t1;
        t2 = sq_loop 49 (fe_sqr_impl t1);
        t2 = fe_mul_impl t2 t1;
        t3 = sq_loop 99 (fe_sqr_impl t2);
        t2 = fe_mul_impl t3 t2;
        t2 = sq_loop 49 (fe_sqr_impl t2);
        t1 = fe_mul_impl t2 t1;
        t1 = sq_loop 4 (fe_sqr_impl t1)
      in fe_mul_impl t1 t0)"

subsection \<open>Words and the integers they stand for\<close>

text \<open>A word stands for an integer that has a known bound.\<close>

definition reps :: "'a::len word \<Rightarrow> int \<Rightarrow> int \<Rightarrow> bool" where
  "reps w i b \<longleftrightarrow> uint w = i \<and> i \<le> b"

lemma reps_nonneg: "reps w i b \<Longrightarrow> 0 \<le> i"
  by (auto simp: reps_def)

lemma reps_uint: "uint w \<le> b \<Longrightarrow> reps w (uint w) b"
  by (simp add: reps_def)

lemma reps_eq: "reps w i b \<Longrightarrow> i = j \<Longrightarrow> b \<le> c \<Longrightarrow> reps w j c"
  by (simp add: reps_def)

lemma reps_weaken: "reps w i b \<Longrightarrow> b \<le> c \<Longrightarrow> reps w i c"
  by (simp add: reps_def)

lemma reps_add:
  fixes x y :: "'a::len word"
  assumes "reps x i A" "reps y j B" "A + B < 2 ^ LENGTH('a)"
  shows "reps (x + y) (i + j) (A + B)"
proof -
  have "uint x + uint y < 2 ^ LENGTH('a)"
    using assms by (auto simp: reps_def)
  then have "uint (x + y) = uint x + uint y"
    by (simp only: uint_add_lem)
  then show ?thesis
    using assms by (auto simp: reps_def)
qed

lemma reps_umull:
  fixes x y :: u32
  assumes "reps x i A" "reps y j B"
  shows "reps (umull x y) (i * j) (A * B)"
proof -
  have "uint x < 2 ^ 32" "uint y < 2 ^ 32"
    using unsigned_less [of x, where 'a = int] unsigned_less [of y, where 'a = int] by simp_all
  then have "uint x * uint y < 2 ^ 32 * 2 ^ 32"
    by (intro mult_strict_mono) simp_all
  moreover have "uint (ucast z :: u64) = uint z" for z :: u32
    using unsigned_less [of z, where 'a = int] by (simp add: unsigned_ucast_eq take_bit_int_eq_self)
  ultimately have "uint (umull x y) = uint x * uint y"
    by (simp add: uint_word_arith_bintrs(3) take_bit_int_eq_self)
  moreover have "i * j \<le> A * B"
    using assms reps_nonneg [OF assms(1)] reps_nonneg [OF assms(2)] by (intro mult_mono) (auto simp: reps_def)
  ultimately show ?thesis
    using assms by (simp add: reps_def)
qed

lemma reps_times:
  fixes x :: "'a::len word"
  assumes "reps x i A" "numeral k * A < 2 ^ LENGTH('a)"
  shows "reps (numeral k * x) (numeral k * i) (numeral k * A)"
proof -
  have i: "0 \<le> i" "i \<le> A"
    using assms(1) reps_nonneg by (auto simp: reps_def)
  then have "numeral k * i \<le> numeral k * A"
    by simp
  then have b: "numeral k * i < 2 ^ LENGTH('a)"
    using assms(2) by linarith
  have "numeral k * x = (of_int (numeral k * i) :: 'a word)"
    using assms(1) by (auto simp: reps_def)
  moreover have "uint (of_int (numeral k * i) :: 'a word) = numeral k * i"
    using b i by (intro word_of_int_inverse [OF refl]) (simp_all add: word_size)
  ultimately show ?thesis
    using i by (simp add: reps_def)
qed

lemma reps_push_bit:
  fixes x :: "'a::len word"
  assumes "reps x i A" "A * 2 ^ n < 2 ^ LENGTH('a)"
  shows "reps (push_bit n x) (i * 2 ^ n) (A * 2 ^ n)"
proof -
  have i: "0 \<le> i" "i * 2 ^ n \<le> A * 2 ^ n"
    using assms(1) reps_nonneg by (auto simp: reps_def)
  then have "i * 2 ^ n < 2 ^ LENGTH('a)"
    using assms(2) by linarith
  with i have "take_bit LENGTH('a) (i * 2 ^ n) = i * 2 ^ n"
    by (simp add: take_bit_int_eq_self)
  then have "uint (push_bit n x) = i * 2 ^ n"
    using assms(1) unfolding unsigned_push_bit_eq by (simp add: reps_def push_bit_eq_mult)
  with i show ?thesis
    by (simp add: reps_def)
qed

lemma reps_drop_bit:
  assumes "reps x i A"
  shows "reps (drop_bit n x) (i div 2 ^ n) (A div 2 ^ n)"
proof -
  have "uint (drop_bit n x) = drop_bit n (uint x)"
    using unsigned_less [of x, where 'a = int]
    by (simp only: unsigned_drop_bit_eq take_bit_int_eq_self unsigned_greater_eq)
  then have "uint (drop_bit n x) = uint x div 2 ^ n"
    by (simp only: drop_bit_eq_div)
  then show ?thesis
    using assms by (simp add: reps_def zdiv_mono1)
qed

text \<open>The low bits of a word, cut to a narrower one.\<close>

lemma reps_low_bits:
  fixes x :: "'a::len word"
  assumes "reps x i A" "n \<le> LENGTH('b::len)"
  shows "reps ((ucast x :: 'b word) AND of_int (2 ^ n - 1)) (i mod 2 ^ n) (2 ^ n - 1)"
proof -
  have "(of_int (2 ^ n - 1) :: 'b word) = mask n"
    by (simp add: mask_eq_exp_minus_1)
  then have "uint ((ucast x :: 'b word) AND of_int (2 ^ n - 1)) = take_bit n (uint x)"
    using assms(2) by (simp add: take_bit_eq_mask [symmetric] unsigned_take_bit_eq unsigned_ucast_eq min_def)
  then show ?thesis
    using assms(1) by (auto simp: reps_def take_bit_eq_mod)
qed

lemma reps_ucast_up:
  fixes x :: "'a::len word"
  assumes "reps x i A" "A < 2 ^ LENGTH('b::len)"
  shows "reps (ucast x :: 'b word) i A"
  using assms reps_nonneg [OF assms(1)]
  by (auto simp: reps_def unsigned_ucast_eq intro!: take_bit_int_eq_self)

lemma reps_fold19:
  assumes "reps lo i A" "reps hi j B" "A + 19 * B < 2 ^ 64"
  shows "reps (fold19 lo hi) (i + 19 * j) (A + 19 * B)"
proof -
  have B: "0 \<le> B" "0 \<le> A"
    using assms reps_nonneg [OF assms(2)] reps_nonneg [OF assms(1)] by (auto simp: reps_def)
  have "reps (fold19 lo hi) (i + j * 2 ^ 4 + j * 2 ^ 1 + j) (A + B * 2 ^ 4 + B * 2 ^ 1 + B)"
    unfolding fold19_def by (intro reps_add reps_push_bit assms) (use assms(3) B in simp_all)
  then show ?thesis
    by (rule reps_eq) simp_all
qed

lemmas reps_rules = reps_umull reps_times reps_fold19 reps_add reps_push_bit

subsection \<open>Values and bounds\<close>

definition p25519 :: int where
  "p25519 = 2 ^ 255 - 19"

fun fe_val :: "fe \<Rightarrow> int" where
  "fe_val (Fe h0 h1 h2 h3 h4 h5 h6 h7 h8 h9) =
     uint h0 + 2 ^ 26 * uint h1 + 2 ^ 51 * uint h2 + 2 ^ 77 * uint h3 + 2 ^ 102 * uint h4 +
     2 ^ 128 * uint h5 + 2 ^ 153 * uint h6 + 2 ^ 179 * uint h7 + 2 ^ 204 * uint h8 + 2 ^ 230 * uint h9"

fun limbs_within :: "int \<Rightarrow> int \<Rightarrow> fe \<Rightarrow> bool" where
  "limbs_within e d (Fe h0 h1 h2 h3 h4 h5 h6 h7 h8 h9) \<longleftrightarrow>
     uint h0 \<le> e \<and> uint h1 \<le> d \<and> uint h2 \<le> e \<and> uint h3 \<le> d \<and> uint h4 \<le> e \<and>
     uint h5 \<le> d \<and> uint h6 \<le> e \<and> uint h7 \<le> d \<and> uint h8 \<le> e \<and> uint h9 \<le> d"

text \<open>The bounds in the comments of the code: 1.125 and 3.375 times \<open>2 ^ 26\<close> and \<open>2 ^ 25\<close>.\<close>

abbreviation tight :: "fe \<Rightarrow> bool" where
  "tight \<equiv> limbs_within 75497472 37748736"

abbreviation loose :: "fe_loose \<Rightarrow> bool" where
  "loose \<equiv> limbs_within 226492416 113246208"

text \<open>
  The carries: the value of the columns modulo the prime, where a column stands for a low part and 19
  times a high part, which weighs \<open>2 ^ 255\<close> times as much.
\<close>

lemma carry_sum:
  fixes i0 :: int
  assumes "i0 = 2 ^ 26 * c0 + r0" "c0 + i1 = 2 ^ 25 * c1 + r1" "c1 + i2 = 2 ^ 26 * c2 + r2" "c2 + i3 = 2 ^ 25 * c3 + r3"
    "c3 + i4 = 2 ^ 26 * c4 + r4" "c4 + i5 = 2 ^ 25 * c5 + r5" "c5 + i6 = 2 ^ 26 * c6 + r6" "c6 + i7 = 2 ^ 25 * c7 + r7"
    "c7 + i8 = 2 ^ 26 * c8 + r8" "c8 + i9 = 2 ^ 25 * c9 + r9" "r0 + 19 * c9 = 2 ^ 26 * d0 + m0" "d0 + r1 = 2 ^ 25 * d1 + m1"
  shows "m0 + 2 ^ 26 * m1 + 2 ^ 51 * (d1 + r2) + 2 ^ 77 * r3 + 2 ^ 102 * r4 + 2 ^ 128 * r5 + 2 ^ 153 * r6 + 2 ^ 179 * r7 +
      2 ^ 204 * r8 + 2 ^ 230 * r9 =
    i0 + 2 ^ 26 * i1 + 2 ^ 51 * i2 + 2 ^ 77 * i3 + 2 ^ 102 * i4 + 2 ^ 128 * i5 + 2 ^ 153 * i6 + 2 ^ 179 * i7 +
      2 ^ 204 * i8 + 2 ^ 230 * i9 - c9 * p25519"
  using assms by (simp add: p25519_def)

lemma carry_columns_correct:
  assumes "reps x85 i0 B" "reps x82 i1 B" "reps x79 i2 B" "reps x76 i3 B" "reps x73 i4 B"
    "reps x70 i5 B" "reps x67 i6 B" "reps x64 i7 B" "reps x61 i8 B" "reps x49 i9 B"
    and B: "B = 2 ^ 63"
  shows "tight (carry_columns x85 x82 x79 x76 x73 x70 x67 x64 x61 x49) \<and>
    (\<exists>c. fe_val (carry_columns x85 x82 x79 x76 x73 x70 x67 x64 x61 x49) =
      i0 + 2 ^ 26 * i1 + 2 ^ 51 * i2 + 2 ^ 77 * i3 + 2 ^ 102 * i4 + 2 ^ 128 * i5 + 2 ^ 153 * i6 + 2 ^ 179 * i7 +
      2 ^ 204 * i8 + 2 ^ 230 * i9 - c * p25519)"
proof -
  define x88 where "x88 = drop_bit 26 x85 + x82"
  define x91 where "x91 = drop_bit 25 x88 + x79"
  define x94 where "x94 = drop_bit 26 x91 + x76"
  define x97 where "x97 = drop_bit 25 x94 + x73"
  define x100 where "x100 = drop_bit 26 x97 + x70"
  define x103 where "x103 = drop_bit 25 x100 + x67"
  define x106 where "x106 = drop_bit 26 x103 + x64"
  define x109 where "x109 = drop_bit 25 x106 + x61"
  define x112 where "x112 = drop_bit 26 x109 + x49"
  define x115 :: u64 where "x115 = ucast (ucast x85 AND 0x3ffffff :: u32) + 19 * drop_bit 25 x112"
  define x118 :: u32 where "x118 = ucast (drop_bit 26 x115) + (ucast x88 AND 0x1ffffff)"
  define j1 where "j1 = i0 div 2 ^ 26 + i1"
  define j2 where "j2 = j1 div 2 ^ 25 + i2"
  define j3 where "j3 = j2 div 2 ^ 26 + i3"
  define j4 where "j4 = j3 div 2 ^ 25 + i4"
  define j5 where "j5 = j4 div 2 ^ 26 + i5"
  define j6 where "j6 = j5 div 2 ^ 25 + i6"
  define j7 where "j7 = j6 div 2 ^ 26 + i7"
  define j8 where "j8 = j7 div 2 ^ 25 + i8"
  define j9 where "j9 = j8 div 2 ^ 26 + i9"
  define m where "m = i0 mod 2 ^ 26 + 19 * (j9 div 2 ^ 25)"
  define k where "k = m div 2 ^ 26 + j1 mod 2 ^ 25"
  note word_defs = x88_def x91_def x94_def x97_def x100_def x103_def x106_def x109_def x112_def x115_def x118_def
  note int_defs = j1_def j2_def j3_def j4_def j5_def j6_def j7_def j8_def j9_def m_def k_def
  have low26: "reps (ucast x AND 0x3ffffff :: u32) (i mod 2 ^ 26) 67108863" if "reps x i A" for x :: "'b::len word" and i A
    using reps_low_bits [OF that, where n = 26 and 'b = 32] by simp
  have low25: "reps (ucast x AND 0x1ffffff :: u32) (i mod 2 ^ 25) 33554431" if "reps x i A" for x :: "'b::len word" and i A
    using reps_low_bits [OF that, where n = 25 and 'b = 32] by simp
  have step: "reps (drop_bit n x + y) (i div 2 ^ n + j) (2 ^ 63 + 2 ^ 40)"
    if "reps x i (2 ^ 63 + 2 ^ 40)" "reps y j B" "n = 25 \<or> n = 26" for x y :: u64 and i j n
    using reps_add [OF reps_drop_bit [OF that(1)] that(2), of n] that(3) B by (auto intro: reps_weaken)
  have t: "reps x85 i0 (2 ^ 63 + 2 ^ 40)"
    using assms(1) B by (auto intro: reps_weaken)
  have r1: "reps x88 j1 (2 ^ 63 + 2 ^ 40)"
    unfolding x88_def j1_def by (rule step [OF t assms(2)]) simp
  have r2: "reps x91 j2 (2 ^ 63 + 2 ^ 40)"
    unfolding x91_def j2_def by (rule step [OF r1 assms(3)]) simp
  have r3: "reps x94 j3 (2 ^ 63 + 2 ^ 40)"
    unfolding x94_def j3_def by (rule step [OF r2 assms(4)]) simp
  have r4: "reps x97 j4 (2 ^ 63 + 2 ^ 40)"
    unfolding x97_def j4_def by (rule step [OF r3 assms(5)]) simp
  have r5: "reps x100 j5 (2 ^ 63 + 2 ^ 40)"
    unfolding x100_def j5_def by (rule step [OF r4 assms(6)]) simp
  have r6: "reps x103 j6 (2 ^ 63 + 2 ^ 40)"
    unfolding x103_def j6_def by (rule step [OF r5 assms(7)]) simp
  have r7: "reps x106 j7 (2 ^ 63 + 2 ^ 40)"
    unfolding x106_def j7_def by (rule step [OF r6 assms(8)]) simp
  have r8: "reps x109 j8 (2 ^ 63 + 2 ^ 40)"
    unfolding x109_def j8_def by (rule step [OF r7 assms(9)]) simp
  have r9: "reps x112 j9 (2 ^ 63 + 2 ^ 40)"
    unfolding x112_def j9_def by (rule step [OF r8 assms(10)]) simp
  have rm: "reps x115 m (2 ^ 45)"
    unfolding x115_def m_def
    by (rule reps_weaken [OF reps_add [OF reps_ucast_up [OF low26 [OF t]] reps_times [OF reps_drop_bit [OF r9]]]]) simp_all
  have rk: "reps x118 k (2 ^ 25 + 2 ^ 20)"
    unfolding x118_def k_def
    by (rule reps_weaken [OF reps_add [OF reps_ucast_up [OF reps_drop_bit [OF rm]] low25 [OF r1]]]) simp_all
  have r2': "reps (drop_bit 25 x118 + (ucast x91 AND 0x3ffffff)) (k div 2 ^ 25 + j2 mod 2 ^ 26) 75497472"
    by (rule reps_weaken [OF reps_add [OF reps_drop_bit [OF rk] low26 [OF r2]]]) simp_all
  have "carry_columns x85 x82 x79 x76 x73 x70 x67 x64 x61 x49 =
      Fe (ucast x115 AND 0x3ffffff) (x118 AND 0x1ffffff) (drop_bit 25 x118 + (ucast x91 AND 0x3ffffff))
        (ucast x94 AND 0x1ffffff) (ucast x97 AND 0x3ffffff) (ucast x100 AND 0x1ffffff) (ucast x103 AND 0x3ffffff)
        (ucast x106 AND 0x1ffffff) (ucast x109 AND 0x3ffffff) (ucast x112 AND 0x1ffffff)"
    unfolding carry_columns_def Let_def word_defs ..
  moreover note low26 [OF rm] low25 [OF rk, simplified] r2' low25 [OF r3] low26 [OF r4] low25 [OF r5] low26 [OF r6]
    low25 [OF r7] low26 [OF r8] low25 [OF r9]
  moreover note carry_sum [of i0 "i0 div 2 ^ 26" "i0 mod 2 ^ 26" i1 "j1 div 2 ^ 25" "j1 mod 2 ^ 25" i2 "j2 div 2 ^ 26" "j2 mod 2 ^ 26"
      i3 "j3 div 2 ^ 25" "j3 mod 2 ^ 25" i4 "j4 div 2 ^ 26" "j4 mod 2 ^ 26" i5 "j5 div 2 ^ 25" "j5 mod 2 ^ 25"
      i6 "j6 div 2 ^ 26" "j6 mod 2 ^ 26" i7 "j7 div 2 ^ 25" "j7 mod 2 ^ 25" i8 "j8 div 2 ^ 26" "j8 mod 2 ^ 26"
      i9 "j9 div 2 ^ 25" "j9 mod 2 ^ 25" "m div 2 ^ 26" "m mod 2 ^ 26" "k div 2 ^ 25" "k mod 2 ^ 25"]
  ultimately show ?thesis
    unfolding int_defs [symmetric] by (auto simp: reps_def)
qed

lemma carry_columns_mod:
  assumes "reps x85 i0 B" "reps x82 i1 B" "reps x79 i2 B" "reps x76 i3 B" "reps x73 i4 B"
    "reps x70 i5 B" "reps x67 i6 B" "reps x64 i7 B" "reps x61 i8 B" "reps x49 i9 B" "B = 2 ^ 63"
    and "i0 + 2 ^ 26 * i1 + 2 ^ 51 * i2 + 2 ^ 77 * i3 + 2 ^ 102 * i4 + 2 ^ 128 * i5 + 2 ^ 153 * i6 + 2 ^ 179 * i7 +
      2 ^ 204 * i8 + 2 ^ 230 * i9 = v - h * p25519"
  shows "tight (carry_columns x85 x82 x79 x76 x73 x70 x67 x64 x61 x49) \<and>
    fe_val (carry_columns x85 x82 x79 x76 x73 x70 x67 x64 x61 x49) mod p25519 = v mod p25519"
proof -
  obtain c where "fe_val (carry_columns x85 x82 x79 x76 x73 x70 x67 x64 x61 x49) = v - h * p25519 - c * p25519"
    using carry_columns_correct [OF assms(1-11)] assms(12) by auto
  then have "fe_val (carry_columns x85 x82 x79 x76 x73 x70 x67 x64 x61 x49) = v + (- h - c) * p25519"
    by (simp add: algebra_simps)
  then show ?thesis
    using carry_columns_correct [OF assms(1-11)] by simp
qed

text \<open>
  The columns of a product, low and high, written out once; the words of the code stand for them, and
  they make up the product.
\<close>

lemma columns_correct:
  assumes "reps lo0 l0 461168601842738790" "reps hi0 h0 461168601842738790" "reps lo1 l1 461168601842738790" "reps hi1 h1 461168601842738790" "reps lo2 l2 461168601842738790" "reps hi2 h2 461168601842738790"
    "reps lo3 l3 461168601842738790" "reps hi3 h3 461168601842738790" "reps lo4 l4 461168601842738790" "reps hi4 h4 461168601842738790" "reps lo5 l5 461168601842738790" "reps hi5 h5 461168601842738790"
    "reps lo6 l6 461168601842738790" "reps hi6 h6 461168601842738790" "reps lo7 l7 461168601842738790" "reps hi7 h7 461168601842738790" "reps lo8 l8 461168601842738790" "reps hi8 h8 461168601842738790" "reps lo9 l9 461168601842738790"
    and v: "v = l0 + 2 ^ 26 * l1 + 2 ^ 51 * l2 + 2 ^ 77 * l3 + 2 ^ 102 * l4 + 2 ^ 128 * l5 + 2 ^ 153 * l6 + 2 ^ 179 * l7 +
      2 ^ 204 * l8 + 2 ^ 230 * l9 + 2 ^ 255 * h0 + 2 ^ 281 * h1 + 2 ^ 306 * h2 + 2 ^ 332 * h3 + 2 ^ 357 * h4 +
      2 ^ 383 * h5 + 2 ^ 408 * h6 + 2 ^ 434 * h7 + 2 ^ 459 * h8"
  shows "tight (carry_columns (fold19 lo0 hi0) (fold19 lo1 hi1) (fold19 lo2 hi2) (fold19 lo3 hi3) (fold19 lo4 hi4)
      (fold19 lo5 hi5) (fold19 lo6 hi6) (fold19 lo7 hi7) (fold19 lo8 hi8) lo9) \<and>
    fe_val (carry_columns (fold19 lo0 hi0) (fold19 lo1 hi1) (fold19 lo2 hi2) (fold19 lo3 hi3) (fold19 lo4 hi4)
      (fold19 lo5 hi5) (fold19 lo6 hi6) (fold19 lo7 hi7) (fold19 lo8 hi8) lo9) mod p25519 = v mod p25519"
proof -
  have f: "reps (fold19 lo hi) (l + 19 * h) (2 ^ 63)" if "reps lo l 461168601842738790" "reps hi h 461168601842738790" for lo hi l h
    by (rule reps_weaken [OF reps_fold19 [OF that]]) simp_all
  have "reps lo9 l9 (2 ^ 63)"
    by (rule reps_weaken [OF assms(19)]) simp
  then show ?thesis
    by (rule carry_columns_mod [OF f [OF assms(1,2)] f [OF assms(3,4)] f [OF assms(5,6)] f [OF assms(7,8)] f [OF assms(9,10)]
        f [OF assms(11,12)] f [OF assms(13,14)] f [OF assms(15,16)] f [OF assms(17,18)] _ refl,
        where h = "h0 + 2 ^ 26 * h1 + 2 ^ 51 * h2 + 2 ^ 77 * h3 + 2 ^ 102 * h4 + 2 ^ 128 * h5 + 2 ^ 153 * h6 +
          2 ^ 179 * h7 + 2 ^ 204 * h8"])
      (simp add: v p25519_def algebra_simps)
qed

lemma fe_mul_impl_correct:
  assumes "loose f" "loose g"
  shows "tight (fe_mul_impl f g) \<and> fe_val (fe_mul_impl f g) mod p25519 = fe_val f * fe_val g mod p25519"
proof -
  obtain x5 x7 x9 x11 x13 x15 x17 x19 x21 x20 where f: "f = Fe x5 x7 x9 x11 x13 x15 x17 x19 x21 x20"
    by (cases f)
  obtain x23 x25 x27 x29 x31 x33 x35 x37 x39 x38 where g: "g = Fe x23 x25 x27 x29 x31 x33 x35 x37 x39 x38"
    by (cases g)
  have limbs: "reps x5 (uint x5) 226492416" "reps x7 (uint x7) 113246208" "reps x9 (uint x9) 226492416"
    "reps x11 (uint x11) 113246208" "reps x13 (uint x13) 226492416" "reps x15 (uint x15) 113246208"
    "reps x17 (uint x17) 226492416" "reps x19 (uint x19) 113246208" "reps x21 (uint x21) 226492416"
    "reps x20 (uint x20) 113246208" "reps x23 (uint x23) 226492416" "reps x25 (uint x25) 113246208"
    "reps x27 (uint x27) 226492416" "reps x29 (uint x29) 113246208" "reps x31 (uint x31) 226492416"
    "reps x33 (uint x33) 113246208" "reps x35 (uint x35) 226492416" "reps x37 (uint x37) 113246208"
    "reps x39 (uint x39) 226492416" "reps x38 (uint x38) 113246208"
    using assms by (simp_all add: f g reps_def)
  show ?thesis
    unfolding f g fe_mul_impl.simps Let_def
    by (rule columns_correct, (rule reps_weaken, (rule reps_rules limbs | (simp; fail))+)+)
      (simp add: algebra_simps)
qed

lemma fe_sqr_impl_correct:
  assumes "loose f"
  shows "tight (fe_sqr_impl f) \<and> fe_val (fe_sqr_impl f) mod p25519 = fe_val f * fe_val f mod p25519"
proof -
  obtain x2 x4 x6 x8 x10 x12 x14 x16 x18 x17 where f: "f = Fe x2 x4 x6 x8 x10 x12 x14 x16 x18 x17"
    by (cases f)
  have limbs: "reps x2 (uint x2) 226492416" "reps x4 (uint x4) 113246208" "reps x6 (uint x6) 226492416"
    "reps x8 (uint x8) 113246208" "reps x10 (uint x10) 226492416" "reps x12 (uint x12) 113246208"
    "reps x14 (uint x14) 226492416" "reps x16 (uint x16) 113246208" "reps x18 (uint x18) 226492416"
    "reps x17 (uint x17) 113246208"
    using assms by (simp_all add: f reps_def)
  show ?thesis
    unfolding f fe_sqr_impl.simps Let_def
    by (rule columns_correct, (rule reps_weaken, (rule reps_rules limbs | (simp; fail))+)+)
      (simp add: algebra_simps)
qed

lemma reps_sub:
  fixes x y :: "'a::len word"
  assumes "reps x i A" "reps y j B" "j \<le> i"
  shows "reps (x - y) (i - j) A"
proof -
  have "uint (x - y) = uint x - uint y"
    using assms uint_sub_lem [of y x] by (simp add: reps_def)
  then show ?thesis
    using assms reps_nonneg [OF assms(2)] by (auto simp: reps_def)
qed

lemma limbs_within_mono: "limbs_within e d f \<Longrightarrow> e \<le> e' \<Longrightarrow> d \<le> d' \<Longrightarrow> limbs_within e' d' f"
  by (cases f) auto

lemma tight_loose: "tight f \<Longrightarrow> loose f"
  by (erule limbs_within_mono) simp_all

lemma add_limb:
  fixes x y :: u32
  assumes "uint x \<le> A" "uint y \<le> B" "A + B < 2 ^ 32"
  shows "uint (x + y) = uint x + uint y"
  using reps_add [OF reps_uint [OF assms(1)] reps_uint [OF assms(2)]] assms(3) by (simp add: reps_def)

lemma fe_add_impl_correct:
  assumes "tight f" "tight g"
  shows "loose (fe_add_impl f g) \<and> fe_val (fe_add_impl f g) = fe_val f + fe_val g"
  using assms add_limb [of _ 75497472 _ 75497472] add_limb [of _ 37748736 _ 37748736] by (cases f; cases g) simp

lemma sub_limb:
  fixes c x y :: u32
  assumes "uint x \<le> A" "uint y \<le> uint c" "uint c + A < 2 ^ 32"
  shows "uint ((c + x) - y) = uint c + uint x - uint y"
proof -
  have r: "reps (c + x) (uint c + uint x) (uint c + A)"
    using reps_add [OF reps_uint [OF order_refl [of "uint c"]] reps_uint [OF assms(1)]] assms(3) by simp
  have "uint y \<le> uint c + uint x"
    using assms(2) unsigned_greater_eq [of x, where 'a = int] by linarith
  from reps_sub [OF r reps_uint [OF assms(2)] this] show ?thesis
    by (simp add: reps_def)
qed

lemma uint_diff_le: "uint x \<le> k \<Longrightarrow> uint x - uint y \<le> k"
  using unsigned_greater_eq [of y, where 'a = int] by linarith

lemma fe_sub_impl_correct:
  assumes "tight f" "tight g"
  shows "loose (fe_sub_impl f g) \<and> fe_val (fe_sub_impl f g) = fe_val f - fe_val g + 2 * p25519"
  using assms sub_limb [of _ 75497472 _ "0x7ffffda"] sub_limb [of _ 75497472 _ "0x7fffffe"] sub_limb [of _ 37748736 _ "0x3fffffe"]
  by (cases f; cases g) (simp add: p25519_def, auto intro!: uint_diff_le)

lemma cswap_limb_simps: "cswap_limb 0 f g = (f, g)" "cswap_limb (- 1) f g = (g, f)"
  by (auto simp: cswap_limb_def bit_eq_iff bit_xor_iff)

lemma fe_cswap_correct: "fe_cswap f g 0 = (f, g)" "fe_cswap f g 1 = (g, f)"
  by (cases f; cases g; simp add: cswap_limb_simps)+

subsection \<open>Powers\<close>

text \<open>A field element that stands for a number modulo the prime.\<close>

definition stands :: "fe \<Rightarrow> int \<Rightarrow> bool" where
  "stands f v \<longleftrightarrow> tight f \<and> fe_val f mod p25519 = v mod p25519"

definition stands_loose :: "fe_loose \<Rightarrow> int \<Rightarrow> bool" where
  "stands_loose f v \<longleftrightarrow> loose f \<and> fe_val f mod p25519 = v mod p25519"

lemma stands_cong: "stands f v \<Longrightarrow> v mod p25519 = w mod p25519 \<Longrightarrow> stands f w"
  by (simp add: stands_def)

lemma stands_loose [intro]: "stands f v \<Longrightarrow> stands_loose f v"
  by (simp add: stands_def stands_loose_def tight_loose)

lemma stands_mul: "stands_loose f v \<Longrightarrow> stands_loose g w \<Longrightarrow> stands (fe_mul_impl f g) (v * w)"
  by (auto simp: stands_def stands_loose_def fe_mul_impl_correct intro: mod_mult_cong)

lemma stands_sqr: "stands_loose f v \<Longrightarrow> stands (fe_sqr_impl f) (v ^ 2)"
  by (auto simp: stands_def stands_loose_def fe_sqr_impl_correct power2_eq_square intro: mod_mult_cong)

lemma stands_add: "stands f v \<Longrightarrow> stands g w \<Longrightarrow> stands_loose (fe_add_impl f g) (v + w)"
  by (auto simp: stands_def stands_loose_def fe_add_impl_correct intro: mod_add_cong)

lemma stands_sub: "stands f v \<Longrightarrow> stands g w \<Longrightarrow> stands_loose (fe_sub_impl f g) (v - w)"
  by (auto simp: stands_def stands_loose_def fe_sub_impl_correct intro: mod_diff_cong)

lemma stands_121666: "stands_loose f v \<Longrightarrow> stands (fe_mul_121666_impl f) (v * 121666)"
  unfolding fe_mul_121666_impl_def by (erule stands_mul) (simp add: stands_loose_def)

lemma stands_sq_loop: "stands f (z ^ m) \<Longrightarrow> stands (sq_loop n f) (z ^ (m * 2 ^ n))"
proof (induction n)
  case (Suc n)
  then have "stands (fe_sqr_impl (sq_loop n f)) ((z ^ (m * 2 ^ n)) ^ 2)"
    by (intro stands_sqr stands_loose)
  then show ?case
    by (simp add: power_mult [symmetric] ac_simps)
qed simp

lemma stands_pow_mul:
  "stands_loose f (z ^ m) \<Longrightarrow> stands_loose g (z ^ k) \<Longrightarrow> n = m + k \<Longrightarrow> stands (fe_mul_impl f g) (z ^ n)"
  using stands_mul [of f "z ^ m" g "z ^ k"] by (simp add: power_add)

lemma stands_pow_sq:
  assumes "stands_loose f (z ^ m)" "k = m * 2 ^ Suc n"
  shows "stands (sq_loop n (fe_sqr_impl f)) (z ^ k)"
  using stands_sq_loop [OF stands_sqr [OF assms(1), unfolded power_mult [symmetric]], of n] assms(2)
  by (simp add: mult.assoc)

lemma fe_loose_invert_correct:
  assumes "stands_loose z v"
  shows "stands (fe_loose_invert z) (v ^ (2 ^ 255 - 21))"
proof -
  have z: "stands_loose z (v ^ 1)"
    using assms by simp
  have sq: "stands_loose f (v ^ m) \<Longrightarrow> k = m * 2 \<Longrightarrow> stands (fe_sqr_impl f) (v ^ k)" for f m k
    using stands_pow_sq [of f v m k 0] by simp
  define t0 where "t0 = fe_sqr_impl z"
  define t1 where "t1 = fe_mul_impl z (sq_loop 1 (fe_sqr_impl t0))"
  define u0 where "u0 = fe_mul_impl t0 t1"
  define u1 where "u1 = fe_mul_impl t1 (fe_sqr_impl u0)"
  define v1 where "v1 = fe_mul_impl (sq_loop 4 (fe_sqr_impl u1)) u1"
  define t2 where "t2 = fe_mul_impl (sq_loop 9 (fe_sqr_impl v1)) v1"
  define u2 where "u2 = fe_mul_impl (sq_loop 19 (fe_sqr_impl t2)) t2"
  define w1 where "w1 = fe_mul_impl (sq_loop 9 (fe_sqr_impl u2)) v1"
  define v2 where "v2 = fe_mul_impl (sq_loop 49 (fe_sqr_impl w1)) w1"
  define w2 where "w2 = fe_mul_impl (sq_loop 99 (fe_sqr_impl v2)) v2"
  define x1 where "x1 = fe_mul_impl (sq_loop 49 (fe_sqr_impl w2)) w1"
  have t0: "stands t0 (v ^ 2)"
    unfolding t0_def by (rule sq [OF z]) simp
  have t1: "stands t1 (v ^ 9)"
    unfolding t1_def by (rule stands_pow_mul [OF z stands_loose [OF stands_pow_sq [OF stands_loose [OF t0] refl]]]) simp
  have u0: "stands u0 (v ^ 11)"
    unfolding u0_def by (rule stands_pow_mul [OF stands_loose [OF t0] stands_loose [OF t1]]) simp
  have u1: "stands u1 (v ^ (2 ^ 5 - 1))"
    unfolding u1_def by (rule stands_pow_mul [OF stands_loose [OF t1] stands_loose [OF sq [OF stands_loose [OF u0] refl]]]) simp
  have pow: "stands (fe_mul_impl (sq_loop n (fe_sqr_impl f)) g) (v ^ k)"
    if "stands f (v ^ m)" "stands g (v ^ m')" "k = m * 2 ^ Suc n + m'" for f g n m m' k
    by (rule stands_pow_mul [OF stands_loose [OF stands_pow_sq [OF stands_loose [OF that(1)] refl]] stands_loose [OF that(2)] that(3)])
  have v1: "stands v1 (v ^ (2 ^ 10 - 1))"
    unfolding v1_def by (rule pow [OF u1 u1]) simp
  have t2: "stands t2 (v ^ (2 ^ 20 - 1))"
    unfolding t2_def by (rule pow [OF v1 v1]) simp
  have u2: "stands u2 (v ^ (2 ^ 40 - 1))"
    unfolding u2_def by (rule pow [OF t2 t2]) simp
  have w1: "stands w1 (v ^ (2 ^ 50 - 1))"
    unfolding w1_def by (rule pow [OF u2 v1]) simp
  have v2: "stands v2 (v ^ (2 ^ 100 - 1))"
    unfolding v2_def by (rule pow [OF w1 w1]) simp
  have w2: "stands w2 (v ^ (2 ^ 200 - 1))"
    unfolding w2_def by (rule pow [OF v2 v2]) simp
  have x1: "stands x1 (v ^ (2 ^ 250 - 1))"
    unfolding x1_def by (rule pow [OF w2 w1]) simp
  have "stands (fe_mul_impl (sq_loop 4 (fe_sqr_impl x1)) u0) (v ^ (2 ^ 255 - 21))"
    by (rule pow [OF x1 u0]) simp
  then show ?thesis
    unfolding fe_loose_invert_def Let_def x1_def w2_def v2_def w1_def u2_def t2_def v1_def u1_def u0_def t1_def t0_def .
qed

end
