(* ===== verification/Wg_Pack.thy ===== *)
theory Wg_Pack
  imports Wg_Field Wg_Encoding
begin

text \<open>
  Field elements as byte strings (\<^verbatim>\<open>curve25519-fiat32.h\<close>): reading 32 bytes into ten limbs, the
  subtraction that makes the representative unique, and writing 32 bytes.
\<close>

subsection \<open>Model\<close>

text \<open>\<^verbatim>\<open>get_unaligned_le32\<close> at an offset; \<open>mask n\<close> is \<^verbatim>\<open>(1 << n) - 1\<close>.\<close>

definition get_unaligned_le32 :: "u8 list \<Rightarrow> nat \<Rightarrow> u32" where
  "get_unaligned_le32 s k = of_le32 (drop k s)"

definition fe_frombytes_impl :: "u8 list \<Rightarrow> fe" where
  "fe_frombytes_impl s =
     (let
        a0 = get_unaligned_le32 s 0;
        a1 = get_unaligned_le32 s 4;
        a2 = get_unaligned_le32 s 8;
        a3 = get_unaligned_le32 s 12;
        a4 = get_unaligned_le32 s 16;
        a5 = get_unaligned_le32 s 20;
        a6 = get_unaligned_le32 s 24;
        a7 = get_unaligned_le32 s 28
      in Fe (a0 AND mask 26)
           (drop_bit 26 a0 OR push_bit 6 (a1 AND mask 19))
           (drop_bit 19 a1 OR push_bit 13 (a2 AND mask 13))
           (drop_bit 13 a2 OR push_bit 19 (a3 AND mask 6))
           (drop_bit 6 a3)
           (a4 AND mask 25)
           (drop_bit 25 a4 OR push_bit 7 (a5 AND mask 19))
           (drop_bit 19 a5 OR push_bit 13 (a6 AND mask 12))
           (drop_bit 12 a6 OR push_bit 20 (a7 AND mask 6))
           (drop_bit 6 a7 AND mask 25))"

text \<open>The low limb and the carry or borrow.\<close>

definition addcarryx_u25 :: "u8 \<Rightarrow> u32 \<Rightarrow> u32 \<Rightarrow> u32 \<times> u8" where
  "addcarryx_u25 c a b = (let x = a + b + ucast c in (x AND mask 25, ucast (drop_bit 25 x AND 1)))"

definition addcarryx_u26 :: "u8 \<Rightarrow> u32 \<Rightarrow> u32 \<Rightarrow> u32 \<times> u8" where
  "addcarryx_u26 c a b = (let x = a + b + ucast c in (x AND mask 26, ucast (drop_bit 26 x AND 1)))"

definition subborrow_u25 :: "u8 \<Rightarrow> u32 \<Rightarrow> u32 \<Rightarrow> u32 \<times> u8" where
  "subborrow_u25 c a b = (let x = a - b - ucast c in (x AND mask 25, ucast (drop_bit 31 x)))"

definition subborrow_u26 :: "u8 \<Rightarrow> u32 \<Rightarrow> u32 \<Rightarrow> u32 \<times> u8" where
  "subborrow_u26 c a b = (let x = a - b - ucast c in (x AND mask 26, ucast (drop_bit 31 x)))"

definition cmovznz32 :: "u32 \<Rightarrow> u32 \<Rightarrow> u32 \<Rightarrow> u32" where
  "cmovznz32 t z nz = (let t = - of_bool (t \<noteq> 0) in (t AND nz) OR (NOT t AND z))"

text \<open>The two passes of the code: the prime is subtracted, and added again if that borrowed.\<close>

fun sub_prime :: "fe \<Rightarrow> fe \<times> u8" where
  "sub_prime (Fe x2 x4 x6 x8 x10 x12 x14 x16 x18 x17) =
     (let
        (x20, x21) = subborrow_u26 0 x2 0x3ffffed;
        (x23, x24) = subborrow_u25 x21 x4 0x1ffffff;
        (x26, x27) = subborrow_u26 x24 x6 0x3ffffff;
        (x29, x30) = subborrow_u25 x27 x8 0x1ffffff;
        (x32, x33) = subborrow_u26 x30 x10 0x3ffffff;
        (x35, x36) = subborrow_u25 x33 x12 0x1ffffff;
        (x38, x39) = subborrow_u26 x36 x14 0x3ffffff;
        (x41, x42) = subborrow_u25 x39 x16 0x1ffffff;
        (x44, x45) = subborrow_u26 x42 x18 0x3ffffff;
        (x47, x48) = subborrow_u25 x45 x17 0x1ffffff
      in (Fe x20 x23 x26 x29 x32 x35 x38 x41 x44 x47, x48))"

fun add_masked :: "u32 \<Rightarrow> fe \<Rightarrow> fe" where
  "add_masked x49 (Fe x20 x23 x26 x29 x32 x35 x38 x41 x44 x47) =
     (let
        x50 = x49 AND 0x3ffffed;
        (x52, x53) = addcarryx_u26 0 x20 x50;
        x54 = x49 AND 0x1ffffff;
        (x56, x57) = addcarryx_u25 x53 x23 x54;
        x58 = x49 AND 0x3ffffff;
        (x60, x61) = addcarryx_u26 x57 x26 x58;
        x62 = x49 AND 0x1ffffff;
        (x64, x65) = addcarryx_u25 x61 x29 x62;
        x66 = x49 AND 0x3ffffff;
        (x68, x69) = addcarryx_u26 x65 x32 x66;
        x70 = x49 AND 0x1ffffff;
        (x72, x73) = addcarryx_u25 x69 x35 x70;
        x74 = x49 AND 0x3ffffff;
        (x76, x77) = addcarryx_u26 x73 x38 x74;
        x78 = x49 AND 0x1ffffff;
        (x80, x81) = addcarryx_u25 x77 x41 x78;
        x82 = x49 AND 0x3ffffff;
        (x84, x85) = addcarryx_u26 x81 x44 x82;
        x86 = x49 AND 0x1ffffff;
        (x88, _) = addcarryx_u25 x85 x47 x86
      in Fe x52 x56 x60 x64 x68 x72 x76 x80 x84 x88)"

definition fe_freeze :: "fe \<Rightarrow> fe" where
  "fe_freeze f = (let (g, x48) = sub_prime f; x49 = cmovznz32 (ucast x48) 0 0xffffffff in add_masked x49 g)"

definition fe_tobytes :: "fe \<Rightarrow> u8 list" where
  "fe_tobytes f =
     (case fe_freeze f of Fe h0 h1 h2 h3 h4 h5 h6 h7 h8 h9 \<Rightarrow>
       [ucast (drop_bit 0 h0), ucast (drop_bit 8 h0), ucast (drop_bit 16 h0), ucast (drop_bit 24 h0 OR push_bit 2 h1),
        ucast (drop_bit 6 h1), ucast (drop_bit 14 h1), ucast (drop_bit 22 h1 OR push_bit 3 h2), ucast (drop_bit 5 h2),
        ucast (drop_bit 13 h2), ucast (drop_bit 21 h2 OR push_bit 5 h3), ucast (drop_bit 3 h3), ucast (drop_bit 11 h3),
        ucast (drop_bit 19 h3 OR push_bit 6 h4), ucast (drop_bit 2 h4), ucast (drop_bit 10 h4), ucast (drop_bit 18 h4),
        ucast (drop_bit 0 h5), ucast (drop_bit 8 h5), ucast (drop_bit 16 h5), ucast (drop_bit 24 h5 OR push_bit 1 h6),
        ucast (drop_bit 7 h6), ucast (drop_bit 15 h6), ucast (drop_bit 23 h6 OR push_bit 3 h7), ucast (drop_bit 5 h7),
        ucast (drop_bit 13 h7), ucast (drop_bit 21 h7 OR push_bit 4 h8), ucast (drop_bit 4 h8), ucast (drop_bit 12 h8),
        ucast (drop_bit 20 h8 OR push_bit 6 h9), ucast (drop_bit 2 h9), ucast (drop_bit 10 h9), ucast (drop_bit 18 h9)])"

subsection \<open>Little-endian numbers\<close>

fun le_val :: "u8 list \<Rightarrow> int" where
  "le_val [] = 0"
| "le_val (b # bs) = uint b + 256 * le_val bs"

fun le_bytes :: "nat \<Rightarrow> int \<Rightarrow> u8 list" where
  "le_bytes 0 v = []"
| "le_bytes (Suc n) v = word_of_int v # le_bytes n (v div 256)"

lemma le_val_bounds: "0 \<le> le_val bs \<and> le_val bs < 256 ^ length bs"
proof (induction bs)
  case (Cons b bs)
  then show ?case
    using unsigned_less [of b, where 'a = int] by auto
qed simp

lemma le_bytes_val: "le_bytes (length bs) (le_val bs) = bs"
proof (induction bs)
  case (Cons b bs)
  have "(uint b + 256 * le_val bs) div 256 = le_val bs"
    using unsigned_less [of b, where 'a = int] by simp
  moreover have "(256 :: u8) = 0"
    by simp
  then have "(word_of_int (uint b + 256 * le_val bs) :: u8) = b"
    by (simp only: of_int_add of_int_mult of_int_numeral word_of_int_uint mult_zero_left add_0_right)
  ultimately show ?case
    using Cons by simp
qed simp

lemma length_le_bytes [simp]: "length (le_bytes n v) = n"
  by (induction n arbitrary: v) simp_all

lemma length_32:
  assumes "length s = 32"
  obtains b0 b1 b2 b3 b4 b5 b6 b7 b8 b9 b10 b11 b12 b13 b14 b15 b16 b17 b18 b19 b20 b21 b22 b23 b24 b25 b26 b27 b28 b29 b30 b31
  where "s = [b0, b1, b2, b3, b4, b5, b6, b7, b8, b9, b10, b11, b12, b13, b14, b15, b16, b17, b18, b19, b20, b21, b22, b23,
    b24, b25, b26, b27, b28, b29, b30, b31]"
  using assms by (auto simp: length_Suc_conv numeral_eq_Suc)

subsection \<open>The unique representative\<close>

lemma uint_and_mask: "uint (x AND mask n) = uint x mod 2 ^ n"
  by (simp only: take_bit_eq_mask [symmetric] unsigned_take_bit_eq) (simp only: take_bit_eq_mod)

lemma borrow_step:
  fixes a b :: u32 and c :: u8
  assumes n: "n = 25 \<or> n = 26" and "uint c \<le> 1" "uint b < 2 ^ n" "uint a < uint b + 2 ^ n"
  obtains lo bo where "(let x = a - b - ucast c in (x AND mask n, ucast (drop_bit 31 x) :: u8)) = (lo, bo)"
    "uint a - uint b - uint c = uint lo - 2 ^ n * uint bo" "uint lo < 2 ^ n" "uint bo \<le> 1"
proof -
  define d where "d = uint a - uint b - uint c"
  define x where "x = a - b - ucast c"
  have d: "- (2 ^ n) \<le> d" "d < 2 ^ n"
    using assms(2-4) unsigned_greater_eq [of a, where 'a = int] unsigned_greater_eq [of c, where 'a = int]
    unfolding d_def by linarith+
  have "x = word_of_int d"
    by (simp add: x_def d_def)
  then have ux: "uint x = d mod 2 ^ 32"
    by (simp add: uint_word_of_int)
  have hi: "uint (ucast (drop_bit 31 x) :: u8) = uint x div 2 ^ 31"
  proof -
    have "reps (drop_bit 31 x) (uint x div 2 ^ 31) ((2 ^ 32 - 1) div 2 ^ 31)"
      using unsigned_less [of x, where 'a = int] by (intro reps_drop_bit reps_uint) simp
    then have "reps (ucast (drop_bit 31 x) :: u8) (uint x div 2 ^ 31) ((2 ^ 32 - 1) div 2 ^ 31)"
      by (rule reps_ucast_up) simp
    then show ?thesis
      by (simp add: reps_def)
  qed
  have lo: "uint (x AND mask n) = uint x mod 2 ^ n"
    by (rule uint_and_mask)
  have "uint x = (if d < 0 then d + 2 ^ 32 else d)"
  proof (cases "d < 0")
    case True
    have "d mod 2 ^ 32 = (d + 2 ^ 32) mod 2 ^ 32"
      by simp
    also have "\<dots> = d + 2 ^ 32"
      using True d n by (intro mod_pos_pos_trivial) auto
    finally show ?thesis
      using True by (simp add: ux)
  next
    case False
    then show ?thesis
      using d n unfolding ux by (auto intro: mod_pos_pos_trivial)
  qed
  moreover have "(d + 2 ^ 32) mod 2 ^ n = d + 2 ^ n" "(d + 2 ^ 32) div 2 ^ 31 = 1" if "d < 0"
  proof -
    have "(2 :: int) ^ 32 = 2 ^ n + 2 ^ n * (2 ^ (32 - n) - 1)"
      using n by auto
    then have "(d + 2 ^ 32) mod 2 ^ n = (d + 2 ^ n + 2 ^ n * (2 ^ (32 - n) - 1)) mod 2 ^ n"
      by (simp only: add.assoc)
    also have "\<dots> = d + 2 ^ n"
      unfolding mod_mult_self2 using that d by (intro mod_pos_pos_trivial) linarith+
    finally show "(d + 2 ^ 32) mod 2 ^ n = d + 2 ^ n" .
    show "(d + 2 ^ 32) div 2 ^ 31 = 1"
      using that d n by (intro int_div_pos_eq [of _ _ _ "d + 2 ^ 31"]) auto
  qed
  ultimately have "d = uint (x AND mask n) - 2 ^ n * uint (ucast (drop_bit 31 x) :: u8)" "uint (ucast (drop_bit 31 x) :: u8) \<le> 1"
    "uint (x AND mask n) < 2 ^ n"
    using d n unfolding hi lo by (auto simp: mod_pos_pos_trivial div_pos_pos_trivial split: if_splits)
  then show thesis
    using that by (simp add: d_def x_def Let_def)
qed

lemma carry_bit_step:
  fixes a b :: u32 and c :: u8
  assumes n: "n = 25 \<or> n = 26" and "uint c \<le> 1" "uint b < 2 ^ n" "uint a < 2 ^ n"
  obtains lo ca where "(let x = a + b + ucast c in (x AND mask n, ucast (drop_bit n x AND 1) :: u8)) = (lo, ca)"
    "uint a + uint b + uint c = uint lo + 2 ^ n * uint ca" "uint lo < 2 ^ n" "uint ca \<le> 1"
proof -
  define x where "x = a + b + ucast c"
  have "reps c (uint c) 1"
    using assms(2) by (rule reps_uint)
  then have c: "reps (ucast c :: u32) (uint c) 1"
    by (rule reps_ucast_up) simp
  have ab: "reps a (uint a) (2 ^ 26 - 1)" "reps b (uint b) (2 ^ 26 - 1)"
    using n assms(3,4) by (auto intro: reps_uint)
  have "reps x (uint a + uint b + uint c) (2 ^ 27)"
    unfolding x_def by (rule reps_weaken [OF reps_add [OF reps_add [OF ab] c]]) simp_all
  then have ux: "uint x = uint a + uint b + uint c"
    by (simp add: reps_def)
  have dx: "reps (drop_bit n x) (uint x div 2 ^ n) 3"
    using n assms(2-4) ux by (intro reps_eq [OF reps_drop_bit [OF reps_uint [OF order_refl]]]) auto
  have "uint (drop_bit n x AND 1) = uint x div 2 ^ n mod 2 ^ 1"
    using uint_and_mask [of "drop_bit n x" 1] dx by (simp add: reps_def)
  then have "reps (drop_bit n x AND 1) (uint x div 2 ^ n mod 2) 1"
    by (simp add: reps_def)
  then have "reps (ucast (drop_bit n x AND 1) :: u8) (uint x div 2 ^ n mod 2) 1"
    by (rule reps_ucast_up) simp
  moreover have "uint x div 2 ^ n \<le> (2 * 2 ^ n - 1) div 2 ^ n"
    using assms(2-4) ux by (intro zdiv_mono1) auto
  then have "uint x div 2 ^ n \<le> 1"
    using n by auto
  then have "uint x div 2 ^ n mod 2 = uint x div 2 ^ n"
    by (intro mod_pos_pos_trivial) (auto simp: pos_imp_zdiv_nonneg_iff)
  ultimately have ca: "uint (ucast (drop_bit n x AND 1) :: u8) = uint x div 2 ^ n" "uint x div 2 ^ n \<le> 1"
    by (simp_all add: reps_def)
  then have "uint x = uint (x AND mask n) + 2 ^ n * uint (ucast (drop_bit n x AND 1) :: u8)"
    "uint (x AND mask n) < 2 ^ n" "uint (ucast (drop_bit n x AND 1) :: u8) \<le> 1"
    unfolding uint_and_mask by simp_all
  then show thesis
    using that ux by (simp add: x_def Let_def)
qed

lemma cmovznz32_mask: "cmovznz32 (ucast t) 0 0xffffffff = (if t = 0 then 0 else - 1)" for t :: u8
proof -
  have "(ucast t :: u32) = 0 \<longleftrightarrow> t = 0"
    using reps_ucast_up [OF reps_uint [OF order_refl [of "uint t"]], where 'b = 32] unsigned_less [of t, where 'a = int]
    by (simp add: reps_def flip: uint_0_iff)
  then show ?thesis
    by (simp add: cmovznz32_def)
qed

lemma subborrow_step:
  assumes "uint c \<le> 1" "uint b < 2 ^ 26" "uint a < uint b + 2 ^ 26"
  obtains lo bo where "subborrow_u26 c a b = (lo, bo)" "uint a - uint b - uint c = uint lo - 2 ^ 26 * uint bo"
    "uint lo < 2 ^ 26" "uint bo \<le> 1"
  using borrow_step [of 26 c b a] assms by (auto simp: subborrow_u26_def Let_def)

lemma subborrow_step25:
  assumes "uint c \<le> 1" "uint b < 2 ^ 25" "uint a < uint b + 2 ^ 25"
  obtains lo bo where "subborrow_u25 c a b = (lo, bo)" "uint a - uint b - uint c = uint lo - 2 ^ 25 * uint bo"
    "uint lo < 2 ^ 25" "uint bo \<le> 1"
  using borrow_step [of 25 c b a] assms by (auto simp: subborrow_u25_def Let_def)

lemma addcarryx_step:
  assumes "uint c \<le> 1" "uint a < 2 ^ 26" "uint b < 2 ^ 26"
  obtains lo ca where "addcarryx_u26 c a b = (lo, ca)" "uint a + uint b + uint c = uint lo + 2 ^ 26 * uint ca"
    "uint lo < 2 ^ 26" "uint ca \<le> 1"
  using carry_bit_step [of 26 c b a] assms by (auto simp: addcarryx_u26_def Let_def)

lemma addcarryx_step25:
  assumes "uint c \<le> 1" "uint a < 2 ^ 25" "uint b < 2 ^ 25"
  obtains lo ca where "addcarryx_u25 c a b = (lo, ca)" "uint a + uint b + uint c = uint lo + 2 ^ 25 * uint ca"
    "uint lo < 2 ^ 25" "uint ca \<le> 1"
  using carry_bit_step [of 25 c b a] assms by (auto simp: addcarryx_u25_def Let_def)

abbreviation canonical :: "fe \<Rightarrow> bool" where
  "canonical \<equiv> limbs_within 67108863 33554431"

lemma sub_prime_correct:
  assumes "tight f"
  obtains g b where "sub_prime f = (g, b)" "canonical g" "uint b \<le> 1"
    "fe_val g = fe_val f - p25519 + 2 ^ 255 * uint b"
proof -
  obtain x2 x4 x6 x8 x10 x12 x14 x16 x18 x17 where f: "f = Fe x2 x4 x6 x8 x10 x12 x14 x16 x18 x17"
    by (cases f)
  obtain x20 x21 where s0: "subborrow_u26 0 x2 0x3ffffed = (x20, x21)"
    "uint x2 - 67108845 - uint (0 :: u8) = uint x20 - 2 ^ 26 * uint x21" "uint x20 < 2 ^ 26" "uint x21 \<le> 1"
    by (rule subborrow_step [where c = 0 and b = "0x3ffffed" and a = x2]) (use assms in \<open>simp_all add: f\<close>)
  obtain x23 x24 where s1: "subborrow_u25 x21 x4 0x1ffffff = (x23, x24)"
    "uint x4 - 33554431 - uint x21 = uint x23 - 2 ^ 25 * uint x24" "uint x23 < 2 ^ 25" "uint x24 \<le> 1"
    by (rule subborrow_step25 [where c = x21 and b = "0x1ffffff" and a = x4]) (use assms s0 in \<open>simp_all add: f\<close>)
  obtain x26 x27 where s2: "subborrow_u26 x24 x6 0x3ffffff = (x26, x27)"
    "uint x6 - 67108863 - uint x24 = uint x26 - 2 ^ 26 * uint x27" "uint x26 < 2 ^ 26" "uint x27 \<le> 1"
    by (rule subborrow_step [where c = x24 and b = "0x3ffffff" and a = x6]) (use assms s1 in \<open>simp_all add: f\<close>)
  obtain x29 x30 where s3: "subborrow_u25 x27 x8 0x1ffffff = (x29, x30)"
    "uint x8 - 33554431 - uint x27 = uint x29 - 2 ^ 25 * uint x30" "uint x29 < 2 ^ 25" "uint x30 \<le> 1"
    by (rule subborrow_step25 [where c = x27 and b = "0x1ffffff" and a = x8]) (use assms s2 in \<open>simp_all add: f\<close>)
  obtain x32 x33 where s4: "subborrow_u26 x30 x10 0x3ffffff = (x32, x33)"
    "uint x10 - 67108863 - uint x30 = uint x32 - 2 ^ 26 * uint x33" "uint x32 < 2 ^ 26" "uint x33 \<le> 1"
    by (rule subborrow_step [where c = x30 and b = "0x3ffffff" and a = x10]) (use assms s3 in \<open>simp_all add: f\<close>)
  obtain x35 x36 where s5: "subborrow_u25 x33 x12 0x1ffffff = (x35, x36)"
    "uint x12 - 33554431 - uint x33 = uint x35 - 2 ^ 25 * uint x36" "uint x35 < 2 ^ 25" "uint x36 \<le> 1"
    by (rule subborrow_step25 [where c = x33 and b = "0x1ffffff" and a = x12]) (use assms s4 in \<open>simp_all add: f\<close>)
  obtain x38 x39 where s6: "subborrow_u26 x36 x14 0x3ffffff = (x38, x39)"
    "uint x14 - 67108863 - uint x36 = uint x38 - 2 ^ 26 * uint x39" "uint x38 < 2 ^ 26" "uint x39 \<le> 1"
    by (rule subborrow_step [where c = x36 and b = "0x3ffffff" and a = x14]) (use assms s5 in \<open>simp_all add: f\<close>)
  obtain x41 x42 where s7: "subborrow_u25 x39 x16 0x1ffffff = (x41, x42)"
    "uint x16 - 33554431 - uint x39 = uint x41 - 2 ^ 25 * uint x42" "uint x41 < 2 ^ 25" "uint x42 \<le> 1"
    by (rule subborrow_step25 [where c = x39 and b = "0x1ffffff" and a = x16]) (use assms s6 in \<open>simp_all add: f\<close>)
  obtain x44 x45 where s8: "subborrow_u26 x42 x18 0x3ffffff = (x44, x45)"
    "uint x18 - 67108863 - uint x42 = uint x44 - 2 ^ 26 * uint x45" "uint x44 < 2 ^ 26" "uint x45 \<le> 1"
    by (rule subborrow_step [where c = x42 and b = "0x3ffffff" and a = x18]) (use assms s7 in \<open>simp_all add: f\<close>)
  obtain x47 x48 where s9: "subborrow_u25 x45 x17 0x1ffffff = (x47, x48)"
    "uint x17 - 33554431 - uint x45 = uint x47 - 2 ^ 25 * uint x48" "uint x47 < 2 ^ 25" "uint x48 \<le> 1"
    by (rule subborrow_step25 [where c = x45 and b = "0x1ffffff" and a = x17]) (use assms s8 in \<open>simp_all add: f\<close>)
  have "sub_prime f = (Fe x20 x23 x26 x29 x32 x35 x38 x41 x44 x47, x48)"
    by (simp add: f s0(1) s1(1) s2(1) s3(1) s4(1) s5(1) s6(1) s7(1) s8(1) s9(1))
  moreover have "fe_val (Fe x20 x23 x26 x29 x32 x35 x38 x41 x44 x47) = fe_val f - p25519 + 2 ^ 255 * uint x48"
    using s0(2) s1(2) s2(2) s3(2) s4(2) s5(2) s6(2) s7(2) s8(2) s9(2) by (simp add: f p25519_def)
  ultimately show thesis
    using that s0(3) s1(3) s2(3) s3(3) s4(3) s5(3) s6(3) s7(3) s8(3) s9(3) s9(4) by simp
qed

lemma add_masked_correct:
  assumes "canonical g" "m = 0 \<and> k = 0 \<or> m = - 1 \<and> k = 1"
  obtains c where "canonical (add_masked m g)" "0 \<le> c" "fe_val (add_masked m g) = fe_val g + k * p25519 - 2 ^ 255 * c"
proof -
  obtain x20 x23 x26 x29 x32 x35 x38 x41 x44 x47 where g: "g = Fe x20 x23 x26 x29 x32 x35 x38 x41 x44 x47"
    by (cases g)
  have m: "uint (m AND 0x3ffffed) = k * 67108845" "uint (m AND 0x3ffffff) = k * 67108863" "uint (m AND 0x1ffffff) = k * 33554431"
    "k = 0 \<or> k = 1"
    using assms(2) by auto
  obtain x52 x53 where s0: "addcarryx_u26 0 x20 (m AND 0x3ffffed) = (x52, x53)"
    "uint x20 + k * 67108845 + uint (0 :: u8) = uint x52 + 2 ^ 26 * uint x53" "uint x52 < 2 ^ 26" "uint x53 \<le> 1"
    by (rule addcarryx_step [where c = 0 and a = x20 and b = "m AND 0x3ffffed"]) (use assms(1) m in \<open>auto simp: g\<close>)
  obtain x56 x57 where s1: "addcarryx_u25 x53 x23 (m AND 0x1ffffff) = (x56, x57)"
    "uint x23 + k * 33554431 + uint x53 = uint x56 + 2 ^ 25 * uint x57" "uint x56 < 2 ^ 25" "uint x57 \<le> 1"
    by (rule addcarryx_step25 [where c = x53 and a = x23 and b = "m AND 0x1ffffff"]) (use assms(1) m s0 in \<open>auto simp: g\<close>)
  obtain x60 x61 where s2: "addcarryx_u26 x57 x26 (m AND 0x3ffffff) = (x60, x61)"
    "uint x26 + k * 67108863 + uint x57 = uint x60 + 2 ^ 26 * uint x61" "uint x60 < 2 ^ 26" "uint x61 \<le> 1"
    by (rule addcarryx_step [where c = x57 and a = x26 and b = "m AND 0x3ffffff"]) (use assms(1) m s1 in \<open>auto simp: g\<close>)
  obtain x64 x65 where s3: "addcarryx_u25 x61 x29 (m AND 0x1ffffff) = (x64, x65)"
    "uint x29 + k * 33554431 + uint x61 = uint x64 + 2 ^ 25 * uint x65" "uint x64 < 2 ^ 25" "uint x65 \<le> 1"
    by (rule addcarryx_step25 [where c = x61 and a = x29 and b = "m AND 0x1ffffff"]) (use assms(1) m s2 in \<open>auto simp: g\<close>)
  obtain x68 x69 where s4: "addcarryx_u26 x65 x32 (m AND 0x3ffffff) = (x68, x69)"
    "uint x32 + k * 67108863 + uint x65 = uint x68 + 2 ^ 26 * uint x69" "uint x68 < 2 ^ 26" "uint x69 \<le> 1"
    by (rule addcarryx_step [where c = x65 and a = x32 and b = "m AND 0x3ffffff"]) (use assms(1) m s3 in \<open>auto simp: g\<close>)
  obtain x72 x73 where s5: "addcarryx_u25 x69 x35 (m AND 0x1ffffff) = (x72, x73)"
    "uint x35 + k * 33554431 + uint x69 = uint x72 + 2 ^ 25 * uint x73" "uint x72 < 2 ^ 25" "uint x73 \<le> 1"
    by (rule addcarryx_step25 [where c = x69 and a = x35 and b = "m AND 0x1ffffff"]) (use assms(1) m s4 in \<open>auto simp: g\<close>)
  obtain x76 x77 where s6: "addcarryx_u26 x73 x38 (m AND 0x3ffffff) = (x76, x77)"
    "uint x38 + k * 67108863 + uint x73 = uint x76 + 2 ^ 26 * uint x77" "uint x76 < 2 ^ 26" "uint x77 \<le> 1"
    by (rule addcarryx_step [where c = x73 and a = x38 and b = "m AND 0x3ffffff"]) (use assms(1) m s5 in \<open>auto simp: g\<close>)
  obtain x80 x81 where s7: "addcarryx_u25 x77 x41 (m AND 0x1ffffff) = (x80, x81)"
    "uint x41 + k * 33554431 + uint x77 = uint x80 + 2 ^ 25 * uint x81" "uint x80 < 2 ^ 25" "uint x81 \<le> 1"
    by (rule addcarryx_step25 [where c = x77 and a = x41 and b = "m AND 0x1ffffff"]) (use assms(1) m s6 in \<open>auto simp: g\<close>)
  obtain x84 x85 where s8: "addcarryx_u26 x81 x44 (m AND 0x3ffffff) = (x84, x85)"
    "uint x44 + k * 67108863 + uint x81 = uint x84 + 2 ^ 26 * uint x85" "uint x84 < 2 ^ 26" "uint x85 \<le> 1"
    by (rule addcarryx_step [where c = x81 and a = x44 and b = "m AND 0x3ffffff"]) (use assms(1) m s7 in \<open>auto simp: g\<close>)
  obtain x88 x89 where s9: "addcarryx_u25 x85 x47 (m AND 0x1ffffff) = (x88, x89)"
    "uint x47 + k * 33554431 + uint x85 = uint x88 + 2 ^ 25 * uint x89" "uint x88 < 2 ^ 25" "uint x89 \<le> 1"
    by (rule addcarryx_step25 [where c = x85 and a = x47 and b = "m AND 0x1ffffff"]) (use assms(1) m s8 in \<open>auto simp: g\<close>)
  have "add_masked m g = Fe x52 x56 x60 x64 x68 x72 x76 x80 x84 x88"
    by (simp add: g s0(1) s1(1) s2(1) s3(1) s4(1) s5(1) s6(1) s7(1) s8(1) s9(1))
  moreover have "fe_val (Fe x52 x56 x60 x64 x68 x72 x76 x80 x84 x88) = fe_val g + k * p25519 - 2 ^ 255 * uint x89"
    using s0(2) s1(2) s2(2) s3(2) s4(2) s5(2) s6(2) s7(2) s8(2) s9(2) by (simp add: g p25519_def)
  ultimately show thesis
    using that [of "uint x89"] s0(3) s1(3) s2(3) s3(3) s4(3) s5(3) s6(3) s7(3) s8(3) s9(3) by simp
qed

lemma canonical_bound: "canonical f \<Longrightarrow> fe_val f < 2 ^ 255"
  by (cases f) simp

lemma fe_val_nonneg: "0 \<le> fe_val f"
  by (cases f) simp

lemma tight_bound: "tight f \<Longrightarrow> fe_val f < 2 * p25519"
  by (cases f) (simp add: p25519_def)

lemma fe_freeze_correct:
  assumes "tight f"
  shows "canonical (fe_freeze f) \<and> fe_val (fe_freeze f) = fe_val f mod p25519"
proof -
  obtain g b where g: "sub_prime f = (g, b)" "canonical g" "uint b \<le> 1" "fe_val g = fe_val f - p25519 + 2 ^ 255 * uint b"
    using sub_prime_correct [OF assms] .
  define m :: u32 where "m = (if b = 0 then 0 else - 1)"
  have b: "uint b = 0 \<or> uint b = 1"
    using g(3) unsigned_greater_eq [of b, where 'a = int] by linarith
  then have "m = 0 \<and> uint b = 0 \<or> m = - 1 \<and> uint b = 1"
    by (auto simp: m_def uint_0_iff)
  from add_masked_correct [OF g(2) this] obtain c where c: "canonical (add_masked m g)" "0 \<le> c"
    "fe_val (add_masked m g) = fe_val g + uint b * p25519 - 2 ^ 255 * c" .
  have "fe_freeze f = add_masked m g"
    by (simp add: fe_freeze_def g(1) cmovznz32_mask m_def)
  moreover have "c = uint b"
    using b c(2,3) canonical_bound [OF c(1)] canonical_bound [OF g(2)] fe_val_nonneg [of "add_masked m g"]
      fe_val_nonneg [of f] tight_bound [OF assms] g(4) by (auto simp: p25519_def)
  moreover have "fe_val f mod p25519 = fe_val f - p25519 + p25519 * uint b"
  proof (cases "uint b = 0")
    case True
    have "(fe_val f - p25519) mod p25519 = fe_val f - p25519"
      using True g(4) fe_val_nonneg [of g] tight_bound [OF assms] by (intro mod_pos_pos_trivial) auto
    then show ?thesis
      using True by simp
  next
    case False
    then have "fe_val f mod p25519 = fe_val f"
      using b g(4) canonical_bound [OF g(2)] fe_val_nonneg [of f] by (intro mod_pos_pos_trivial) auto
    then show ?thesis
      using False b by auto
  qed
  ultimately have "fe_val (fe_freeze f) = fe_val f mod p25519"
    using b c(3) g(4) by (auto simp: algebra_simps)
  with \<open>fe_freeze f = add_masked m g\<close> show ?thesis
    using c(1) by simp
qed

subsection \<open>Bytes in\<close>

lemma reps_or_push:
  fixes x y :: "'a::len word"
  assumes "reps x i A" "A < 2 ^ n" "reps y j B" "B * 2 ^ n < 2 ^ LENGTH('a)"
  shows "reps (x OR push_bit n y) (i + j * 2 ^ n) (A + B * 2 ^ n)"
proof -
  have "uint (push_bit n y) = push_bit n (uint y)"
    using reps_push_bit [OF assms(3,4)] assms(3) by (simp add: reps_def push_bit_eq_mult)
  then have "uint (x OR push_bit n y) = push_bit n (uint y) OR uint x"
    by (simp add: unsigned_or_eq or.commute)
  also have "\<dots> = uint y * 2 ^ n + uint x"
    using assms(1,2) by (intro or_push) (auto simp: reps_def)
  finally show ?thesis
    using assms(1,3) by (auto simp: reps_def intro: add_mono)
qed

lemma reps_mask:
  assumes "reps x i A"
  shows "reps (x AND mask n) (i mod 2 ^ n) (2 ^ n - 1)"
  using assms by (auto simp: reps_def uint_and_mask)

lemma words_sum:
  fixes a0 :: int
  assumes "a0 = l0 + 2 ^ 26 * u0" "a1 = l1 + 2 ^ 19 * u1" "a2 = l2 + 2 ^ 13 * u2" "a3 = l3 + 2 ^ 6 * u3"
    "a4 = l4 + 2 ^ 25 * u4" "a5 = l5 + 2 ^ 19 * u5" "a6 = l6 + 2 ^ 12 * u6" "a7 = l7 + 2 ^ 6 * c7" "c7 = m7 + 2 ^ 25 * u7"
  shows "l0 + 2 ^ 26 * (u0 + l1 * 2 ^ 6) + 2 ^ 51 * (u1 + l2 * 2 ^ 13) + 2 ^ 77 * (u2 + l3 * 2 ^ 19) + 2 ^ 102 * u3 +
      2 ^ 128 * l4 + 2 ^ 153 * (u4 + l5 * 2 ^ 7) + 2 ^ 179 * (u5 + l6 * 2 ^ 13) + 2 ^ 204 * (u6 + l7 * 2 ^ 20) + 2 ^ 230 * m7 =
    a0 + 2 ^ 32 * a1 + 2 ^ 64 * a2 + 2 ^ 96 * a3 + 2 ^ 128 * a4 + 2 ^ 160 * a5 + 2 ^ 192 * a6 + 2 ^ 224 * a7 - 2 ^ 255 * u7"
  using assms by simp

lemma uint_of_le32:
  "uint (of_le32 bs) = uint (bs ! 0) + 256 * uint (bs ! 1) + 65536 * uint (bs ! 2) + 16777216 * uint (bs ! 3)"
proof -
  have "uint (bs ! i) \<le> 255" for i
    using unsigned_less [of "bs ! i", where 'a = int] by simp
  from this [of 0] this [of 1] this [of 2] this [of 3] show ?thesis
    unfolding of_le32_def by (intro word_of_int_inverse [OF refl]) (auto simp: word_size)
qed

lemma le_val_words:
  assumes "length s = 32"
  shows "le_val s = uint (get_unaligned_le32 s 0) + 2 ^ 32 * uint (get_unaligned_le32 s 4) + 2 ^ 64 * uint (get_unaligned_le32 s 8) +
    2 ^ 96 * uint (get_unaligned_le32 s 12) + 2 ^ 128 * uint (get_unaligned_le32 s 16) + 2 ^ 160 * uint (get_unaligned_le32 s 20) +
    2 ^ 192 * uint (get_unaligned_le32 s 24) + 2 ^ 224 * uint (get_unaligned_le32 s 28)"
  using assms by (elim length_32) (simp add: get_unaligned_le32_def uint_of_le32)

lemma fe_frombytes_correct:
  assumes "length s = 32"
  shows "canonical (fe_frombytes_impl s) \<and> fe_val (fe_frombytes_impl s) = le_val s mod 2 ^ 255"
proof -
  let ?a = "\<lambda>k. get_unaligned_le32 s k"
  have a: "reps (?a k) (uint (?a k)) (2 ^ 32 - 1)" for k
    using unsigned_less [of "?a k", where 'a = int] by (simp add: reps_def)
  have m: "reps (?a k AND mask n) (uint (?a k) mod 2 ^ n) (2 ^ n - 1)" for k n
    by (rule reps_mask [OF a])
  have d: "reps (drop_bit n (?a k)) (uint (?a k) div 2 ^ n) ((2 ^ 32 - 1) div 2 ^ n)" for k n
    by (rule reps_drop_bit [OF a])
  have h: "reps (drop_bit 26 (?a 0) OR push_bit 6 (?a 4 AND mask 19)) (uint (?a 0) div 2 ^ 26 + uint (?a 4) mod 2 ^ 19 * 2 ^ 6) 33554431"
    "reps (drop_bit 19 (?a 4) OR push_bit 13 (?a 8 AND mask 13)) (uint (?a 4) div 2 ^ 19 + uint (?a 8) mod 2 ^ 13 * 2 ^ 13) 67108863"
    "reps (drop_bit 13 (?a 8) OR push_bit 19 (?a 12 AND mask 6)) (uint (?a 8) div 2 ^ 13 + uint (?a 12) mod 2 ^ 6 * 2 ^ 19) 33554431"
    "reps (drop_bit 25 (?a 16) OR push_bit 7 (?a 20 AND mask 19)) (uint (?a 16) div 2 ^ 25 + uint (?a 20) mod 2 ^ 19 * 2 ^ 7) 67108863"
    "reps (drop_bit 19 (?a 20) OR push_bit 13 (?a 24 AND mask 12)) (uint (?a 20) div 2 ^ 19 + uint (?a 24) mod 2 ^ 12 * 2 ^ 13) 33554431"
    "reps (drop_bit 12 (?a 24) OR push_bit 20 (?a 28 AND mask 6)) (uint (?a 24) div 2 ^ 12 + uint (?a 28) mod 2 ^ 6 * 2 ^ 20) 67108863"
    by (rule reps_weaken [OF reps_or_push [OF d _ m]]; simp)+
  have g: "reps (?a 0 AND mask 26) (uint (?a 0) mod 2 ^ 26) 67108863" "reps (drop_bit 6 (?a 12)) (uint (?a 12) div 2 ^ 6) 67108863"
    "reps (?a 16 AND mask 25) (uint (?a 16) mod 2 ^ 25) 33554431"
    "reps (drop_bit 6 (?a 28) AND mask 25) (uint (?a 28) div 2 ^ 6 mod 2 ^ 25) 33554431"
    using m [of 0 26] d [of 6 12] m [of 16 25] reps_mask [OF d [of 6 28], of 25] by simp_all
  have c: "canonical (fe_frombytes_impl s)"
    using h g by (simp add: fe_frombytes_impl_def Let_def reps_def)
  have "fe_val (fe_frombytes_impl s) = le_val s - 2 ^ 255 * (uint (?a 28) div 2 ^ 6 div 2 ^ 25)"
    unfolding le_val_words [OF assms] fe_frombytes_impl_def Let_def fe_val.simps h [unfolded reps_def, THEN conjunct1] g [unfolded reps_def, THEN conjunct1]
    by (rule words_sum) simp_all
  then have "fe_val (fe_frombytes_impl s) mod 2 ^ 255 = le_val s mod 2 ^ 255"
    by (metis mod_diff_right_eq mod_mult_self1_is_0 diff_zero)
  moreover have "fe_val (fe_frombytes_impl s) mod 2 ^ 255 = fe_val (fe_frombytes_impl s)"
    using canonical_bound [OF c] fe_val_nonneg by (intro mod_pos_pos_trivial)
  ultimately show ?thesis
    using c by simp
qed

subsection \<open>Bytes out\<close>

lemma byte_of:
  fixes h :: u32
  shows "uint (ucast (drop_bit a h) :: u8) = uint h div 2 ^ a mod 2 ^ 8"
proof -
  have "uint (drop_bit a h) = uint h div 2 ^ a"
    using reps_drop_bit [OF reps_uint [OF order_refl [of "uint h"]], of a] by (simp only: reps_def)
  then have "uint (ucast (drop_bit a h) :: u8) = take_bit 8 (uint h div 2 ^ a)"
    by (simp only: unsigned_ucast_eq) simp
  then show ?thesis
    by (simp only: take_bit_eq_mod)
qed

lemma div_power_less:
  fixes v :: int
  assumes "v < 2 ^ (a + n)"
  shows "v div 2 ^ a < 2 ^ n"
proof (rule ccontr)
  assume "\<not> v div 2 ^ a < 2 ^ n"
  then have "2 ^ a * 2 ^ n \<le> 2 ^ a * (v div 2 ^ a)"
    by simp
  also have "\<dots> \<le> v"
  proof -
    have "0 \<le> v mod 2 ^ a"
      by simp
    then show ?thesis
      using mult_div_mod_eq [of "2 ^ a" v] by linarith
  qed
  finally show False
    using assms by (simp add: power_add)
qed

lemma top_byte:
  fixes h :: u32
  assumes "uint h < 2 ^ (a + 8)"
  shows "uint (ucast (drop_bit a h) :: u8) = uint h div 2 ^ a"
proof -
  have "uint h div 2 ^ a < 2 ^ 8"
    using assms by (rule div_power_less)
  then show ?thesis
    unfolding byte_of by (intro mod_pos_pos_trivial) (simp_all add: pos_imp_zdiv_nonneg_iff)
qed

lemma join_byte:
  fixes h h' :: u32
  assumes "uint h < 2 ^ (a + n)" "n + k = 8" "uint h' * 2 ^ n < 2 ^ 32"
  shows "uint (ucast (drop_bit a h OR push_bit n h') :: u8) = uint h div 2 ^ a + 2 ^ n * (uint h' mod 2 ^ k)"
proof -
  note hi = div_power_less [OF assms(1)]
  have "reps (drop_bit a h) (uint h div 2 ^ a) (uint h div 2 ^ a)"
    by (rule reps_drop_bit) (simp add: reps_def)
  from reps_or_push [OF this hi reps_uint [OF order_refl]] assms(3)
  have u: "uint (drop_bit a h OR push_bit n h') = uint h div 2 ^ a + uint h' * 2 ^ n"
    by (simp add: reps_def)
  have p: "(2 :: int) ^ 8 = 2 ^ n * 2 ^ k"
    using assms(2) by (simp only: power_add [symmetric])
  define j where "j = uint h'"
  have "j * 2 ^ n = 2 ^ n * (2 ^ k * (j div 2 ^ k) + j mod 2 ^ k)"
    by simp
  then have "uint h div 2 ^ a + j * 2 ^ n = uint h div 2 ^ a + 2 ^ n * (j mod 2 ^ k) + 2 ^ 8 * (j div 2 ^ k)"
    by (simp only: p distrib_left mult.assoc)
  moreover have "uint h div 2 ^ a + 2 ^ n * (j mod 2 ^ k) < 2 ^ 8"
  proof -
    have "j mod 2 ^ k \<le> 2 ^ k - 1"
      by simp
    then have "2 ^ n * (j mod 2 ^ k) \<le> 2 ^ n * (2 ^ k - 1)"
      by simp
    then show ?thesis
      using hi unfolding p by (simp add: right_diff_distrib)
  qed
  moreover have "0 \<le> uint h div 2 ^ a + 2 ^ n * (j mod 2 ^ k)"
    by (simp add: pos_imp_zdiv_nonneg_iff)
  ultimately have "(uint h div 2 ^ a + j * 2 ^ n) mod 2 ^ 8 = uint h div 2 ^ a + 2 ^ n * (j mod 2 ^ k)"
    by (simp only: mod_mult_self2 mod_pos_pos_trivial)
  moreover have "uint (ucast w :: u8) = uint w mod 2 ^ 8" for w :: u32
  proof -
    have "uint (ucast w :: u8) = take_bit 8 (uint w)"
      by (simp only: unsigned_ucast_eq) simp
    then show ?thesis
      by (simp only: take_bit_eq_mod)
  qed
  ultimately show ?thesis
    by (simp only: u j_def)
qed

lemma limb_split:
  fixes v :: int
  shows "v = v mod 2 ^ n + 2 ^ n * (v div 2 ^ n mod 2 ^ 8) + 2 ^ (n + 8) * (v div 2 ^ (n + 8) mod 2 ^ 8) +
    2 ^ (n + 16) * (v div 2 ^ (n + 16))"
proof -
  have "v div 2 ^ (n + 8) = v div 2 ^ n div 2 ^ 8" "v div 2 ^ (n + 16) = v div 2 ^ (n + 8) div 2 ^ 8"
    using zdiv_zmult2_eq [of "2 ^ 8" v "2 ^ n"] zdiv_zmult2_eq [of "2 ^ 8" v "2 ^ (n + 8)"] by (simp_all add: power_add ac_simps)
  moreover have "r + P * a + P * 2 ^ 8 * b + P * 2 ^ 16 * t = r + P * (a + 2 ^ 8 * (b + 2 ^ 8 * t))" for r P a b t :: int
    by (simp add: algebra_simps)
  ultimately show ?thesis
    by (simp only: power_add mod_mult_div_eq)
qed

lemma mod_div_split8:
  fixes v :: int
  shows "v = v mod 2 ^ 8 + 2 ^ 8 * (v div 2 ^ 8 mod 2 ^ 8) + 2 ^ 16 * (v div 2 ^ 16 mod 2 ^ 8) + 2 ^ 24 * (v div 2 ^ 24)"
  using limb_split [of v 8] by simp

lemma num_adds:
  "6 + 8 = (14 :: nat)" "6 + 16 = (22 :: nat)" "5 + 8 = (13 :: nat)" "5 + 16 = (21 :: nat)" "3 + 8 = (11 :: nat)"
  "3 + 16 = (19 :: nat)" "2 + 8 = (10 :: nat)" "2 + 16 = (18 :: nat)" "7 + 8 = (15 :: nat)" "7 + 16 = (23 :: nat)"
  "4 + 8 = (12 :: nat)" "4 + 16 = (20 :: nat)"
  by simp_all

lemma bytes_sum:
  fixes v0 :: int
  assumes "v0 = m0 + 2 ^ 8 * a0 + 2 ^ 16 * b0 + 2 ^ 24 * t0" "v1 = m1 + 2 ^ 6 * a1 + 2 ^ 14 * b1 + 2 ^ 22 * t1"
    "v2 = m2 + 2 ^ 5 * a2 + 2 ^ 13 * b2 + 2 ^ 21 * t2" "v3 = m3 + 2 ^ 3 * a3 + 2 ^ 11 * b3 + 2 ^ 19 * t3"
    "v4 = m4 + 2 ^ 2 * a4 + 2 ^ 10 * b4 + 2 ^ 18 * t4" "v5 = m5 + 2 ^ 8 * a5 + 2 ^ 16 * b5 + 2 ^ 24 * t5"
    "v6 = m6 + 2 ^ 7 * a6 + 2 ^ 15 * b6 + 2 ^ 23 * t6" "v7 = m7 + 2 ^ 5 * a7 + 2 ^ 13 * b7 + 2 ^ 21 * t7"
    "v8 = m8 + 2 ^ 4 * a8 + 2 ^ 12 * b8 + 2 ^ 20 * t8" "v9 = m9 + 2 ^ 2 * a9 + 2 ^ 10 * b9 + 2 ^ 18 * t9"
  shows "m0 + 256 * (a0 + 256 * (b0 + 256 * (t0 + 2 ^ 2 * m1 + 256 * (a1 + 256 * (b1 + 256 * (t1 + 2 ^ 3 * m2 + 256 *
      (a2 + 256 * (b2 + 256 * (t2 + 2 ^ 5 * m3 + 256 * (a3 + 256 * (b3 + 256 * (t3 + 2 ^ 6 * m4 + 256 * (a4 + 256 * (b4 + 256 *
      (t4 + 256 * (m5 + 256 * (a5 + 256 * (b5 + 256 * (t5 + 2 ^ 1 * m6 + 256 * (a6 + 256 * (b6 + 256 * (t6 + 2 ^ 3 * m7 + 256 *
      (a7 + 256 * (b7 + 256 * (t7 + 2 ^ 4 * m8 + 256 * (a8 + 256 * (b8 + 256 * (t8 + 2 ^ 6 * m9 + 256 * (a9 + 256 * (b9 + 256 * t9
      )))))))))))))))))))))))))))))) =
    v0 + 2 ^ 26 * v1 + 2 ^ 51 * v2 + 2 ^ 77 * v3 + 2 ^ 102 * v4 + 2 ^ 128 * v5 + 2 ^ 153 * v6 + 2 ^ 179 * v7 +
      2 ^ 204 * v8 + 2 ^ 230 * v9"
  using assms by simp

lemma fe_tobytes_correct:
  assumes "tight f"
  shows "fe_tobytes f = le_bytes 32 (fe_val f mod p25519)"
proof -
  obtain h0 h1 h2 h3 h4 h5 h6 h7 h8 h9 where h: "fe_freeze f = Fe h0 h1 h2 h3 h4 h5 h6 h7 h8 h9"
    by (cases "fe_freeze f")
  have c: "canonical (Fe h0 h1 h2 h3 h4 h5 h6 h7 h8 h9)" "fe_val (Fe h0 h1 h2 h3 h4 h5 h6 h7 h8 h9) = fe_val f mod p25519"
    using fe_freeze_correct [OF assms] by (simp_all add: h)
  have j: "uint (ucast (drop_bit 24 h0 OR push_bit 2 h1) :: u8) = uint h0 div 2 ^ 24 + 2 ^ 2 * (uint h1 mod 2 ^ 6)"
    "uint (ucast (drop_bit 22 h1 OR push_bit 3 h2) :: u8) = uint h1 div 2 ^ 22 + 2 ^ 3 * (uint h2 mod 2 ^ 5)"
    "uint (ucast (drop_bit 21 h2 OR push_bit 5 h3) :: u8) = uint h2 div 2 ^ 21 + 2 ^ 5 * (uint h3 mod 2 ^ 3)"
    "uint (ucast (drop_bit 19 h3 OR push_bit 6 h4) :: u8) = uint h3 div 2 ^ 19 + 2 ^ 6 * (uint h4 mod 2 ^ 2)"
    "uint (ucast (drop_bit 24 h5 OR push_bit 1 h6) :: u8) = uint h5 div 2 ^ 24 + 2 ^ 1 * (uint h6 mod 2 ^ 7)"
    "uint (ucast (drop_bit 23 h6 OR push_bit 3 h7) :: u8) = uint h6 div 2 ^ 23 + 2 ^ 3 * (uint h7 mod 2 ^ 5)"
    "uint (ucast (drop_bit 21 h7 OR push_bit 4 h8) :: u8) = uint h7 div 2 ^ 21 + 2 ^ 4 * (uint h8 mod 2 ^ 4)"
    "uint (ucast (drop_bit 20 h8 OR push_bit 6 h9) :: u8) = uint h8 div 2 ^ 20 + 2 ^ 6 * (uint h9 mod 2 ^ 2)"
    by (rule join_byte; use c(1) in simp)+
  have t: "uint (ucast (drop_bit 18 h4) :: u8) = uint h4 div 2 ^ 18" "uint (ucast (drop_bit 18 h9) :: u8) = uint h9 div 2 ^ 18"
    by (rule top_byte; use c(1) in simp)+
  note first = mod_div_split8 [of "uint h0"] mod_div_split8 [of "uint h5"]
  have "le_val (fe_tobytes f) = fe_val (Fe h0 h1 h2 h3 h4 h5 h6 h7 h8 h9)"
    unfolding fe_tobytes_def h fe.case le_val.simps fe_val.simps j t
    unfolding byte_of mult_zero_right add_0_right power_0 div_by_1
    by (rule bytes_sum [OF first(1) limb_split [of "uint h1" 6, unfolded num_adds] limb_split [of "uint h2" 5, unfolded num_adds]
        limb_split [of "uint h3" 3, unfolded num_adds] limb_split [of "uint h4" 2, unfolded num_adds] first(2)
        limb_split [of "uint h6" 7, unfolded num_adds] limb_split [of "uint h7" 5, unfolded num_adds]
        limb_split [of "uint h8" 4, unfolded num_adds] limb_split [of "uint h9" 2, unfolded num_adds]])
  then have "le_val (fe_tobytes f) = fe_val f mod p25519"
    by (simp only: c(2))
  moreover have "length (fe_tobytes f) = 32"
    by (simp add: fe_tobytes_def h)
  ultimately show ?thesis
    using le_bytes_val [of "fe_tobytes f"] by simp
qed

end
