(* ===== verification/Wg_Curve.thy ===== *)
theory Wg_Curve
  imports Wg_Pack
begin

text \<open>
  The function of Curve25519 (\<^verbatim>\<open>curve25519_generic\<close> of \<^verbatim>\<open>wireguard-tools/src/curve25519-fiat32.h\<close>, with
  \<^verbatim>\<open>curve25519.c\<close> and \<^verbatim>\<open>curve25519.h\<close>). The function is X25519 as RFC 7748 states it. Parameters of
  array type are copied on entry and the result is written last, so that aliasing the output with an input
  (as \<^verbatim>\<open>pubkey.c\<close> does) makes no difference; the wiping of the temporaries is left out.
\<close>

subsection \<open>Model\<close>

definition CURVE25519_KEY_SIZE :: nat where
  "CURVE25519_KEY_SIZE = 32"

definition curve25519_clamp_secret :: "u8 list \<Rightarrow> u8 list" where
  "curve25519_clamp_secret secret =
     (let s = secret[0 := secret ! 0 AND 248]
      in s[31 := (s ! 31 AND 127) OR 64])"

definition fe_0 :: fe where
  "fe_0 = Fe 0 0 0 0 0 0 0 0 0 0"

definition fe_1 :: fe where
  "fe_1 = Fe 1 0 0 0 0 0 0 0 0 0"

record ladder =
  lx2 :: fe
  lz2 :: fe
  lx3 :: fe
  lz3 :: fe
  lswap :: u32

text \<open>One turn of the loop, for the bit at \<open>pos\<close>; the two exchanges, then the differential addition.\<close>

definition ladder_swap :: "u32 \<Rightarrow> ladder \<Rightarrow> ladder" where
  "ladder_swap swap st =
     (let (x2, x3) = fe_cswap (lx2 st) (lx3 st) swap;
          (z2, z3) = fe_cswap (lz2 st) (lz3 st) swap
      in st\<lparr>lx2 := x2, lx3 := x3, lz2 := z2, lz3 := z3\<rparr>)"

definition ladder_add :: "fe \<Rightarrow> ladder \<Rightarrow> ladder" where
  "ladder_add x1 st =
     (let
        tmp0l = fe_sub_impl (lx3 st) (lz3 st);
        tmp1l = fe_sub_impl (lx2 st) (lz2 st);
        x2l = fe_add_impl (lx2 st) (lz2 st);
        z2l = fe_add_impl (lx3 st) (lz3 st);
        z3 = fe_mul_impl tmp0l x2l;
        z2 = fe_mul_impl z2l tmp1l;
        tmp0 = fe_sqr_impl tmp1l;
        tmp1 = fe_sqr_impl x2l;
        x3l = fe_add_impl z3 z2;
        z2l = fe_sub_impl z3 z2;
        x2 = fe_mul_impl tmp1 tmp0;
        tmp1l = fe_sub_impl tmp1 tmp0;
        z2 = fe_sqr_impl z2l;
        z3 = fe_mul_121666_impl tmp1l;
        x3 = fe_sqr_impl x3l;
        tmp0l = fe_add_impl tmp0 z3;
        z3 = fe_mul_impl x1 z2;
        z2 = fe_mul_impl tmp1l tmp0l
      in st\<lparr>lx2 := x2, lz2 := z2, lx3 := x3, lz3 := z3\<rparr>)"

definition ladder_turn :: "fe \<Rightarrow> u8 list \<Rightarrow> nat \<Rightarrow> ladder \<Rightarrow> ladder" where
  "ladder_turn x1 e pos st =
     (let b = 1 AND ucast (drop_bit (pos mod 8) (e ! (pos div 8)));
          st1 = ladder_swap (lswap st XOR b) st
      in ladder_add x1 (st1\<lparr>lswap := b\<rparr>))"

text \<open>The loop down to position zero; the number is one more than the position.\<close>

fun ladder_loop :: "fe \<Rightarrow> u8 list \<Rightarrow> nat \<Rightarrow> ladder \<Rightarrow> ladder" where
  "ladder_loop x1 e 0 st = st"
| "ladder_loop x1 e (Suc pos) st = ladder_loop x1 e pos (ladder_turn x1 e pos st)"

definition curve25519_generic :: "u8 list \<Rightarrow> u8 list \<Rightarrow> u8 list" where
  "curve25519_generic scalar point =
     (let
        e = curve25519_clamp_secret scalar;
        x1 = fe_frombytes_impl point;
        st = ladder_loop x1 e 255 \<lparr>lx2 = fe_1, lz2 = fe_0, lx3 = x1, lz3 = fe_1, lswap = 0\<rparr>;
        st = ladder_swap (lswap st) st;
        z2 = fe_loose_invert (lz2 st)
      in fe_tobytes (fe_mul_impl (lx2 st) z2))"

definition curve25519 :: "u8 list \<Rightarrow> u8 list \<Rightarrow> u8 list" where
  "curve25519 secret basepoint = curve25519_generic secret basepoint"

definition curve25519_generate_public :: "u8 list \<Rightarrow> u8 list" where
  "curve25519_generate_public secret = curve25519 secret (9 # replicate (CURVE25519_KEY_SIZE - 1) 0)"

subsection \<open>X25519\<close>

text \<open>
  RFC 7748, section 5: arithmetic modulo the prime, the ladder over the bits of the scalar from 254 down,
  and the decoding of scalars (three low bits cleared, bit 254 set, bit 255 cleared) and of coordinates (bit
  255 ignored).
\<close>

definition fadd :: "int \<Rightarrow> int \<Rightarrow> int" where
  "fadd a b = (a + b) mod p25519"

definition fsub :: "int \<Rightarrow> int \<Rightarrow> int" where
  "fsub a b = (a - b) mod p25519"

definition fmul :: "int \<Rightarrow> int \<Rightarrow> int" where
  "fmul a b = a * b mod p25519"

definition cswap_ref :: "bool \<Rightarrow> 'a \<times> 'a \<Rightarrow> 'a \<times> 'a" where
  "cswap_ref b xy = (if b then (snd xy, fst xy) else xy)"

definition x25519_step :: "int \<Rightarrow> (int \<times> int) \<times> int \<times> int \<Rightarrow> (int \<times> int) \<times> int \<times> int" where
  "x25519_step x1 st =
     (let ((x2, z2), x3, z3) = st;
          A = fadd x2 z2; AA = fmul A A; B = fsub x2 z2; BB = fmul B B; E = fsub AA BB;
          C = fadd x3 z3; D = fsub x3 z3; DA = fmul D A; CB = fmul C B
      in ((fmul AA BB, fmul E (fadd AA (fmul 121665 E))),
          fmul (fadd DA CB) (fadd DA CB), fmul x1 (fmul (fsub DA CB) (fsub DA CB))))"

fun x25519_loop :: "int \<Rightarrow> int \<Rightarrow> nat \<Rightarrow> bool \<times> (int \<times> int) \<times> int \<times> int \<Rightarrow> bool \<times> (int \<times> int) \<times> int \<times> int" where
  "x25519_loop k x1 0 st = st"
| "x25519_loop k x1 (Suc t) (swap, st) =
     (let kt = bit k t in x25519_loop k x1 t (kt, x25519_step x1 (cswap_ref (swap \<noteq> kt) st)))"

definition x25519 :: "int \<Rightarrow> int \<Rightarrow> int" where
  "x25519 k u =
     (let (swap, st) = x25519_loop k u 255 (False, (1, 0), u, 1);
          (x2, z2) = fst (cswap_ref swap st)
      in fmul x2 (z2 ^ (2 ^ 255 - 21)))"

definition decode_scalar :: "u8 list \<Rightarrow> int" where
  "decode_scalar s = 2 ^ 254 + 8 * (le_val s mod 2 ^ 254 div 8)"

definition decode_u :: "u8 list \<Rightarrow> int" where
  "decode_u s = le_val s mod 2 ^ 255"

subsection \<open>The ladder\<close>

lemma stands_mod_iff: "stands f (v mod p25519) \<longleftrightarrow> stands f v" "stands_loose f (v mod p25519) \<longleftrightarrow> stands_loose f v"
  by (simp_all add: stands_def stands_loose_def)

lemma stands_ops:
  "stands_loose f v \<Longrightarrow> stands_loose g w \<Longrightarrow> stands (fe_mul_impl f g) (fmul v w)"
  "stands_loose f v \<Longrightarrow> stands (fe_sqr_impl f) (fmul v v)"
  "stands f v \<Longrightarrow> stands g w \<Longrightarrow> stands_loose (fe_add_impl f g) (fadd v w)"
  "stands f v \<Longrightarrow> stands g w \<Longrightarrow> stands_loose (fe_sub_impl f g) (fsub v w)"
  "stands_loose f v \<Longrightarrow> stands (fe_mul_121666_impl f) (fmul v 121666)"
  using stands_sqr [of f v]
  by (simp_all add: fmul_def fadd_def fsub_def stands_mod_iff stands_mul stands_add stands_sub stands_121666 power2_eq_square)

text \<open>The ladder of the code stands for one of the reference.\<close>

definition ladder_stands :: "ladder \<Rightarrow> (int \<times> int) \<times> int \<times> int \<Rightarrow> bool" where
  "ladder_stands st v \<longleftrightarrow> stands (lx2 st) (fst (fst v)) \<and> stands (lz2 st) (snd (fst v)) \<and>
     stands (lx3 st) (fst (snd v)) \<and> stands (lz3 st) (snd (snd v))"

lemma ladder_swap_stands:
  "ladder_stands st v \<Longrightarrow> ladder_stands (ladder_swap (of_bool b) st) (cswap_ref b v)"
  by (cases b) (simp_all add: ladder_stands_def ladder_swap_def cswap_ref_def fe_cswap_correct)

lemma ladder_swap_swap: "lswap (ladder_swap b st) = lswap st"
  by (simp add: ladder_swap_def split: prod.split)

text \<open>The code multiplies by 121666 and adds the other square, which comes to the same.\<close>

lemma a24_forms: "fadd AA (fmul 121665 (fsub AA BB)) = fadd BB (fmul (fsub AA BB) 121666)"
proof -
  have "AA + 121665 * (AA - BB) = BB + (AA - BB) * 121666"
    by (simp add: algebra_simps)
  then show ?thesis
    by (simp add: fadd_def fmul_def fsub_def mod_simps mult.commute)
qed

lemma ladder_add_stands:
  assumes "stands x1 u" "ladder_stands st v"
  shows "ladder_stands (ladder_add x1 st) (x25519_step u v)"
proof -
  obtain x2 z2 x3 z3 where v: "v = ((x2, z2), x3, z3)"
    by (cases v; cases "fst v"; cases "snd v") auto
  have s: "stands (lx2 st) x2" "stands (lz2 st) z2" "stands (lx3 st) x3" "stands (lz3 st) z3"
    using assms(2) by (simp_all add: ladder_stands_def v)
  show ?thesis
    unfolding ladder_stands_def ladder_add_def x25519_step_def v Let_def prod.case a24_forms
      ladder.simps fst_conv snd_conv
    by (simp, intro conjI; (rule stands_ops s assms(1) stands_loose)+)
qed

subsection \<open>The scalar\<close>

lemma le_val_bit: "i < length bs \<Longrightarrow> j < 8 \<Longrightarrow> bit (le_val bs) (8 * i + j) \<longleftrightarrow> bit (bs ! i) j"
proof (induction bs arbitrary: i)
  case (Cons b bs)
  have v: "le_val (b # bs) = push_bit 8 (le_val bs) OR uint b"
    using or_push [of "uint b" 8 "le_val bs"] unsigned_less [of b, where 'a = int] by simp
  have high: "\<not> bit (uint b) n" if "8 \<le> n" for n
    using that bit_imp_le_length [of b n] by (auto simp: bit_uint_iff)
  show ?case
  proof (cases i)
    case 0
    then show ?thesis
      using Cons.prems unfolding v by (simp add: bit_or_iff bit_push_bit_iff bit_uint_iff)
  next
    case (Suc i')
    then show ?thesis
      using Cons.prems Cons.IH [of i'] high [of "8 * i + j"] unfolding v by (simp add: bit_or_iff bit_push_bit_iff)
  qed
qed simp

lemma scalar_bit:
  assumes "length e = 32" "pos < 256"
  shows "(1 AND ucast (drop_bit (pos mod 8) (e ! (pos div 8))) :: u32) = of_bool (bit (le_val e) pos)"
proof -
  have "bit (le_val e) pos = bit (e ! (pos div 8)) (pos mod 8)"
    using le_val_bit [of "pos div 8" e "pos mod 8"] assms by simp
  moreover have "(1 AND ucast (drop_bit (pos mod 8) (e ! (pos div 8))) :: u32) = of_bool (bit (e ! (pos div 8)) (pos mod 8))"
    by (rule bit_word_eqI) (auto simp: bit_simps)
  ultimately show ?thesis
    by simp
qed

lemma ladder_turn_stands:
  assumes "stands x1 u" "length e = 32" "pos < 256" "ladder_stands st v" "lswap st = of_bool swap"
  defines "kt \<equiv> bit (le_val e) pos"
  shows "ladder_stands (ladder_turn x1 e pos st) (x25519_step u (cswap_ref (swap \<noteq> kt) v))"
    "lswap (ladder_turn x1 e pos st) = of_bool kt"
proof -
  have x: "(of_bool swap XOR of_bool kt :: u32) = of_bool (swap \<noteq> kt)"
    by (cases swap; cases kt) simp_all
  have "ladder_stands (ladder_swap (of_bool (swap \<noteq> kt)) st) (cswap_ref (swap \<noteq> kt) v)"
    by (rule ladder_swap_stands [OF assms(4)])
  then have "ladder_stands ((ladder_swap (of_bool (swap \<noteq> kt)) st)\<lparr>lswap := of_bool kt\<rparr>) (cswap_ref (swap \<noteq> kt) v)"
    by (simp add: ladder_stands_def)
  from ladder_add_stands [OF assms(1) this]
  show "ladder_stands (ladder_turn x1 e pos st) (x25519_step u (cswap_ref (swap \<noteq> kt) v))"
    by (simp add: ladder_turn_def scalar_bit [OF assms(2,3)] assms(5) x flip: kt_def)
  show "lswap (ladder_turn x1 e pos st) = of_bool kt"
    by (simp add: ladder_turn_def ladder_add_def scalar_bit [OF assms(2,3)] Let_def kt_def)
qed

lemma ladder_loop_stands:
  assumes "stands x1 u" "length e = 32"
  shows "n \<le> 256 \<Longrightarrow> ladder_stands st v \<Longrightarrow> lswap st = of_bool swap \<Longrightarrow>
    ladder_stands (ladder_loop x1 e n st) (snd (x25519_loop (le_val e) u n (swap, v))) \<and>
    lswap (ladder_loop x1 e n st) = of_bool (fst (x25519_loop (le_val e) u n (swap, v)))"
proof (induction n arbitrary: st v swap)
  case (Suc n)
  then show ?case
    using ladder_turn_stands [OF assms, of n st v swap] by (simp add: Let_def)
qed simp

lemma le_val_append: "le_val (xs @ ys) = le_val xs + 256 ^ length xs * le_val ys"
  by (induction xs) (simp_all add: algebra_simps)

lemma and_high_bits:
  fixes a :: "'a::len word"
  assumes "n + m = LENGTH('a)"
  shows "a AND push_bit n (mask m) = push_bit n (drop_bit n a)"
  using assms by (intro bit_word_eqI) (auto simp: bit_simps)

lemma and_mask_or_bit:
  fixes z :: "'a::len word"
  shows "(z AND mask (Suc n)) OR push_bit n 1 = (z AND mask n) OR push_bit n 1"
  by (intro bit_word_eqI) (auto simp: bit_simps less_Suc_eq)

lemma clamp_low: "uint (a AND 248) = 8 * (uint a div 8)" for a :: u8
proof -
  have "(248 :: u8) = push_bit 3 (mask 5)"
    by (simp add: mask_eq_exp_minus_1)
  then have "uint (a AND 248) = uint (push_bit 3 (drop_bit 3 a))"
    using and_high_bits [where 'a = 8 and n = 3 and m = 5 and a = a] by simp
  moreover have "reps (push_bit 3 (drop_bit 3 a)) (uint a div 2 ^ 3 * 2 ^ 3) (255 div 2 ^ 3 * 2 ^ 3)"
    using unsigned_less [of a, where 'a = int] by (intro reps_push_bit reps_drop_bit reps_uint) simp_all
  ultimately show ?thesis
    by (simp add: reps_def)
qed

lemma clamp_high: "uint ((z AND 127) OR 64) = 64 + uint z mod 64" for z :: u8
proof -
  have "(127 :: u8) = mask (Suc 6)" "(64 :: u8) = push_bit 6 1"
    by (simp_all add: mask_eq_exp_minus_1)
  then have "uint ((z AND 127) OR 64) = uint ((z AND mask 6) OR push_bit 6 1)"
    by (simp only: and_mask_or_bit)
  moreover have "reps ((z AND mask 6) OR push_bit 6 1) (uint z mod 2 ^ 6 + 1 * 2 ^ 6) (2 ^ 6 - 1 + 1 * 2 ^ 6)"
    by (intro reps_or_push reps_mask [OF reps_uint [OF order_refl]]) (simp_all add: reps_def)
  ultimately show ?thesis
    by (simp add: reps_def)
qed

lemma clamp_sum:
  fixes a :: int
  assumes "0 \<le> a" "a < 256" "0 \<le> M" "M < 2 ^ 240" "0 \<le> z"
  shows "(a + 256 * (M + 2 ^ 240 * z)) mod 2 ^ 254 div 8 = a div 8 + 32 * M + 2 ^ 245 * (z mod 64)"
proof -
  define q r where "q = z div 64" and "r = z mod 64"
  have z: "z = 64 * q + r" and r: "0 \<le> r" "r \<le> 63"
    by (simp_all add: q_def r_def)
  have "a + 256 * (M + 2 ^ 240 * z) = a + 256 * M + 2 ^ 248 * r + 2 ^ 254 * q"
    by (simp add: z)
  then have "(a + 256 * (M + 2 ^ 240 * z)) mod 2 ^ 254 = (a + 256 * M + 2 ^ 248 * r) mod 2 ^ 254"
    by (simp only: mod_mult_self2)
  also have "\<dots> = a + 256 * M + 2 ^ 248 * r"
    using assms r by (intro mod_pos_pos_trivial) simp_all
  also have "\<dots> = a + 8 * (32 * M + 2 ^ 245 * r)"
    by simp
  finally show ?thesis
    by (simp add: r_def)
qed

lemma clamp_value:
  assumes "length s = 32"
  shows "length (curve25519_clamp_secret s) = 32 \<and> le_val (curve25519_clamp_secret s) = decode_scalar s"
proof -
  define a m z where "a = hd s" and "m = butlast (tl s)" and "z = last s"
  have "s \<noteq> []" "tl s \<noteq> []"
    using assms by (cases s; cases "tl s"; simp)+
  then have s: "s = a # m @ [z]" "length m = 30"
    using assms append_butlast_last_id [of "tl s"] by (simp_all add: a_def m_def z_def last_tl)
  have "curve25519_clamp_secret s = (a AND 248) # m @ [(z AND 127) OR 64]"
    using s(2) by (simp add: curve25519_clamp_secret_def s(1) nth_append list_update_append)
  moreover have "(256 :: int) ^ 30 = 2 ^ 240"
    by simp
  note v = le_val_append [of m "[x]" for x, unfolded s(2) this]
  have "le_val m < 2 ^ 240" "0 \<le> le_val m"
    using le_val_bounds [of m] s(2) by simp_all
  then have "le_val s mod 2 ^ 254 div 8 = uint a div 8 + 32 * le_val m + 2 ^ 245 * (uint z mod 64)"
    using clamp_sum [of "uint a" "le_val m" "uint z"] unsigned_less [of a, where 'a = int] by (simp add: s(1) v)
  then have "decode_scalar s = 8 * (uint a div 8) + 256 * (le_val m + 2 ^ 240 * (64 + uint z mod 64))"
    by (simp add: decode_scalar_def)
  ultimately show ?thesis
    using s(2) by (simp add: v clamp_low clamp_high)
qed

subsection \<open>The function\<close>

lemma le_val_zeros: "le_val (replicate n 0) = 0"
  by (induction n) simp_all

lemma stands_const: "stands fe_0 0" "stands fe_1 1"
  by (simp_all add: stands_def fe_0_def fe_1_def)

lemma canonical_tight: "canonical f \<Longrightarrow> tight f"
  by (erule limbs_within_mono) simp_all

lemma curve25519_ladder:
  assumes "length secret = 32" "length point = 32"
  shows "curve25519 secret point = le_bytes 32 (x25519 (decode_scalar secret) (decode_u point))"
proof -
  let ?e = "curve25519_clamp_secret secret" and ?x1 = "fe_frombytes_impl point" and ?u = "decode_u point"
  let ?st = "\<lparr>lx2 = fe_1, lz2 = fe_0, lx3 = ?x1, lz3 = fe_1, lswap = 0\<rparr>"
  have e: "length ?e = 32" "le_val ?e = decode_scalar secret"
    using clamp_value [OF assms(1)] by simp_all
  have x1: "stands ?x1 ?u"
    using fe_frombytes_correct [OF assms(2)] by (simp add: stands_def decode_u_def canonical_tight)
  define st where "st = ladder_loop ?x1 ?e 255 ?st"
  obtain swap v where ref: "x25519_loop (decode_scalar secret) ?u 255 (False, (1, 0), ?u, 1) = (swap, v)"
    by (cases "x25519_loop (decode_scalar secret) ?u 255 (False, (1, 0), ?u, 1)")
  have "ladder_stands ?st ((1, 0), ?u, 1)"
    using x1 by (simp add: ladder_stands_def stands_const)
  then have st: "ladder_stands st v" "lswap st = of_bool swap"
    using ladder_loop_stands [OF x1 e(1), of 255 ?st "((1, 0), ?u, 1)" False] ref by (simp_all add: st_def e(2))
  define fin where "fin = ladder_swap (lswap st) st"
  obtain x2 z2 w where c: "cswap_ref swap v = ((x2, z2), w)"
    by (cases "cswap_ref swap v"; cases "fst (cswap_ref swap v)") auto
  have "stands (lx2 fin) x2" "stands (lz2 fin) z2"
    using ladder_swap_stands [OF st(1), of swap] by (simp_all add: fin_def st(2) c ladder_stands_def)
  then have "stands (fe_mul_impl (lx2 fin) (fe_loose_invert (lz2 fin))) (x2 * z2 ^ (2 ^ 255 - 21))"
    by (intro stands_mul stands_loose fe_loose_invert_correct)
  moreover have "x25519 (decode_scalar secret) ?u = x2 * z2 ^ (2 ^ 255 - 21) mod p25519"
    unfolding x25519_def ref by (simp only: Let_def prod.case c fst_conv fmul_def)
  ultimately show ?thesis
    unfolding curve25519_def curve25519_generic_def Let_def st_def [symmetric] fin_def [symmetric]
    by (simp only: stands_def fe_tobytes_correct)
qed

text \<open>
  C1. The Curve25519 function of the tool is X25519 of RFC 7748, on every secret and every point: the
  limb arithmetic never overflows or loses a carry, the ladder goes through the bits of the clamped
  scalar, and the result is the unique representative below the prime, in little-endian order.
\<close>

theorem curve25519_is_x25519:
  assumes "length secret = CURVE25519_KEY_SIZE" "length point = CURVE25519_KEY_SIZE"
  shows "curve25519 secret point = le_bytes CURVE25519_KEY_SIZE (x25519 (decode_scalar secret) (decode_u point))"
  using curve25519_ladder assms by (simp add: CURVE25519_KEY_SIZE_def)

theorem curve25519_is_x25519_witness:
  "curve25519 (replicate 32 0) (9 # replicate 31 0) = le_bytes 32 (x25519 (2 ^ 254) 9)"
proof -
  have "decode_scalar (replicate 32 0) = 2 ^ 254" "decode_u (9 # replicate 31 0) = 9"
    by (simp_all add: decode_scalar_def decode_u_def le_val_zeros)
  then show ?thesis
    using curve25519_is_x25519 [of "replicate 32 0" "9 # replicate 31 0"] by (simp add: CURVE25519_KEY_SIZE_def)
qed

end
