(* ===== verification/Wg_Keys.thy ===== *)
theory Wg_Keys
  imports Wg_Curve Wg_Config_Laws
begin

text \<open>
  The commands that make keys (\<^verbatim>\<open>genkey.c\<close>, \<^verbatim>\<open>pubkey.c\<close> of \<^verbatim>\<open>wireguard-tools/src\<close>) and the choice of the command
  (\<^verbatim>\<open>wg.c\<close>). Standard input and output are lists of bytes; messages on standard error are values of \<open>message\<close>.
  What the kernel answers is a parameter: the random system call, the device file and its reads, and the
  status of standard output. Output that fails is left out.
\<close>

subsection \<open>Random bytes\<close>

definition EIO :: int where
  "EIO = 5"

definition EOVERFLOW :: int where
  "EOVERFLOW = 75"

text \<open>
  The bytes \<^verbatim>\<open>getrandom\<close> wrote, if any; the error of \<^verbatim>\<open>open\<close>, if it fails; what the \<open>k\<close>-th \<^verbatim>\<open>read\<close> finds, or its
  error. A \<^verbatim>\<open>read\<close> delivers at most what it is asked for.
\<close>

record rand_env =
  sys_getrandom :: "nat \<Rightarrow> u8 list option"
  sys_open_error :: "int option"
  sys_read :: "nat \<Rightarrow> int + u8 list"

function urandom_loop :: "(nat \<Rightarrow> int + u8 list) \<Rightarrow> nat \<Rightarrow> nat \<Rightarrow> u8 list \<Rightarrow> int + u8 list" where
  "urandom_loop reads k len out =
     (if length out < len then
        (case reads k of
           Inl e \<Rightarrow> Inl (if e \<noteq> 0 then e else EIO)
         | Inr bs \<Rightarrow>
             (let ret = take (len - length out) bs
              in if ret = [] then Inl EIO else urandom_loop reads (Suc k) len (out @ ret)))
      else Inr out)"
  by pat_completeness auto
termination
proof (relation "measure (\<lambda>(reads, k, len, out). len - length out)")
  fix reads :: "nat \<Rightarrow> int + u8 list" and k and len :: nat and out bs ret :: "u8 list"
  assume less: "length out < len" and "ret = take (len - length out) bs" and ret: "ret \<noteq> []"
  show "((reads, Suc k, len, out @ ret), reads, k, len, out) \<in> measure (\<lambda>(reads, k, len, out). len - length out)"
    using less ret by (cases ret) simp_all
qed simp

declare urandom_loop.simps [simp del]

definition get_random_bytes :: "rand_env \<Rightarrow> nat \<Rightarrow> int + u8 list" where
  "get_random_bytes E len =
     (if len > 256 then Inl EOVERFLOW
      else case sys_getrandom E len of
        Some bs \<Rightarrow> if length bs = len then Inr bs
                   else (case sys_open_error E of Some e \<Rightarrow> Inl e | None \<Rightarrow> urandom_loop (sys_read E) 0 len [])
      | None \<Rightarrow> (case sys_open_error E of Some e \<Rightarrow> Inl e | None \<Rightarrow> urandom_loop (sys_read E) 0 len []))"

subsection \<open>The commands\<close>

datatype message = Usage | World_accessible | Getrandom_failed int | Key_format | Trailing_characters

record cmd_result =
  cmd_ret :: int
  cmd_out :: "u8 list"
  cmd_err :: "message list"

text \<open>\<^verbatim>\<open>puts\<close> of a string with its terminating zero: the characters before it and a newline.\<close>

definition puts :: "u8 list \<Rightarrow> u8 list" where
  "puts s = takeWhile (\<lambda>c. c \<noteq> 0) s @ [10]"

text \<open>The mode of standard output, when \<^verbatim>\<open>fstat\<close> succeeds: a regular file that others can access.\<close>

definition world_accessible :: "u32 option \<Rightarrow> bool" where
  "world_accessible st \<longleftrightarrow>
     (case st of None \<Rightarrow> False | Some st_mode \<Rightarrow> st_mode AND 0xF000 = 0x8000 \<and> st_mode AND 7 \<noteq> 0)"

definition genkey_main :: "rand_env \<Rightarrow> u32 option \<Rightarrow> string list \<Rightarrow> cmd_result" where
  "genkey_main E st argv =
     (if length argv \<noteq> 1 then \<lparr>cmd_ret = 1, cmd_out = [], cmd_err = [Usage]\<rparr>
      else
        (let warn = (if world_accessible st then [World_accessible] else [])
         in case get_random_bytes E WG_KEY_LEN of
              Inl e \<Rightarrow> \<lparr>cmd_ret = 1, cmd_out = [], cmd_err = warn @ [Getrandom_failed e]\<rparr>
            | Inr key \<Rightarrow>
                (let key = (if argv ! 0 = ''genkey'' then curve25519_clamp_secret key else key)
                 in \<lparr>cmd_ret = 0, cmd_out = puts (key_to_base64 key), cmd_err = warn\<rparr>)))"

text \<open>The loop over what follows the key; \<^verbatim>\<open>getc\<close> gives the byte as a nonnegative number, and ends with the input.\<close>

fun trailing_ok :: "u8 list \<Rightarrow> bool" where
  "trailing_ok [] = True"
| "trailing_ok (c # cs) = (if c = 0 \<or> char_is_space (uint c) then trailing_ok cs else False)"

definition pubkey_main :: "bool \<Rightarrow> u8 list \<Rightarrow> string list \<Rightarrow> cmd_result" where
  "pubkey_main sg stdin argv =
     (if length argv \<noteq> 1 then \<lparr>cmd_ret = 1, cmd_out = [], cmd_err = [Usage]\<rparr>
      else if length (take (WG_KEY_LEN_BASE64 - 1) stdin) \<noteq> WG_KEY_LEN_BASE64 - 1
      then \<lparr>cmd_ret = 1, cmd_out = [], cmd_err = [Key_format]\<rparr>
      else if \<not> trailing_ok (drop (WG_KEY_LEN_BASE64 - 1) stdin)
      then \<lparr>cmd_ret = 1, cmd_out = [], cmd_err = [Trailing_characters]\<rparr>
      else
        (let base64 = take (WG_KEY_LEN_BASE64 - 1) stdin @ [0];
             (ok, key) = key_from_base64 sg (takeWhile (\<lambda>c. c \<noteq> 0) base64) []
         in if \<not> ok then \<lparr>cmd_ret = 1, cmd_out = [], cmd_err = [Key_format]\<rparr>
            else \<lparr>cmd_ret = 0, cmd_out = puts (key_to_base64 (curve25519_generate_public key)), cmd_err = []\<rparr>))"

subsection \<open>The choice of the command\<close>

datatype subcommand = Show_main | Showconf_main | Set_main | Setconf_main | Genkey_main | Pubkey_main

definition subcommands :: "(string \<times> subcommand) list" where
  "subcommands =
     [(''show'', Show_main), (''showconf'', Showconf_main), (''set'', Set_main), (''setconf'', Setconf_main),
      (''addconf'', Setconf_main), (''syncconf'', Setconf_main), (''genkey'', Genkey_main),
      (''genpsk'', Genkey_main), (''pubkey'', Pubkey_main)]"

datatype wg_action = Print_version | Print_usage | Run subcommand "string list" | Invalid_subcommand string

text \<open>The arguments after the program's own name, of which there is always one.\<close>

definition wg_main :: "string list \<Rightarrow> wg_action" where
  "wg_main args =
     (if length args = 1 \<and> args ! 0 \<in> {''-v'', ''--version'', ''version''} then Print_version
      else if length args = 1 \<and> args ! 0 \<in> {''-h'', ''--help'', ''help''} then Print_usage
      else if args = [] then Run Show_main [''show'']
      else case find (\<lambda>s. args ! 0 = fst s) subcommands of
        Some s \<Rightarrow> Run (snd s) args
      | None \<Rightarrow> Invalid_subcommand (args ! 0))"

text \<open>A run of the tool for one of the commands of this theory; the others are a parameter.\<close>

definition wg_run :: "(wg_action \<Rightarrow> cmd_result) \<Rightarrow> rand_env \<Rightarrow> u32 option \<Rightarrow> bool \<Rightarrow> u8 list \<Rightarrow> string list \<Rightarrow> cmd_result" where
  "wg_run other E st sg stdin args =
     (case wg_main args of
        Run Genkey_main argv \<Rightarrow> genkey_main E st argv
      | Run Pubkey_main argv \<Rightarrow> pubkey_main sg stdin argv
      | act \<Rightarrow> other act)"

subsection \<open>Random bytes: what is returned\<close>

lemma urandom_loop_length: "urandom_loop reads k len out = Inr bs \<Longrightarrow> length out \<le> len \<Longrightarrow> length bs = len"
proof (induction reads k len out rule: urandom_loop.induct)
  case (1 reads k len out)
  show ?case
  proof (cases "length out < len")
    case True
    then obtain ret where "reads k = Inr ret" "take (len - length out) ret \<noteq> []"
      "urandom_loop reads (Suc k) len (out @ take (len - length out) ret) = Inr bs"
      using "1.prems"(1) by (subst (asm) urandom_loop.simps) (auto simp: Let_def split: sum.splits if_splits)
    then show ?thesis
      using "1.IH" [OF True] True by simp
  next
    case False
    then show ?thesis
      using "1.prems" by (subst (asm) urandom_loop.simps) simp
  qed
qed

lemma get_random_bytes_length: "get_random_bytes E len = Inr bs \<Longrightarrow> length bs = len"
  by (auto simp: get_random_bytes_def intro: urandom_loop_length split: if_splits option.splits)

text \<open>The reads are put together in order: the bytes are the first \<open>len\<close> of those the device file delivers.\<close>

lemma urandom_loop_concat:
  assumes "\<forall>j < length chunks. reads (k + j) = Inr (chunks ! j) \<and> chunks ! j \<noteq> []"
    "len \<le> length out + length (concat chunks)" "length out \<le> len"
  shows "urandom_loop reads k len out = Inr (take len (out @ concat chunks))"
  using assms
proof (induction chunks arbitrary: k out)
  case Nil
  then show ?case
    by (subst urandom_loop.simps) simp
next
  case (Cons c cs)
  show ?case
  proof (cases "length out < len")
    case True
    have c: "reads k = Inr c" "c \<noteq> []"
      using Cons.prems(1) by (auto dest: spec [of _ 0])
    have "urandom_loop reads (Suc k) len (out @ take (len - length out) c) =
        Inr (take len ((out @ take (len - length out) c) @ concat cs))"
    proof (rule Cons.IH)
      show "\<forall>j < length cs. reads (Suc k + j) = Inr (cs ! j) \<and> cs ! j \<noteq> []"
        using Cons.prems(1) by (auto dest: spec [of _ "Suc _"])
    qed (use Cons.prems True in auto)
    moreover have "take len ((out @ take (len - length out) c) @ concat cs) = take len (out @ concat (c # cs))"
      using True by (cases "length c \<le> len - length out") auto
    ultimately show ?thesis
      using True c by (subst urandom_loop.simps) (simp add: Let_def)
  next
    case False
    then show ?thesis
      using Cons.prems by (subst urandom_loop.simps) simp
  qed
qed

subsection \<open>The text of a key\<close>

lemma encode_groups_nonzero: "c \<in> set (encode_groups bs) \<Longrightarrow> c \<noteq> 0"
  using encode_groups_range [of c bs] by auto

lemma puts_key: "puts (key_to_base64 key) = encode_groups key @ [10]"
proof -
  have "takeWhile (\<lambda>c. c \<noteq> 0) (encode_groups key @ [0]) = encode_groups key"
    using encode_groups_nonzero [of _ key] by (subst takeWhile_append2) auto
  then show ?thesis
    by (simp add: puts_def key_to_base64_def)
qed

definition blank :: "u8 \<Rightarrow> bool" where
  "blank c \<longleftrightarrow> c = 0 \<or> c = 32 \<or> 9 \<le> uint c \<and> uint c \<le> 13"

lemma char_is_space_byte: "char_is_space (uint c) \<longleftrightarrow> c = 32 \<or> 9 \<le> uint c \<and> uint c \<le> 13" for c :: u8
proof -
  have "unat c \<in> set [0..<256]"
    using unsigned_less [of c, where 'a = nat] by simp
  from space_table [unfolded list_all_iff, rule_format, OF this, of False]
  have t: "char_is_space (char_val False c) = (unat c = 32 \<or> 9 \<le> unat c \<and> unat c \<le> 13)"
    by simp
  have "9 \<le> unat c \<longleftrightarrow> 9 \<le> uint c" "unat c \<le> 13 \<longleftrightarrow> uint c \<le> 13"
    using uint_nat [of c] by linarith+
  moreover have "char_val False c = uint c"
    by (simp only: char_val_def if_False)
  moreover have "unat c = 32 \<longleftrightarrow> c = 32"
    using word_unat_eq_iff [of c 32] by simp
  ultimately show ?thesis
    using t by simp
qed

lemma trailing_ok_iff: "trailing_ok cs \<longleftrightarrow> list_all blank cs"
  by (induction cs) (auto simp: blank_def char_is_space_byte)

lemma pubkey_of_text:
  assumes "length key = WG_KEY_LEN" "list_all blank ws"
  shows "pubkey_main sg (encode_groups key @ ws) [cmd] =
    \<lparr>cmd_ret = 0, cmd_out = encode_groups (curve25519_generate_public key) @ [10], cmd_err = []\<rparr>"
proof -
  have "takeWhile (\<lambda>c. c \<noteq> 0) (encode_groups key @ [0]) = encode_groups key"
    using encode_groups_nonzero [of _ key] by (subst takeWhile_append2) auto
  then show ?thesis
    using key_base64_reads [OF assms(1)] assms(2) by (simp add: pubkey_main_def Let_def trailing_ok_iff puts_key)
qed

lemma pubkey_failure:
  assumes "cmd_ret (pubkey_main sg stdin [cmd]) \<noteq> 0"
  shows "\<exists>msg \<in> {Key_format, Trailing_characters}.
    pubkey_main sg stdin [cmd] = \<lparr>cmd_ret = 1, cmd_out = [], cmd_err = [msg]\<rparr>"
  using assms by (auto simp: pubkey_main_def Let_def split: if_splits prod.splits)

lemma generate_public_x25519:
  assumes "length key = WG_KEY_LEN"
  shows "curve25519_generate_public key = le_bytes 32 (x25519 (decode_scalar key) 9)"
proof -
  have "decode_u (9 # replicate 31 0) = 9"
    by (simp add: decode_u_def le_val_zeros)
  then show ?thesis
    using curve25519_ladder [of key "9 # replicate 31 0"] assms
    by (simp add: curve25519_generate_public_def CURVE25519_KEY_SIZE_def WG_KEY_LEN_def)
qed

text \<open>A clamped scalar is a multiple of eight between \<open>2 ^ 254\<close> and \<open>2 ^ 255\<close>, and clamping it again changes nothing.\<close>

definition clamped :: "u8 list \<Rightarrow> bool" where
  "clamped key \<longleftrightarrow> length key = WG_KEY_LEN \<and> 8 dvd le_val key \<and> 2 ^ 254 \<le> le_val key \<and> le_val key < 2 ^ 255"

lemma clamp_clamped:
  assumes "length s = WG_KEY_LEN"
  shows "clamped (curve25519_clamp_secret s)"
proof -
  define m where "m = le_val s mod 2 ^ 254"
  have "0 \<le> m" "m < 2 ^ 254" "8 * (m div 8) + m mod 8 = m" "0 \<le> m mod 8"
    by (simp_all add: m_def)
  then have "0 \<le> m div 8" "m div 8 < 2 ^ 251"
    by simp_all
  then show ?thesis
    using clamp_value [of s] assms by (simp add: clamped_def WG_KEY_LEN_def decode_scalar_def flip: m_def)
qed

lemma decode_clamped:
  assumes "clamped key"
  shows "decode_scalar key = le_val key"
proof -
  obtain q where q: "le_val key = 8 * q"
    using assms by (auto simp: clamped_def)
  then have "2 ^ 251 \<le> q" "q < 2 ^ 252"
    using assms by (simp_all add: clamped_def)
  then have "8 * q mod 2 ^ 254 = 8 * q - 2 ^ 254"
    by (subst mod_pos_pos_trivial [of "8 * q - 2 ^ 254" "2 ^ 254", symmetric]) (simp_all add: mod_diff_right_eq)
  moreover have "(8 * q - 2 ^ 254) div 8 = q - 2 ^ 251"
    by simp
  ultimately show ?thesis
    by (simp add: decode_scalar_def q)
qed

lemma genkey_run:
  assumes "cmd_ret (genkey_main E st [cmd]) = 0"
  shows "\<exists>bytes. get_random_bytes E WG_KEY_LEN = Inr bytes \<and> length bytes = WG_KEY_LEN \<and>
    cmd_out (genkey_main E st [cmd]) =
      encode_groups (if cmd = ''genkey'' then curve25519_clamp_secret bytes else bytes) @ [10]"
  using assms
  by (auto simp: genkey_main_def Let_def puts_key split: sum.splits dest: get_random_bytes_length)

lemma wg_main_keys [simp]:
  "wg_main [''genkey''] = Run Genkey_main [''genkey'']"
  "wg_main [''genpsk''] = Run Genkey_main [''genpsk'']"
  "wg_main [''pubkey''] = Run Pubkey_main [''pubkey'']"
  by (simp_all add: wg_main_def subcommands_def)

subsection \<open>Properties\<close>

text \<open>
  C35. \<^verbatim>\<open>wg genkey | wg pubkey\<close>: when the first succeeds, it has printed one line that is the base-64 text of a
  clamped key, and the second accepts this line and prints the text of the X25519 public key that belongs
  to it, the function applied to the base point 9.
\<close>

theorem genkey_pubkey_pipe:
  assumes "cmd_ret (wg_run other E st sg stdin [''genkey'']) = 0"
  shows "\<exists>key. clamped key \<and> cmd_out (wg_run other E st sg stdin [''genkey'']) = encode_groups key @ [10] \<and>
    wg_run other' E' st' sg (cmd_out (wg_run other E st sg stdin [''genkey''])) [''pubkey''] =
      \<lparr>cmd_ret = 0, cmd_out = encode_groups (le_bytes 32 (x25519 (le_val key) 9)) @ [10], cmd_err = []\<rparr>"
proof -
  obtain bytes where b: "length bytes = WG_KEY_LEN"
    "cmd_out (genkey_main E st [''genkey'']) = encode_groups (curve25519_clamp_secret bytes) @ [10]"
    using genkey_run [of E st "''genkey''"] assms by (auto simp: wg_run_def)
  define key where "key = curve25519_clamp_secret bytes"
  have key: "clamped key" "length key = WG_KEY_LEN"
    using clamp_clamped [OF b(1)] by (simp_all add: key_def clamped_def)
  have "pubkey_main sg (encode_groups key @ [10]) [''pubkey''] =
      \<lparr>cmd_ret = 0, cmd_out = encode_groups (le_bytes 32 (x25519 (le_val key) 9)) @ [10], cmd_err = []\<rparr>"
    using pubkey_of_text [OF key(2), of "[10]" sg "''pubkey''"]
    by (simp add: blank_def generate_public_x25519 key(2) decode_clamped [OF key(1)])
  then show ?thesis
    using b(2) key(1) by (auto simp: wg_run_def key_def)
qed

theorem genkey_pubkey_pipe_witness:
  defines "E \<equiv> \<lparr>sys_getrandom = (\<lambda>n. Some (replicate n 7)), sys_open_error = None, sys_read = (\<lambda>_. Inl 5)\<rparr>"
    and "other \<equiv> (\<lambda>_ :: wg_action. \<lparr>cmd_ret = 1, cmd_out = [], cmd_err = []\<rparr>)"
  shows "\<exists>key. clamped key \<and> cmd_out (wg_run other E None True [] [''genkey'']) = encode_groups key @ [10] \<and>
    cmd_out (wg_run other E None True (cmd_out (wg_run other E None True [] [''genkey''])) [''pubkey'']) =
      encode_groups (le_bytes 32 (x25519 (le_val key) 9)) @ [10]"
proof -
  have "cmd_ret (wg_run other E None True [] [''genkey'']) = 0"
    by (simp add: wg_run_def genkey_main_def get_random_bytes_def E_def WG_KEY_LEN_def world_accessible_def)
  from genkey_pubkey_pipe [OF this, of other E None] show ?thesis
    by auto
qed

text \<open>
  C36. \<^verbatim>\<open>wg pubkey\<close> succeeds exactly when its input is the base-64 text of a key followed by nothing but blanks
  and zero bytes; what it prints then is the text of the public key. In every other case it prints nothing
  and gives one message.
\<close>

theorem pubkey_exact:
  "(\<forall>key ws. length key = WG_KEY_LEN \<and> list_all blank ws \<and> stdin = encode_groups key @ ws \<longrightarrow>
      pubkey_main sg stdin [cmd] =
        \<lparr>cmd_ret = 0, cmd_out = encode_groups (le_bytes 32 (x25519 (decode_scalar key) 9)) @ [10], cmd_err = []\<rparr>) \<and>
   ((\<nexists>key ws. length key = WG_KEY_LEN \<and> list_all blank ws \<and> stdin = encode_groups key @ ws) \<longrightarrow>
      (\<exists>msg \<in> {Key_format, Trailing_characters}.
        pubkey_main sg stdin [cmd] = \<lparr>cmd_ret = 1, cmd_out = [], cmd_err = [msg]\<rparr>))"
proof (cases "\<exists>key ws. length key = WG_KEY_LEN \<and> list_all blank ws \<and> stdin = encode_groups key @ ws")
  case True
  then show ?thesis
    using pubkey_of_text generate_public_x25519 by auto
next
  case False
  have "cmd_ret (pubkey_main sg stdin [cmd]) \<noteq> 0"
  proof
    assume "cmd_ret (pubkey_main sg stdin [cmd]) = 0"
    then obtain key where "length stdin \<ge> 44" "list_all blank (drop 44 stdin)"
      "key_from_base64 sg (takeWhile (\<lambda>c. c \<noteq> 0) (take 44 stdin @ [0])) [] = (True, key)"
      by (auto simp: pubkey_main_def Let_def trailing_ok_iff WG_KEY_LEN_BASE64_def WG_KEY_LEN_def
          split: if_splits prod.splits)
    moreover from this have "encode_groups key = takeWhile (\<lambda>c. c \<noteq> 0) (take 44 stdin @ [0])" "length key = WG_KEY_LEN"
      using key_base64_only by auto
    moreover have "takeWhile (\<lambda>c. c \<noteq> 0) (take 44 stdin @ [0]) = takeWhile (\<lambda>c. c \<noteq> 0) (take 44 stdin)"
      by (rule takeWhile_tail) simp
    ultimately have "encode_groups key = take 44 stdin"
      using key_base64_reads(1) [of key] takeWhile_eq_take [of "\<lambda>c. c \<noteq> 0" "take 44 stdin"]
      by (simp add: WG_KEY_LEN_BASE64_def WG_KEY_LEN_def)
    with \<open>length key = WG_KEY_LEN\<close> \<open>list_all blank (drop 44 stdin)\<close> show False
      using False append_take_drop_id [of 44 stdin] by metis
  qed
  from pubkey_failure [OF this] False show ?thesis
    by blast
qed

theorem pubkey_exact_witness:
  "cmd_out (pubkey_main True (encode_groups (replicate 32 7) @ [0, 10]) [''pubkey'']) =
     encode_groups (le_bytes 32 (x25519 (decode_scalar (replicate 32 7)) 9)) @ [10] \<and>
   cmd_ret (pubkey_main True [10] [''pubkey'']) = 1"
proof -
  have "length (replicate 32 (7 :: u8)) = WG_KEY_LEN" "list_all blank [0, 10]"
    by (simp_all add: WG_KEY_LEN_def blank_def)
  moreover have "[10] \<noteq> encode_groups key @ ws" if "length key = WG_KEY_LEN" for key ws
  proof -
    have "length (encode_groups key @ ws) \<noteq> length [10 :: u8]"
      using key_base64_reads(1) [OF that] by (simp add: WG_KEY_LEN_BASE64_def WG_KEY_LEN_def)
    then show ?thesis
      by metis
  qed
  ultimately show ?thesis
    using pubkey_exact [of "encode_groups (replicate 32 7) @ [0, 10]" True "''pubkey''"]
      pubkey_exact [of "[10]" True "''pubkey''"] by force
qed

end
