(* ===== verification/Spec2Isabelle.thy ===== *)
theory Spec2Isabelle
  imports Linked_List Msg_Queue Power_Hal Dtb_Image Loc_Client_Laws Loc_Sync_Laws Dmn_Conn Wg_Sync Wg_Show Wg_Keys
begin

text \<open>
  Verification of the C code of the device tree of the Oppo A37 (Android, MSM8916).

  \<^bold>\<open>The program.\<close> The repository is a device tree: the sources, tables and configuration that the
  Android build compiles into the vendor side of one phone. Its parts are separate programs and
  libraries. Those with logic of their own in C are

  \<^item> \<^verbatim>\<open>dtbtool/\<close>, the host tool that collects device-tree blobs into the table image the boot loader
    reads (QCDT);
  \<^item> \<^verbatim>\<open>gps/utils/\<close>, the list and the blocking message queue under the threads of the GPS stack;
  \<^item> \<^verbatim>\<open>gps/loc_api/loc_api_v02/\<close>, the client of the QMI location service in the modem: message
    tables, connection handling and callbacks, and synchronous requests on top of them;
  \<^item> \<^verbatim>\<open>power/power.c\<close>, the power HAL;
  \<^item> \<^verbatim>\<open>wireguard-tools/\<close>, the WireGuard command-line tool, here its constant-time key encodings,
    the Curve25519 function and the commands that make keys, the reader of configurations, and the
    commands that set, synchronise and print them;
  \<^item> \<^verbatim>\<open>gps/loc_api/libloc_api_50001/loc_eng_dmn_conn*\<close>, the connection of the GPS engine with its
    daemon over named pipes.

  They meet where one is built on another: the message queue is made of list operations, and the
  synchronous requests run on the client's requests and are driven by its indication callback.

  \<^bold>\<open>The theories.\<close> Each theory follows the functions of its source file in order and keeps their names.

  \<^item> \<open>Prelude\<close>: machine types (\<open>u8\<close>, \<open>u32\<close>, \<open>s32\<close>, \<dots>), pointers, C strings, little-endian words, and
    the guarded store accesses. A store is a map from addresses to records; a read, write or free
    through a null or dangling pointer is a fault, the value \<open>None\<close> of the whole operation, so a
    theorem that an operation returns \<open>Some\<close> excludes such an access.
  \<^item> \<open>Dll_Segment\<close>: the locale of nodes with two links and the shape lemmas of doubly linked segments;
    interpreted on the elements of the list and on the records of the chip list.
  \<^item> \<open>Linked_List\<close> (\<^verbatim>\<open>gps/utils/linked_list.c\<close>): all operations with their pointer writes; the memory
    that \<^verbatim>\<open>calloc\<close> hands out is an argument. Runs of calls refine a first-in-first-out queue on plain
    lists; destroying and searching with removal are exact.
  \<^item> \<open>Msg_Queue\<close> (\<^verbatim>\<open>gps/utils/msg_q.c\<close>): each operation is its critical section; threads are an
    inductive step relation with the queue's mutex and condition variable. In every reachable state
    messages are neither lost nor reordered, no wake-up is lost, and an unblocked queue lets every
    receiver go.
  \<^item> \<open>Dtb_Chips\<close>, \<open>Dtb_Scan\<close>, \<open>Dtb_Image\<close> (\<^verbatim>\<open>dtbtool/dtbtool.c\<close>): the sorted chip list, the command line,
    the property-line parser and directory search, and the image writer with short and failing
    writes. The tool reports success exactly with the specified image.
  \<^item> \<open>Power_Hal\<close> (\<^verbatim>\<open>power/power.c\<close>): the hints and the frequency cap over a kernel that is a
    parameter; after any history of calls the limit in force is that of the active modes.
  \<^item> \<open>Loc_Ids\<close>, \<open>Loc_Tables\<close>, \<open>Loc_Client\<close>, \<open>Loc_Client_Laws\<close> (\<^verbatim>\<open>loc_api_v02_client.c\<close>): the identifiers
    the tables name, the event, response and request tables and their searches, then open, close,
    send, support check and both QMI callbacks over a store of callback data. The invariant says
    that every client the framework serves has live callback data; the properties give what open,
    close and send do on each branch.
  \<^item> \<open>Loc_Sync\<close>, \<open>Loc_Sync_Laws\<close> (\<^verbatim>\<open>loc_api_sync_req.c\<close>): the eight slots of synchronous requests. Each
    function is cut into the parts between taking and releasing its mutexes; callers and the
    indication handler are an inductive step relation over the client of \<open>Loc_Client\<close>. Slots belong to
    one call at a time while no wait times out; an answer is delivered whether it comes before or
    during the wait; what happens after a time-out and a spurious wake-up is stated as well.
  \<^item> \<open>Wg_Encoding\<close> (\<^verbatim>\<open>wireguard-tools/src/encoding.c\<close>): the branch-free base-64 and hexadecimal
    encoders and decoders of keys, equal to their tables on every byte, with round trips for whole
    keys and exactness of what the decoders accept.
  \<^item> \<open>Wg_Field\<close>, \<open>Wg_Pack\<close>, \<open>Wg_Curve\<close> (\<^verbatim>\<open>curve25519-fiat32.h\<close>, \<^verbatim>\<open>curve25519.c\<close>, \<^verbatim>\<open>curve25519.h\<close>): Curve25519 on
    32-bit words. First the field operations on ten limbs, each with its value modulo
    \<open>2 ^ 255 - 19\<close> for limbs within the bounds the code states; then reading, making unique and writing
    32 bytes; then the ladder, which is proved to compute X25519 of RFC 7748.
  \<^item> \<open>Wg_Keys\<close> (\<^verbatim>\<open>genkey.c\<close>, \<^verbatim>\<open>pubkey.c\<close>, \<^verbatim>\<open>wg.c\<close>): random bytes, the commands that make keys, and the choice of
    the command; joins the encodings, the character classes and the curve.
  \<^item> \<open>Wg_Config\<close>, \<open>Wg_Config_Laws\<close> (\<^verbatim>\<open>config.c\<close>, \<^verbatim>\<open>ctype.h\<close>, \<^verbatim>\<open>containers.h\<close>): the branch-free
    character classes, every value parser, the lines of a configuration file and the words of a
    command line. An accepted configuration is well formed, the word-wise netmask test is the test of
    the host part, and reading ends when the number of resolver retries is limited.
  \<^item> \<open>Wg_Sync\<close> (\<^verbatim>\<open>setconf.c\<close>, \<^verbatim>\<open>set.c\<close>): the difference between a file and the running device; it is
    exact for every order in which \<^verbatim>\<open>qsort\<close> may leave equal elements.
  \<^item> \<open>Wg_Show\<close> (\<^verbatim>\<open>showconf.c\<close>): the printer of configurations; what it prints is read back by
    \<open>Wg_Config\<close> as the same configuration.
  \<^item> \<open>Dmn_Thread\<close>, \<open>Dmn_Conn\<close> (\<^verbatim>\<open>loc_eng_dmn_conn_thread_helper.c\<close>, \<^verbatim>\<open>_glue_msg.c\<close>, \<^verbatim>\<open>_glue_pipe.c\<close>,
    \<^verbatim>\<open>_handler.cpp\<close>, \<^verbatim>\<open>loc_eng_dmn_conn.cpp\<close>): launcher and helper thread as a step relation over their
    mutex and condition variable; framed messages over pipes whose transfers may fail or fall short,
    and the server that answers them in order.

  \<^bold>\<open>Parameters.\<close> Code outside the repository is an argument of the definitions: allocation results,
  the kernel's files for the power HAL, the file system and the device-tree compiler for the tool
  (including how much each \<^verbatim>\<open>write\<close> accepts), the answers of the QMI framework to each call, the
  answers of the kernel to each pipe transfer, the resolver with the parsers and printers of addresses,
  \<^verbatim>\<open>qsort\<close> and the kernel interface of WireGuard, the source of random bytes, the width of \<^verbatim>\<open>unsigned long\<close>, the
  sizes of the generated message structures, and whether a plain \<^verbatim>\<open>char\<close> is signed. Where a property
  needs documented behaviour of such code, that is a hypothesis of the property and its witness
  instantiates the parameter with a concrete function.

  \<^bold>\<open>Loops and bounds.\<close> Loops over lists, tables, slots and strings are structural recursion. The
  directory search has fuel, one more than the nesting rank of the path, and is proved never to run
  out of it on file systems without cycles. Waiting for the QMI service to appear
  (\<open>lookup_loop\<close>) can go on for ever and is a partial function; the theorem on opening gives that
  it returns when the service does appear, and at most 21 attempts are made. The resolver of an endpoint may
  be asked for ever (\<open>resolve_loop\<close>); with a limited number of retries reading is proved to return.
  Loops that follow
  pointers are partial functions as well, since a chain might be cyclic; the theorems about them give
  the result they return on well-formed chains.
  The reads of random bytes end because each delivers at least one byte or is an error.
  Machine integers keep their width wherever the code relies on it: limbs of field elements, sizes and offsets of the image,
  identifiers and masks, the supported-message bit field, encoded bytes.

  \<^bold>\<open>Not modelled.\<close> Logging is left out everywhere. Not modelled at all: generated message
  descriptions (\<^verbatim>\<open>location_service_v02.c\<close>, tables of the QMI encoder), vendored code
  (\<^verbatim>\<open>protobuf26/\<close>), the 64-bit variant of the curve (\<^verbatim>\<open>curve25519-hacl64.h\<close>, not built for the 32-bit
  target), the display and the kernel interface of WireGuard (\<^verbatim>\<open>show.c\<close>, \<^verbatim>\<open>ipc*.h\<close>, netlink), the C++ parts (GPS engine and adapters, camera and
  sensor HALs, lights, vibrator, USB, radio, thermal, init), whose behaviour is mostly that of the
  Android frameworks they glue together, shims that only export symbols, and data (audio, overlays,
  policies, init scripts). Failing allocations are modelled where the code recovers from them in its
  state (lists, queues, chips, client), and left out in the parsers, where they are an error message
  and an error exit. Still open in C: the data-service client (\<^verbatim>\<open>ds_api/ds_client.c\<close>) and the
  Wi-Fi calibration service (\<^verbatim>\<open>wcnss_oppo/\<close>).
\<close>

end
